(* ===== verification/Prelude.thy ===== *)
theory Prelude
  imports Main "HOL-Library.Word"
begin

text \<open>
  Shared vocabulary of the development: the machine types of \<open>npu_types.h\<close>, the C integer
  conversions, the trace of memory-mapped accesses, the hardware mutex book-keeping and the
  generic facts on words, lists and ring indices that the components share.

  C integers are words of their own width; a narrower unsigned operand is zero-extended to 32 bits
  before an operation (\<open>c32\<close>), a store truncates (\<open>c16\<close>, \<open>c8\<close>), and a signed value is
  a word whose comparisons are \<open>word_sless\<close> and \<open>word_sle\<close>, which read it with \<open>sint\<close>.
\<close>

unbundle bit_operations_syntax

section \<open>Machine types\<close>

type_synonym u8 = "8 word"
type_synonym u16 = "16 word"
type_synonym u32 = "32 word"
type_synonym u64 = "64 word"
type_synonym s16 = "16 word"
type_synonym s32 = "32 word"

text \<open>Conversions between unsigned widths: zero extension or truncation.\<close>

abbreviation c8 :: "'a::len word \<Rightarrow> u8" where "c8 \<equiv> ucast"
abbreviation c16 :: "'a::len word \<Rightarrow> u16" where "c16 \<equiv> ucast"
abbreviation c32 :: "'a::len word \<Rightarrow> u32" where "c32 \<equiv> ucast"

text \<open>C's signed division: towards zero. The divisor is never zero where the code divides.\<close>

definition sdivc :: "s32 \<Rightarrow> s32 \<Rightarrow> s32" where
  "sdivc a b = word_of_int (sgn (sint a) * sgn (sint b) * (\<bar>sint a\<bar> div \<bar>sint b\<bar>))"

definition smodc :: "s32 \<Rightarrow> s32 \<Rightarrow> s32" where
  "smodc a b = a - sdivc a b * b"

definition bit_of :: "bool \<Rightarrow> u32" where
  "bit_of b = (if b then 1 else 0)"

named_theorems cword \<open>definitional equations of the C operations on words\<close>

declare sdivc_def [cword] smodc_def [cword] bit_of_def [cword]

section \<open>Memory-mapped registers\<close>

text \<open>
  A device register is read and written through \<open>REG32\<close>. What a read returns is decided by the
  device, which is not part of the program: a \<open>device\<close> is a function of the accesses made so far
  and of the address. The program's side is the list of accesses, oldest first.
\<close>

datatype access = Rd u32 u32 | Wr u32 u32

type_synonym device = "access list \<Rightarrow> u32 \<Rightarrow> u32"

definition reg_rd :: "device \<Rightarrow> u32 \<Rightarrow> access list \<Rightarrow> u32 \<times> access list" where
  "reg_rd dev a tr = (let v = dev tr a in (v, tr @ [Rd a v]))"

definition reg_wr :: "u32 \<Rightarrow> u32 \<Rightarrow> access list \<Rightarrow> access list" where
  "reg_wr a v tr = tr @ [Wr a v]"

fun writes :: "access list \<Rightarrow> (u32 \<times> u32) list" where
  "writes [] = []"
| "writes (Rd a v # tr) = writes tr"
| "writes (Wr a v # tr) = (a, v) # writes tr"

lemma writes_append [simp]: "writes (tr @ tr') = writes tr @ writes tr'"
  by (induction tr rule: writes.induct) auto

section \<open>Ring indices\<close>

text \<open>The successor of a slot of a ring with last slot \<open>last\<close>: \<open>(i == last) ? 0 : i + 1\<close>.\<close>

definition ring_next :: "nat \<Rightarrow> nat \<Rightarrow> nat" where
  "ring_next l i = (if i = l then 0 else i + 1)"

lemma ring_next_less: "i \<le> l \<Longrightarrow> ring_next l i \<le> l"
  by (auto simp: ring_next_def)

lemma ring_next_lt: "i < n \<Longrightarrow> ring_next (n - 1) i < n"
  by (auto simp: ring_next_def)

lemma ring_next_mod: "i \<le> l \<Longrightarrow> ring_next l i = (i + 1) mod (l + 1)"
  by (auto simp: ring_next_def)

section \<open>Lists\<close>

lemma sum_list_update_nat:
  "i < length xs \<Longrightarrow> sum_list (xs[i := (v::nat)]) + xs ! i = sum_list xs + v"
proof (induction xs arbitrary: i)
  case Nil
  then show ?case by simp
next
  case (Cons x xs)
  then show ?case by (cases i) auto
qed

lemma distinct_length_le_card:
  "distinct xs \<Longrightarrow> set xs \<subseteq> A \<Longrightarrow> finite A \<Longrightarrow> length xs \<le> card A"
  by (metis card_mono distinct_card)

section \<open>Words\<close>

lemma unat_add_small:
  fixes x y :: "'a::len word"
  shows "unat x + unat y < 2 ^ LENGTH('a) \<Longrightarrow> unat (x + y) = unat x + unat y"
  by (simp add: unat_word_ariths)

lemma unat_sub_small:
  fixes x y :: "'a::len word"
  shows "y \<le> x \<Longrightarrow> unat (x - y) = unat x - unat y"
  by (rule unat_sub)

lemma unat_lt32: "unat (x :: u32) < 4294967296"
  using unsigned_less [of x] by simp

lemma unat_lt16: "unat (x :: u16) < 65536"
  using unsigned_less [of x] by simp

lemma unat_lt8: "unat (x :: u8) < 256"
  using unsigned_less [of x] by simp

lemma unat_c32_c16 [simp]: "unat (c32 (x :: u16)) = unat x"
  by (simp add: unsigned_ucast_eq take_bit_nat_eq_self_iff order_less_trans [OF unat_lt16])

lemma unat_c32_c8 [simp]: "unat (c32 (x :: u8)) = unat x"
  by (simp add: unsigned_ucast_eq take_bit_nat_eq_self_iff order_less_trans [OF unat_lt8])

lemma unat_c16_c32: "unat (c16 (x :: u32)) = unat x mod 65536"
  by (simp add: unsigned_ucast_eq take_bit_eq_mod)

lemma c16_c32 [simp]: "c16 (c32 (x :: u16)) = x"
  using unat_lt16 [of x] by (simp add: word_unat_eq_iff unat_c16_c32)

lemma c32_c16_inj [simp]: "c32 (x :: u16) = c32 (y :: u16) \<longleftrightarrow> x = y"
  by (metis c16_c32)

lemma unat_c8_c32: "unat (c8 (x :: u32)) = unat x mod 256"
  by (simp add: unsigned_ucast_eq take_bit_eq_mod)

lemma unat_and_mask: "unat (x AND mask n) = unat x mod 2 ^ n"
  by (simp flip: take_bit_eq_mask add: unsigned_take_bit_eq) (simp add: take_bit_eq_mod)

lemma unat_drop_bit: "unat (drop_bit n x) = unat x div 2 ^ n"
  by (simp only: unat_drop_bit_eq) (simp add: drop_bit_eq_div)

lemma and_not_mask: "x AND NOT (mask n) = x - (x AND mask n)" for x :: "'a::len word"
proof -
  have "x - (x AND mask n) = x AND NOT (x AND mask n)"
    by (rule disjunctive_diff) (simp add: bit_simps)
  also have "\<dots> = x AND NOT (mask n)"
    by (rule bit_word_eqI) (auto simp: bit_simps)
  finally show ?thesis by simp
qed

lemma unat_and_not_mask: "unat (x AND NOT (mask n)) = unat x div 2 ^ n * 2 ^ n"
  for x :: "'a::len word"
proof -
  have "x AND mask n \<le> x" by (simp add: word_and_le2)
  then have "unat (x AND NOT (mask n)) = unat x - unat x mod 2 ^ n"
    by (simp only: and_not_mask unat_sub unat_and_mask)
  then show ?thesis by (simp add: minus_mod_eq_div_mult)
qed

lemma unat_and_le: "unat (x AND y) \<le> unat (y :: 'a::len word)"
  by (rule word_and_le1 [THEN word_le_nat_alt [THEN iffD1]])

text \<open>Signed values.\<close>

lemma sint_small: "unat (w :: u32) < 2147483648 \<Longrightarrow> sint w = int (unat w)"
proof -
  assume "unat w < 2147483648"
  then have "uint w < 2147483648" by (metis of_nat_less_iff of_nat_numeral uint_nat)
  moreover have "- 2147483648 \<le> uint w" by (rule order.trans [of _ 0]) simp_all
  ultimately show ?thesis by (simp add: sint_uint signed_take_bit_int_eq_self)
qed

lemma sint_nonneg: "0 \<le> sint (w :: u32) \<Longrightarrow> sint w = int (unat w)"
proof -
  assume p: "0 \<le> sint w"
  moreover have "sint w < 2147483648" using sint_lt [of w] by simp
  ultimately have "uint w = sint w" unfolding uint_sint by (simp add: take_bit_int_eq_self)
  then show ?thesis by simp
qed

lemma sint_add_small:
  fixes a b :: u32
  shows "-2147483648 \<le> sint a + sint b \<Longrightarrow> sint a + sint b < 2147483648 \<Longrightarrow> sint (a + b) = sint a + sint b"
  by (simp add: sint_word_add signed_take_bit_int_eq_self)

lemma sint_sub_small:
  fixes a b :: u32
  shows "-2147483648 \<le> sint a - sint b \<Longrightarrow> sint a - sint b < 2147483648 \<Longrightarrow> sint (a - b) = sint a - sint b"
  by (simp add: sint_word_diff signed_take_bit_int_eq_self)

lemma sdivc_pos:
  fixes a b :: s32
  shows "0 \<le> sint a \<Longrightarrow> 0 < sint b \<Longrightarrow> sint (sdivc a b) = sint a div sint b"
proof -
  assume ab: "0 \<le> sint a" "0 < sint b"
  then have e: "sdivc a b = word_of_int (sint a div sint b)"
    by (cases "sint a = 0") (simp_all add: sdivc_def)
  have "0 \<le> sint a div sint b" using ab by (simp add: pos_imp_zdiv_nonneg_iff)
  moreover have "sint a div sint b \<le> sint a" using ab zdiv_mono2 [of "sint a" 1 "sint b"] by simp
  ultimately show ?thesis using sint_lt [of a] unfolding e
    by (simp add: signed_of_int signed_take_bit_int_eq_self)
qed

end
