(* ===== verification/Util.thy ===== *)
theory Util
  imports Prelude
begin

text \<open>
  \<open>npu_util.c\<close>: the memory and string helpers the firmware links instead of a libc, and the
  integer square root. Memory is a function from 32-bit addresses to bytes; pointers are
  addresses, and pointer increments wrap at 32 bits as the registers do.
\<close>

section \<open>Definitions\<close>

type_synonym mem = "u32 \<Rightarrow> u8"

text \<open>\<open>while (n--) *d++ = (u8)c;\<close>\<close>

function memset_loop :: "mem \<Rightarrow> u32 \<Rightarrow> u8 \<Rightarrow> u32 \<Rightarrow> mem" where
  "memset_loop m d c n = (if n = 0 then m else memset_loop (m(d := c)) (d + 1) c (n - 1))"
  by pat_completeness auto
termination
  by (relation "measure (\<lambda>(m, d, c, n). unat n)") (auto simp: unat_minus_one unat_gt_0)

definition npu_memset :: "mem \<Rightarrow> u32 \<Rightarrow> s32 \<Rightarrow> u32 \<Rightarrow> u32 \<times> mem" where
  "npu_memset m dst c n = (dst, memset_loop m dst (c8 c) n)"

text \<open>\<open>while (n--) *d++ = *s++;\<close>\<close>

function memcpy_loop :: "mem \<Rightarrow> u32 \<Rightarrow> u32 \<Rightarrow> u32 \<Rightarrow> mem" where
  "memcpy_loop m d s n =
     (if n = 0 then m else memcpy_loop (m(d := m s)) (d + 1) (s + 1) (n - 1))"
  by pat_completeness auto
termination
  by (relation "measure (\<lambda>(m, d, s, n). unat n)") (auto simp: unat_minus_one unat_gt_0)

definition npu_memcpy :: "mem \<Rightarrow> u32 \<Rightarrow> u32 \<Rightarrow> u32 \<Rightarrow> u32 \<times> mem" where
  "npu_memcpy m dst src n = (dst, memcpy_loop m dst src n)"

text \<open>\<open>while (*p) p++; return p - s;\<close> A memory without a zero byte keeps the loop running.\<close>

partial_function (option) strlen_loop :: "mem \<Rightarrow> u32 \<Rightarrow> u32 option" where
  "strlen_loop m p = (if m p = 0 then Some p else strlen_loop m (p + 1))"

definition npu_strlen :: "mem \<Rightarrow> u32 \<Rightarrow> u32 option" where
  "npu_strlen m s = map_option (\<lambda>p. p - s) (strlen_loop m s)"

text \<open>\<open>while (b > x) b >>= 2;\<close>\<close>

function isqrt_scale :: "u32 \<Rightarrow> u32 \<Rightarrow> u32" where
  "isqrt_scale x b = (if x < b then isqrt_scale x (drop_bit 2 b) else b)"
  by pat_completeness auto
termination
  by (relation "measure (\<lambda>(x, b). unat b)") (auto simp: word_less_nat_alt unat_drop_bit)

text \<open>The digit loop; its state is \<open>x\<close>, \<open>r\<close> and \<open>b\<close>.\<close>

function isqrt_loop :: "u32 \<Rightarrow> u32 \<Rightarrow> u32 \<Rightarrow> u32" where
  "isqrt_loop x r b =
     (if b = 0 then r
      else if r + b \<le> x
        then isqrt_loop (x - (r + b)) (drop_bit 1 r + b) (drop_bit 2 b)
        else isqrt_loop x (drop_bit 1 r) (drop_bit 2 b))"
  by pat_completeness auto
termination
  by (relation "measure (\<lambda>(x, r, b). unat b)") (auto simp: unat_drop_bit unat_gt_0)

definition npu_isqrt :: "u32 \<Rightarrow> u32" where
  "npu_isqrt x = isqrt_loop x 0 (isqrt_scale x (2 ^ 30))"

definition get_core_char :: "u32 \<Rightarrow> char" where
  "get_core_char hart = (if hart \<le> 7 then char_of (48 + unat hart) else CHR ''X'')"

definition npu_htons :: "u16 \<Rightarrow> u16" where
  "npu_htons x = drop_bit 8 x OR push_bit 8 x"

declare memset_loop.simps [simp del] memcpy_loop.simps [simp del]
  isqrt_scale.simps [simp del] isqrt_loop.simps [simp del]

section \<open>Fills and copies\<close>

lemma unat_pred: "n \<noteq> 0 \<Longrightarrow> unat (n - 1 :: u32) = unat n - 1"
  by (simp add: unat_minus_one)

text \<open>Addresses are compared by their distance from the start of a block.\<close>

lemma dist_step:
  fixes a d n :: u32
  assumes "n \<noteq> 0" "a \<noteq> d"
  shows "a - (d + 1) < n - 1 \<longleftrightarrow> a - d < n"
proof -
  have "a - d \<noteq> 0" using assms by simp
  then have "unat (a - d - 1) = unat (a - d) - 1" "0 < unat (a - d)"
    by (simp_all add: unat_pred unat_gt_0)
  moreover have "0 < unat n" using assms by (simp add: unat_gt_0)
  ultimately have "a - d - 1 < n - 1 \<longleftrightarrow> a - d < n"
    using assms(1) by (auto simp: word_less_nat_alt unat_pred)
  then show ?thesis by (simp add: diff_diff_eq)
qed

lemma memset_loop_eq: "memset_loop m d c n a = (if a - d < n then c else m a)"
proof (induction m d c n rule: memset_loop.induct)
  case (1 m d c n)
  show ?case
  proof (cases "n = 0")
    case True
    then show ?thesis by (simp add: memset_loop.simps)
  next
    case False
    note IH = "1.IH" [OF False]
    from False have "memset_loop m d c n a = (if a - (d + 1) < n - 1 then c else (m(d := c)) a)"
      by (simp only: memset_loop.simps [of m d c n] IH if_False)
    then show ?thesis
      using False dist_step [of n a d] by (auto simp: word_gt_0)
  qed
qed

lemma memcpy_loop_eq:
  assumes "n \<le> d - s \<or> d = s"
  shows "memcpy_loop m d s n a = (if a - d < n then m (s + (a - d)) else m a)"
  using assms
proof (induction m d s n rule: memcpy_loop.induct)
  case (1 m d s n)
  show ?case
  proof (cases "n = 0")
    case True
    then show ?thesis by (simp add: memcpy_loop.simps)
  next
    case False
    have "n - 1 \<le> d + 1 - (s + 1) \<or> d + 1 = s + 1"
      using "1.prems" False by (auto simp: word_le_nat_alt unat_pred)
    note IH = "1.IH" [OF False this]
    from False have step: "memcpy_loop m d s n a =
      (if a - (d + 1) < n - 1 then (m(d := m s)) (s + 1 + (a - (d + 1))) else (m(d := m s)) a)"
      by (simp only: memcpy_loop.simps [of m d s n] IH if_False)
    show ?thesis
    proof (cases "a = d")
      case True
      have "\<not> (- 1 :: u32) < n - 1"
        by (simp add: not_less)
      then show ?thesis using step True False by (simp add: word_gt_0)
    next
      case ad: False
      have src: "s + 1 + (a - (d + 1)) = s + (a - d)" by simp
      have "s + (a - d) \<noteq> d" if "a - d < n" "d \<noteq> s"
      proof
        assume "s + (a - d) = d"
        then have "a - d = d - s" by (simp add: algebra_simps)
        then show False using that "1.prems" by simp
      qed
      then have "a - d < n \<Longrightarrow> (m(d := m s)) (s + (a - d)) = m (s + (a - d))"
        by (cases "d = s") auto
      then show ?thesis
        using step dist_step [OF False ad] ad src by (simp add: fun_upd_def)
    qed
  qed
qed

lemma npu_memset_eq:
  "npu_memset m dst c n = (dst, \<lambda>a. if a - dst < n then c8 c else m a)"
  by (auto simp: npu_memset_def memset_loop_eq)

lemma npu_memcpy_eq:
  "n \<le> dst - src \<or> dst = src \<Longrightarrow>
   npu_memcpy m dst src n = (dst, \<lambda>a. if a - dst < n then m (src + (a - dst)) else m a)"
  by (auto simp: npu_memcpy_def memcpy_loop_eq)

section \<open>String length\<close>

lemma strlen_loop_steps:
  "(\<forall>i<k. m (p + of_nat i) \<noteq> 0) \<Longrightarrow> strlen_loop m p = strlen_loop m (p + of_nat k)"
proof (induction k arbitrary: p)
  case 0
  then show ?case by simp
next
  case (Suc k)
  from Suc.prems have "m p \<noteq> 0" by auto
  then have "strlen_loop m p = strlen_loop m (p + 1)"
    by (simp add: strlen_loop.simps [of m p])
  moreover have "\<forall>i<k. m (p + 1 + of_nat i) \<noteq> 0"
  proof (intro allI impI)
    fix i assume "i < k"
    then have "m (p + of_nat (Suc i)) \<noteq> 0" using Suc.prems by blast
    then show "m (p + 1 + of_nat i) \<noteq> 0" by (simp add: add.assoc)
  qed
  ultimately show ?case using Suc.IH [of "p + 1"] by (simp add: add.assoc)
qed

lemma npu_strlen_eq:
  assumes "m (s + of_nat k) = 0" "\<forall>i<k. m (s + of_nat i) \<noteq> 0"
  shows "npu_strlen m s = Some (of_nat k)"
proof -
  have "strlen_loop m s = strlen_loop m (s + of_nat k)"
    by (rule strlen_loop_steps [OF assms(2)])
  also have "\<dots> = Some (s + of_nat k)"
    using assms(1) by (simp add: strlen_loop.simps [of m "s + of_nat k"])
  finally show ?thesis by (simp add: npu_strlen_def)
qed

section \<open>The integer square root\<close>

text \<open>
  One digit of the root: with \<open>b = 4 ^ k\<close> and the root \<open>R\<close> found so far held as
  \<open>r = R * 2 ^ (k + 1)\<close>, the loop keeps \<open>x + R\<^sup>2\<close> constant and the argument below
  \<open>(R + 2 ^ (k + 1))\<^sup>2\<close>.
\<close>

definition isqrt_inv :: "nat \<Rightarrow> nat \<Rightarrow> nat \<Rightarrow> u32 \<Rightarrow> u32 \<Rightarrow> bool" where
  "isqrt_inv k R x0 x r \<longleftrightarrow>
     unat r = R * 2 ^ (k + 1) \<and> unat x + R\<^sup>2 = x0 \<and> x0 < (R + 2 ^ (k + 1))\<^sup>2 \<and>
     R + 2 ^ (k + 1) \<le> 65536"

lemma digit_square: "(R + 2 ^ k)\<^sup>2 = R\<^sup>2 + (R * 2 ^ (k + 1) + 4 ^ k)" for R :: nat
proof -
  have "(2 ^ k)\<^sup>2 = (4 ^ k :: nat)"
    by (simp add: power2_eq_square flip: power_mult_distrib)
  then show ?thesis by (simp add: power2_sum)
qed

lemma digit_sum_bound:
  assumes "R + 2 ^ (k + 1) \<le> (65536 :: nat)"
  shows "R * 2 ^ (k + 1) + 4 ^ k < 4294967296"
proof -
  have "R + 2 * 2 ^ k \<le> 65536" using assms by simp
  moreover have "0 < (2 ^ k :: nat)" by simp
  ultimately have "R + 2 ^ k < 65536" by linarith
  then have "(R + 2 ^ k)\<^sup>2 < 65536\<^sup>2" by (rule power_strict_mono) simp_all
  then show ?thesis using digit_square [of R k] by simp
qed

lemma isqrt_digit:
  assumes inv: "isqrt_inv k R x0 x r" and b: "unat b = 4 ^ k"
  shows "unat (r + b) = R * 2 ^ (k + 1) + 4 ^ k"
    and "r + b \<le> x \<Longrightarrow> unat (x - (r + b)) + (R + 2 ^ k)\<^sup>2 = x0"
    and "\<not> r + b \<le> x \<Longrightarrow> x0 < (R + 2 ^ k)\<^sup>2"
    and "unat (drop_bit 1 r + b) = (R + 2 ^ k) * 2 ^ k"
    and "unat (drop_bit 1 r) = R * 2 ^ k"
proof -
  have r: "unat r = R * 2 ^ (k + 1)" and x: "unat x + R\<^sup>2 = x0"
    and bound: "R + 2 ^ (k + 1) \<le> 65536"
    using inv by (auto simp: isqrt_inv_def)
  show sum: "unat (r + b) = R * 2 ^ (k + 1) + 4 ^ k"
    using digit_sum_bound [OF bound] r b by (simp add: unat_add_small)
  show "unat (x - (r + b)) + (R + 2 ^ k)\<^sup>2 = x0" if "r + b \<le> x"
    using that sum x digit_square [of R k] by (simp add: unat_sub word_le_nat_alt)
  show "x0 < (R + 2 ^ k)\<^sup>2" if "\<not> r + b \<le> x"
    using that sum x digit_square [of R k] by (simp add: not_le word_less_nat_alt)
  show half: "unat (drop_bit 1 r) = R * 2 ^ k"
    by (simp only: unat_drop_bit r) simp
  have "R * 2 ^ k + 4 ^ k < 4294967296"
    using digit_sum_bound [OF bound] by simp
  then have "unat (drop_bit 1 r + b) = R * 2 ^ k + 4 ^ k"
    using half b by (simp add: unat_add_small)
  also have "\<dots> = (R + 2 ^ k) * 2 ^ k"
    by (simp add: add_mult_distrib flip: power_mult_distrib)
  finally show "unat (drop_bit 1 r + b) = (R + 2 ^ k) * 2 ^ k" .
qed

lemma isqrt_loop_correct:
  assumes "isqrt_inv k R x0 x r" "unat b = 4 ^ k"
  shows "(unat (isqrt_loop x r b))\<^sup>2 \<le> x0 \<and> x0 < (unat (isqrt_loop x r b) + 1)\<^sup>2"
  using assms
proof (induction k arbitrary: R x r b)
  case 0
  note d = isqrt_digit [OF "0.prems"]
  have b: "b = 1" using "0.prems"(2) by (simp add: word_unat_eq_iff)
  have last: "isqrt_loop x' r' (drop_bit 2 b) = r'" for x' r'
    by (simp add: isqrt_loop.simps [of x' r'] b)
  show ?case
  proof (cases "r + b \<le> x")
    case True
    then have "isqrt_loop x r b = drop_bit 1 r + b"
      using b last by (subst isqrt_loop.simps) simp
    then show ?thesis using d(2) [OF True] d(4) "0.prems"(1)
      by (auto simp: isqrt_inv_def)
  next
    case False
    then have "isqrt_loop x r b = drop_bit 1 r"
      using b last by (subst isqrt_loop.simps) simp
    then show ?thesis using d(3) [OF False] d(5) "0.prems"(1)
      by (auto simp: isqrt_inv_def)
  qed
next
  case (Suc k)
  note d = isqrt_digit [OF Suc.prems]
  have b: "b \<noteq> 0" and b': "unat (drop_bit 2 b) = 4 ^ k"
    using Suc.prems(2) by (auto simp: unat_drop_bit)
  have inv: "unat x + R\<^sup>2 = x0" "x0 < (R + 2 ^ (Suc k + 1))\<^sup>2" "R + 2 ^ (Suc k + 1) \<le> 65536"
    using Suc.prems(1) by (auto simp: isqrt_inv_def)
  show ?case
  proof (cases "r + b \<le> x")
    case True
    have "isqrt_inv k (R + 2 ^ Suc k) x0 (x - (r + b)) (drop_bit 1 r + b)"
      using d(2) [OF True] d(4) inv by (simp add: isqrt_inv_def add.assoc)
    from Suc.IH [OF this b'] show ?thesis
      using True b by (subst (1 2) isqrt_loop.simps) simp
  next
    case False
    have "isqrt_inv k R x0 x (drop_bit 1 r)"
      using d(3) [OF False] d(5) inv by (simp add: isqrt_inv_def)
    from Suc.IH [OF this b'] show ?thesis
      using False b by (subst (1 2) isqrt_loop.simps) simp
  qed
qed

text \<open>The scaling loop finds the largest power of four not above the argument, if there is one.\<close>

lemma isqrt_scale_correct:
  assumes "unat b = 4 ^ k" "unat x < 4 ^ (k + 1)"
  shows "x = 0 \<and> isqrt_scale x b = 0 \<or>
         (\<exists>j\<le>k. unat (isqrt_scale x b) = 4 ^ j \<and> unat x < 4 ^ (j + 1))"
  using assms
proof (induction k arbitrary: b)
  case 0
  have b: "b = 1" using "0.prems"(1) by (simp add: word_unat_eq_iff)
  show ?case
  proof (cases "x < b")
    case True
    then have "x = 0" by (simp add: b)
    then show ?thesis by (simp add: isqrt_scale.simps [of 0 1] isqrt_scale.simps [of 0 0] b)
  next
    case False
    then show ?thesis using "0.prems" by (simp add: isqrt_scale.simps [of x b])
  qed
next
  case (Suc k)
  show ?case
  proof (cases "x < b")
    case True
    have b': "unat (drop_bit 2 b) = 4 ^ k" using Suc.prems(1) by (simp add: unat_drop_bit)
    have "unat x < 4 ^ (k + 1)" using True Suc.prems(1) by (simp add: word_less_nat_alt)
    from Suc.IH [OF b' this] show ?thesis
      using True by (subst (1 2) isqrt_scale.simps) (auto intro: le_SucI)
  next
    case False
    then have "isqrt_scale x b = b" by (subst isqrt_scale.simps) simp
    then show ?thesis using Suc.prems by auto
  qed
qed

lemma npu_isqrt_correct:
  "(unat (npu_isqrt x))\<^sup>2 \<le> unat x \<and> unat x < (unat (npu_isqrt x) + 1)\<^sup>2"
proof -
  have "unat (2 ^ 30 :: u32) = 4 ^ 15" "unat x < 4 ^ (15 + 1)"
    using unat_lt32 [of x] by simp_all
  from isqrt_scale_correct [OF this] show ?thesis
  proof (elim disjE exE conjE)
    assume "x = 0" "isqrt_scale x (2 ^ 30) = 0"
    then show ?thesis by (simp add: npu_isqrt_def isqrt_loop.simps [of 0 0 0])
  next
    fix j
    assume j: "j \<le> 15" "unat (isqrt_scale x (2 ^ 30)) = 4 ^ j" "unat x < 4 ^ (j + 1)"
    have "2 ^ (j + 1) \<le> (65536 :: nat)"
      using power_increasing [of "j + 1" 16 "2 :: nat"] j(1) by simp
    then have "isqrt_inv j 0 (unat x) x 0"
      using j(3) by (simp add: isqrt_inv_def power2_eq_square flip: power_mult_distrib)
    from isqrt_loop_correct [OF this j(2)] show ?thesis by (simp add: npu_isqrt_def)
  qed
qed

text \<open>What the callers that divide by the root rely on.\<close>

lemma npu_isqrt_pos: "x \<noteq> 0 \<Longrightarrow> npu_isqrt x \<noteq> 0"
  using npu_isqrt_correct [of x] by (auto simp: unsigned_eq_0_iff)

lemma npu_isqrt_le: "npu_isqrt x \<le> x"
proof -
  have "unat (npu_isqrt x) \<le> (unat (npu_isqrt x))\<^sup>2"
    by (cases "unat (npu_isqrt x) = 0") (simp_all add: power2_eq_square)
  then show ?thesis using npu_isqrt_correct [of x] by (simp add: word_le_nat_alt)
qed

lemma npu_htons_involution: "npu_htons (npu_htons x) = x"
proof (rule bit_word_eqI)
  fix n assume "n < LENGTH(16)"
  then consider "n < 8" | "8 \<le> n" "n < 16" by fastforce
  then show "bit (npu_htons (npu_htons x)) n \<longleftrightarrow> bit x n"
    by cases (auto simp: npu_htons_def bit_simps)
qed

end
