(* ===== verification/Config.thy ===== *)
theory Config
  imports Prelude
begin

text \<open>
  The build-time variants of \<open>npu_config.h\<close>. A build defines one SoC and one WiFi chip
  (or none); the \<open>#if\<close> blocks of the header become predicates on the variant, so that a fact
  about a table that depends on them holds for every image the Makefile builds.
\<close>

section \<open>Variants\<close>

datatype soc = AN7552 | AN7581 | AN7583

datatype wifi = MT7916 | MT7991 | MT7992 | MT7993 | MT7996 | NOWIFI

record variant =
  v_soc :: soc
  v_wifi :: wifi
  v_clanker :: bool

definition MAX_CORE_NUM :: "variant \<Rightarrow> nat" where
  "MAX_CORE_NUM v = (case v_soc v of AN7552 \<Rightarrow> 2 | AN7581 \<Rightarrow> 8 | AN7583 \<Rightarrow> 6)"

definition NPU_TIMER_NUM :: "variant \<Rightarrow> nat" where
  "NPU_TIMER_NUM v = (case v_soc v of AN7552 \<Rightarrow> 8 | AN7581 \<Rightarrow> 4 | AN7583 \<Rightarrow> 16)"

definition AN758X :: "variant \<Rightarrow> bool" where
  "AN758X v \<longleftrightarrow> v_soc v = AN7581 \<or> v_soc v = AN7583"

definition WIFI_KITE :: "variant \<Rightarrow> bool" where
  "WIFI_KITE v \<longleftrightarrow> v_wifi v = MT7916 \<or> v_wifi v = MT7996"

definition WIFI_EAGLE :: "variant \<Rightarrow> bool" where
  "WIFI_EAGLE v \<longleftrightarrow> v_wifi v = MT7991 \<or> v_wifi v = MT7992 \<or> v_wifi v = MT7993"

definition HAS_WIFI :: "variant \<Rightarrow> bool" where
  "HAS_WIFI v \<longleftrightarrow> WIFI_KITE v \<or> WIFI_EAGLE v"

definition HAS_DBA :: "variant \<Rightarrow> bool" where
  "HAS_DBA v \<longleftrightarrow> v_soc v = AN7583 \<and> v_wifi v \<noteq> NOWIFI"

definition HAS_TUNNEL :: "variant \<Rightarrow> bool" where
  "HAS_TUNNEL v \<longleftrightarrow> AN758X v"

definition HAS_TR471 :: "variant \<Rightarrow> bool" where
  "HAS_TR471 v \<longleftrightarrow> v_soc v = AN7581 \<and> HAS_WIFI v"

definition HAS_BME :: "variant \<Rightarrow> bool" where
  "HAS_BME v \<longleftrightarrow> v_soc v \<noteq> AN7581 \<and> HAS_WIFI v"

definition HAS_NPU_WIFI_TX :: "variant \<Rightarrow> bool" where
  "HAS_NPU_WIFI_TX v \<longleftrightarrow> HAS_WIFI v \<and>
     (v_soc v = AN7581 \<and> v_wifi v \<noteq> MT7916 \<or> v_soc v = AN7583 \<and> WIFI_EAGLE v)"

definition HAS_HOT_TEXT :: "variant \<Rightarrow> bool" where
  "HAS_HOT_TEXT v \<longleftrightarrow>
     v_soc v = AN7552 \<and> WIFI_KITE v \<or> v_soc v = AN7583 \<and> WIFI_EAGLE v"

definition HAS_ID_BATCH :: "variant \<Rightarrow> bool" where
  "HAS_ID_BATCH v \<longleftrightarrow> v_soc v = AN7583 \<and> WIFI_EAGLE v"

definition HAS_EAGLE_STA_QLIMIT :: "variant \<Rightarrow> bool" where
  "HAS_EAGLE_STA_QLIMIT v \<longleftrightarrow> v_soc v = AN7583 \<and> WIFI_EAGLE v"

definition HAS_EAGLE_TX_JUMBO :: "variant \<Rightarrow> bool" where
  "HAS_EAGLE_TX_JUMBO v \<longleftrightarrow> HAS_NPU_WIFI_TX v \<and> WIFI_EAGLE v"

definition HAS_EAGLE_SYNC :: "variant \<Rightarrow> bool" where
  "HAS_EAGLE_SYNC v \<longleftrightarrow> (v_soc v = AN7552 \<or> v_soc v = AN7581) \<and> WIFI_EAGLE v"

text \<open>Rx buffer ids, 2 KB each over the WiFi packet buffer (\<open>npu_internal.h\<close>).\<close>

definition BUFID_POOL_ENTRIES :: "variant \<Rightarrow> nat" where
  "BUFID_POOL_ENTRIES v =
     (if WIFI_KITE v then 5600 else if v_soc v = AN7552 then 11200 else 12288)"

text \<open>Hardware mutexes: 32 on AN7581, 16 on the other parts (\<open>npu_regs.h\<close>).\<close>

definition HW_MUTEX_OFF_MASK :: "variant \<Rightarrow> u32" where
  "HW_MUTEX_OFF_MASK v = (if v_soc v = AN7581 then 0x7C else 0x3C)"

named_theorems config \<open>the predicates of npu_config.h\<close>

declare MAX_CORE_NUM_def [config] NPU_TIMER_NUM_def [config] AN758X_def [config]
  WIFI_KITE_def [config] WIFI_EAGLE_def [config] HAS_WIFI_def [config] HAS_DBA_def [config]
  HAS_TUNNEL_def [config] HAS_TR471_def [config] HAS_BME_def [config]
  HAS_NPU_WIFI_TX_def [config] HAS_HOT_TEXT_def [config] HAS_ID_BATCH_def [config]
  HAS_EAGLE_STA_QLIMIT_def [config] HAS_EAGLE_TX_JUMBO_def [config] HAS_EAGLE_SYNC_def [config]
  BUFID_POOL_ENTRIES_def [config] HW_MUTEX_OFF_MASK_def [config]

lemma BUFID_POOL_ENTRIES_bounds: "5600 \<le> BUFID_POOL_ENTRIES v" "BUFID_POOL_ENTRIES v \<le> 12288"
  by (auto simp: config)

lemma sta_qlimit_has_jumbo: "HAS_EAGLE_STA_QLIMIT v \<Longrightarrow> HAS_EAGLE_TX_JUMBO v"
  by (auto simp: config)

end
