(* ===== verification/Mutex.thy ===== *)
theory Mutex
  imports Config
begin

text \<open>
  \<open>npu_mutex.c\<close>: the hardware mutex block. An acquire is one write and one status read;
  the hardware arbitrates between the harts, so callers never spin and ignore the result. The
  register-level functions read the device; the rest of the development uses the book-keeping of
  one hart's mutexes below, where taking a mutex the hart already holds is the bus stall the header
  comment of the file warns of.
\<close>

section \<open>Registers\<close>

definition HW_MUTEX_BASE :: u32 where
  "HW_MUTEX_BASE = 0x1EC03000"

definition HW_MUTEX_HART :: "u32 \<Rightarrow> u32" where
  "HW_MUTEX_HART hart = push_bit 10 hart AND 0xC00"

definition HW_MUTEX_STATUS :: "u32 \<Rightarrow> u32 \<Rightarrow> u32" where
  "HW_MUTEX_STATUS hart off = HW_MUTEX_BASE + HW_MUTEX_HART hart + off"

definition HW_MUTEX_PRI_ACQ :: "u32 \<Rightarrow> u32" where
  "HW_MUTEX_PRI_ACQ off = HW_MUTEX_BASE + 0x080 + off"

definition HW_MUTEX_ACQ :: "u32 \<Rightarrow> u32" where
  "HW_MUTEX_ACQ off = HW_MUTEX_BASE + 0x180 + off"

definition HW_MUTEX_REL :: "u32 \<Rightarrow> u32 \<Rightarrow> u32" where
  "HW_MUTEX_REL hart off = HW_MUTEX_BASE + 0x200 + HW_MUTEX_HART hart + off"

definition HW_MUTEX_HELD :: u32 where
  "HW_MUTEX_HELD = 0x10000"

definition hw_mutex_off :: "variant \<Rightarrow> u32 \<Rightarrow> u32" where
  "hw_mutex_off v idx = (idx * 4) AND HW_MUTEX_OFF_MASK v"

section \<open>Acquire and release\<close>

text \<open>The status word: held, and by this hart.\<close>

definition hw_mutex_owned :: "u32 \<Rightarrow> u32 \<Rightarrow> s32" where
  "hw_mutex_owned sts hart =
     (if sts AND HW_MUTEX_HELD = 0 then - 1
      else if (drop_bit 8 sts AND 0xFF) = hart then 0 else - 1)"

definition hw_mutex_lock ::
  "variant \<Rightarrow> device \<Rightarrow> u32 \<Rightarrow> u32 \<Rightarrow> access list \<Rightarrow> s32 \<times> access list" where
  "hw_mutex_lock v dev hart desc0 tr =
     (let off = hw_mutex_off v desc0;
          tr = reg_wr (HW_MUTEX_ACQ off) (push_bit 8 hart OR 0x40) tr;
          (sts, tr) = reg_rd dev (HW_MUTEX_STATUS hart off) tr
      in (hw_mutex_owned sts hart, tr))"

definition hw_mutex_unlock :: "variant \<Rightarrow> u32 \<Rightarrow> u32 \<Rightarrow> access list \<Rightarrow> s32 \<times> access list" where
  "hw_mutex_unlock v hart desc0 tr =
     (let off = hw_mutex_off v desc0
      in (0, reg_wr (HW_MUTEX_REL hart off) (push_bit 8 hart) tr))"

definition hw_mutex_lock_pri ::
  "variant \<Rightarrow> device \<Rightarrow> u32 \<Rightarrow> u32 \<Rightarrow> u32 \<Rightarrow> access list \<Rightarrow> s32 \<times> access list" where
  "hw_mutex_lock_pri v dev hart desc0 desc1 tr =
     (let off = hw_mutex_off v desc0;
          tr = (if desc1 \<noteq> 0 then reg_wr (HW_MUTEX_PRI_ACQ off) (push_bit 8 hart OR 0x10040) tr
                else reg_wr (HW_MUTEX_ACQ off) (push_bit 8 hart OR 0x40) tr);
          (sts, tr) = reg_rd dev (HW_MUTEX_STATUS hart off) tr
      in (hw_mutex_owned sts hart, tr))"

definition hw_mutex_unlock_pri :: "variant \<Rightarrow> u32 \<Rightarrow> u32 \<Rightarrow> access list \<Rightarrow> s32 \<times> access list" where
  "hw_mutex_unlock_pri v hart desc0 tr = hw_mutex_unlock v hart desc0 tr"

text \<open>The inline pair of \<open>npu_internal.h\<close> for per-packet paths: a fixed id, no result.\<close>

definition hw_mutex_take :: "variant \<Rightarrow> device \<Rightarrow> u32 \<Rightarrow> u32 \<Rightarrow> access list \<Rightarrow> access list" where
  "hw_mutex_take v dev hart idx tr =
     (let off = hw_mutex_off v idx;
          tr = reg_wr (HW_MUTEX_ACQ off) (push_bit 8 hart OR 0x40) tr
      in snd (reg_rd dev (HW_MUTEX_STATUS hart off) tr))"

definition hw_mutex_give :: "variant \<Rightarrow> u32 \<Rightarrow> u32 \<Rightarrow> access list \<Rightarrow> access list" where
  "hw_mutex_give v hart idx tr =
     reg_wr (HW_MUTEX_REL hart (hw_mutex_off v idx)) (push_bit 8 hart) tr"

lemma hw_mutex_take_lock:
  "hw_mutex_take v dev hart idx tr = snd (hw_mutex_lock v dev hart idx tr)"
  by (simp add: hw_mutex_take_def hw_mutex_lock_def Let_def split: prod.split)

lemma hw_mutex_give_unlock:
  "hw_mutex_give v hart idx tr = snd (hw_mutex_unlock v hart idx tr)"
  by (simp add: hw_mutex_give_def hw_mutex_unlock_def Let_def)

text \<open>A plain descriptor (second word zero) takes the plain path.\<close>

lemma hw_mutex_lock_pri_plain: "hw_mutex_lock_pri v dev hart d 0 tr = hw_mutex_lock v dev hart d tr"
  by (simp add: hw_mutex_lock_pri_def hw_mutex_lock_def)

section \<open>Ids and offsets\<close>

lemma times_4_and_low:
  "(idx * 4) AND push_bit 2 (mask n) = push_bit 2 (idx AND mask n)" for idx :: u32
proof -
  have "idx * 4 = push_bit 2 idx" by (simp add: push_bit_eq_mult)
  then show ?thesis by (simp only: push_bit_and)
qed

lemma hw_mutex_off_unat:
  "unat (hw_mutex_off v idx) = 4 * (unat idx mod (if v_soc v = AN7581 then 32 else 16))"
proof (cases "v_soc v = AN7581")
  case True
  have "(0x7C :: u32) = push_bit 2 (mask 5)"
    by (simp add: mask_eq_exp_minus_1 push_bit_eq_mult)
  then have "hw_mutex_off v idx = push_bit 2 (idx AND mask 5)"
    using True times_4_and_low [of idx 5] by (simp only: hw_mutex_off_def HW_MUTEX_OFF_MASK_def simp_thms if_True)
  then show ?thesis using True
    by (simp add: unat_and_mask push_bit_eq_mult unat_word_ariths)
next
  case False
  have "(0x3C :: u32) = push_bit 2 (mask 4)"
    by (simp add: mask_eq_exp_minus_1 push_bit_eq_mult)
  then have "hw_mutex_off v idx = push_bit 2 (idx AND mask 4)"
    using False times_4_and_low [of idx 4] by (simp only: hw_mutex_off_def HW_MUTEX_OFF_MASK_def if_False)
  then show ?thesis using False
    by (simp add: unat_and_mask push_bit_eq_mult unat_word_ariths)
qed

text \<open>Two ids name the same mutex exactly when they agree modulo the number of mutexes.\<close>

lemma hw_mutex_off_eq_iff:
  "hw_mutex_off v a = hw_mutex_off v b \<longleftrightarrow>
     unat a mod (if v_soc v = AN7581 then 32 else 16) =
     unat b mod (if v_soc v = AN7581 then 32 else 16)"
  by (auto simp: word_unat_eq_iff hw_mutex_off_unat)

section \<open>The mutexes one hart holds\<close>

text \<open>
  \<open>held\<close> lists the register offsets of the mutexes the hart holds, \<open>stalled\<close> records
  that it took one it already held.
\<close>

record mutexes =
  held :: "u32 list"
  stalled :: bool

definition mutexes_free :: mutexes where
  "mutexes_free = \<lparr>held = [], stalled = False\<rparr>"

definition mutex_lock :: "variant \<Rightarrow> u32 \<Rightarrow> mutexes \<Rightarrow> mutexes" where
  "mutex_lock v idx m =
     (let off = hw_mutex_off v idx
      in if off \<in> set (held m) then m\<lparr>stalled := True\<rparr> else m\<lparr>held := off # held m\<rparr>)"

definition mutex_unlock :: "variant \<Rightarrow> u32 \<Rightarrow> mutexes \<Rightarrow> mutexes" where
  "mutex_unlock v idx m = m\<lparr>held := remove1 (hw_mutex_off v idx) (held m)\<rparr>"

definition mutex_avail :: "variant \<Rightarrow> u32 \<Rightarrow> mutexes \<Rightarrow> bool" where
  "mutex_avail v idx m \<longleftrightarrow> hw_mutex_off v idx \<notin> set (held m)"

lemma mutex_lock_unlock [simp]:
  "mutex_avail v i m \<Longrightarrow> mutex_unlock v i (mutex_lock v i m) = m"
  by (simp add: mutex_avail_def mutex_lock_def mutex_unlock_def Let_def)

text \<open>Two mutexes of different offsets may be released in either order.\<close>

lemma mutex_lock2_unlock2 [simp]:
  assumes "mutex_avail v i m" "mutex_avail v j m" "hw_mutex_off v i \<noteq> hw_mutex_off v j"
  shows "mutex_unlock v j (mutex_unlock v i (mutex_lock v j (mutex_lock v i m))) = m"
    and "mutex_unlock v i (mutex_unlock v j (mutex_lock v j (mutex_lock v i m))) = m"
  using assms by (auto simp: mutex_avail_def mutex_lock_def mutex_unlock_def Let_def)

lemma mutex_avail_free [simp]: "mutex_avail v i mutexes_free"
  by (simp add: mutex_avail_def mutexes_free_def)

lemma mutex_avail_lock:
  "hw_mutex_off v i \<noteq> hw_mutex_off v j \<Longrightarrow>
   mutex_avail v j (mutex_lock v i m) \<longleftrightarrow> mutex_avail v j m"
  by (auto simp: mutex_avail_def mutex_lock_def Let_def)

end
