(* ===== verification/Contracts.thy ===== *)
theory Contracts
  imports Prelude "HOL-Library.Multiset"
begin

text \<open>
  The interfaces the components rely on, as locales: what a client may assume of the operations
  it calls. Each is interpreted on the model of the code in the theory of the component that
  provides it.
\<close>

section \<open>A keyed block allocator\<close>

text \<open>
  \<open>alloc t s\<close> hands out the block of type \<open>t\<close>; address 0 is a refusal. \<open>lookup\<close> is the
  block a type has, \<open>bsize\<close> its size.
\<close>

locale block_alloc =
  fixes alloc :: "u32 \<Rightarrow> 's \<Rightarrow> 'f + (u32 \<times> 's)"
    and lookup :: "'s \<Rightarrow> u32 \<Rightarrow> u32 option"
    and inv :: "'s \<Rightarrow> bool"
    and bsize :: "u32 \<Rightarrow> nat"
  assumes alloc_total: "inv s \<Longrightarrow> \<exists>r s'. alloc t s = Inr (r, s') \<and> inv s'"
    and alloc_known: "inv s \<Longrightarrow> lookup s t = Some a \<Longrightarrow> alloc t s = Inr (a, s)"
    and alloc_new: "inv s \<Longrightarrow> lookup s t = None \<Longrightarrow> alloc t s = Inr (r, s') \<Longrightarrow>
      r = 0 \<and> lookup s' = lookup s \<or> r \<noteq> 0 \<and> lookup s' = (lookup s)(t \<mapsto> r)"
    and lookup_nonzero: "inv s \<Longrightarrow> lookup s t = Some a \<Longrightarrow> a \<noteq> 0"
    and lookup_disjoint: "inv s \<Longrightarrow> lookup s t = Some a \<Longrightarrow> lookup s t' = Some b \<Longrightarrow> t \<noteq> t' \<Longrightarrow>
      unat a + bsize t \<le> unat b \<or> unat b + bsize t' \<le> unat a"
begin

fun allocs :: "u32 list \<Rightarrow> 's \<Rightarrow> 'f + (u32 list \<times> 's)" where
  "allocs [] s = Inr ([], s)"
| "allocs (t # ts) s =
     (case alloc t s of
        Inl f \<Rightarrow> Inl f
      | Inr (r, s') \<Rightarrow> (case allocs ts s' of
          Inl f \<Rightarrow> Inl f
        | Inr (rs, s'') \<Rightarrow> Inr (r # rs, s'')))"

lemma alloc_result:
  assumes "inv s" "alloc t s = Inr (r, s')"
  shows "inv s' \<and> lookup s \<subseteq>\<^sub>m lookup s' \<and> (r \<noteq> 0 \<longrightarrow> lookup s' t = Some r)"
proof -
  have inv': "inv s'" using alloc_total [OF assms(1), of t] assms(2) by auto
  show ?thesis
  proof (cases "lookup s t")
    case (Some a)
    then have "r = a \<and> s' = s" using alloc_known [OF assms(1) Some] assms(2) by auto
    then show ?thesis using inv' Some by auto
  next
    case None
    then show ?thesis using inv' alloc_new [OF assms(1) None assms(2)]
      by (auto simp: map_le_def)
  qed
qed

text \<open>No fault, and every block handed out is still there at the end.\<close>

lemma allocs_result:
  "inv s \<Longrightarrow>
   \<exists>rs s'. allocs ts s = Inr (rs, s') \<and> inv s' \<and> length rs = length ts \<and>
     lookup s \<subseteq>\<^sub>m lookup s' \<and>
     (\<forall>i<length ts. rs ! i \<noteq> 0 \<longrightarrow> lookup s' (ts ! i) = Some (rs ! i))"
proof (induction ts arbitrary: s)
  case Nil
  then show ?case by simp
next
  case (Cons t ts)
  obtain r s1 where one: "alloc t s = Inr (r, s1)" "inv s1"
    using alloc_total [OF Cons.prems, of t] by auto
  have res: "lookup s \<subseteq>\<^sub>m lookup s1" "r \<noteq> 0 \<longrightarrow> lookup s1 t = Some r"
    using alloc_result [OF Cons.prems one(1)] by auto
  obtain rs s' where rest: "allocs ts s1 = Inr (rs, s')" "inv s'" "length rs = length ts"
      "lookup s1 \<subseteq>\<^sub>m lookup s'"
      "\<forall>i<length ts. rs ! i \<noteq> 0 \<longrightarrow> lookup s' (ts ! i) = Some (rs ! i)"
    using Cons.IH [OF one(2)] by auto
  have "\<forall>i<length (t # ts). (r # rs) ! i \<noteq> 0 \<longrightarrow> lookup s' ((t # ts) ! i) = Some ((r # rs) ! i)"
    using res(2) rest(4,5) by (auto simp: nth_Cons map_le_def dom_def split: nat.split)
  moreover have "lookup s \<subseteq>\<^sub>m lookup s'" using res(1) rest(4) map_le_trans by blast
  ultimately show ?case using one rest by auto
qed

text \<open>Same type, same block; different types, disjoint blocks.\<close>

lemma allocs_same:
  assumes "inv s" "allocs ts s = Inr (rs, s')"
    "i < length ts" "j < length ts" "ts ! i = ts ! j" "rs ! i \<noteq> 0" "rs ! j \<noteq> 0"
  shows "rs ! i = rs ! j"
proof -
  have "\<forall>k<length ts. rs ! k \<noteq> 0 \<longrightarrow> lookup s' (ts ! k) = Some (rs ! k)"
    using allocs_result [OF assms(1), of ts] assms(2) by auto
  then show ?thesis using assms(3-) by (metis option.inject)
qed

lemma allocs_disjoint:
  assumes "inv s" "allocs ts s = Inr (rs, s')"
    "i < length ts" "j < length ts" "ts ! i \<noteq> ts ! j" "rs ! i \<noteq> 0" "rs ! j \<noteq> 0"
  shows "unat (rs ! i) + bsize (ts ! i) \<le> unat (rs ! j) \<or>
         unat (rs ! j) + bsize (ts ! j) \<le> unat (rs ! i)"
proof -
  have "inv s'" "lookup s' (ts ! i) = Some (rs ! i)" "lookup s' (ts ! j) = Some (rs ! j)"
    using allocs_result [OF assms(1), of ts] assms(2-) by auto
  then show ?thesis using lookup_disjoint assms(5) by blast
qed

end

lemma mset_remove_nth:
  "k < length xs \<Longrightarrow> mset (take k xs @ drop (Suc k) xs) + {#xs ! k#} = mset xs"
  by (metis append.assoc append_Cons append_Nil id_take_nth_drop mset_append mset.simps(2)
      union_mset_add_mset_right add.right_neutral add_mset_add_single mset_single_iff
      union_commute union_assoc)

section \<open>A pool of ids handed out in order\<close>

text \<open>
  \<open>content\<close> lists the ids free in the pool, oldest first. An allocation hands out the oldest
  id and leaves at least one behind; a return appends.
\<close>

locale id_pool =
  fixes alloc :: "'s \<Rightarrow> 'i option \<times> 's"
    and free :: "'i \<Rightarrow> 's \<Rightarrow> 's"
    and content :: "'s \<Rightarrow> 'i list"
    and inv :: "'s \<Rightarrow> bool"
    and valid :: "'i \<Rightarrow> bool"
    and cap :: nat
  assumes alloc_last: "inv s \<Longrightarrow> length (content s) \<le> 1 \<Longrightarrow>
      \<exists>s'. alloc s = (None, s') \<and> inv s' \<and> content s' = content s"
    and alloc_next: "inv s \<Longrightarrow> content s = i # is \<Longrightarrow> is \<noteq> [] \<Longrightarrow>
      \<exists>s'. alloc s = (Some i, s') \<and> inv s' \<and> content s' = is"
    and free_last: "inv s \<Longrightarrow> valid i \<Longrightarrow> length (content s) < cap \<Longrightarrow>
      inv (free i s) \<and> content (free i s) = content s @ [i]"
    and content_valid: "inv s \<Longrightarrow> i \<in> set (content s) \<Longrightarrow> valid i"
    and content_length: "inv s \<Longrightarrow> 1 \<le> length (content s) \<and> length (content s) \<le> cap"
begin

text \<open>
  A client run: \<open>None\<close> asks for an id, \<open>Some k\<close> gives back the \<open>k\<close>-th id still out
  (a give with fewer ids out does nothing). The state carries the ids out.
\<close>

fun client :: "nat option list \<Rightarrow> 'i list \<times> 's \<Rightarrow> 'i list \<times> 's" where
  "client [] os = os"
| "client (None # es) (out, s) =
     (case alloc s of (None, s') \<Rightarrow> client es (out, s') | (Some i, s') \<Rightarrow> client es (out @ [i], s'))"
| "client (Some k # es) (out, s) =
     (if k < length out then client es (take k out @ drop (Suc k) out, free (out ! k) s)
      else client es (out, s))"

text \<open>No id is lost, duplicated or made up: free and outstanding ids are the initial pool.\<close>

lemma client_conserves:
  assumes "inv s" "\<forall>i \<in> set out. valid i" "length (content s) + length out \<le> cap"
    "client es (out, s) = (out', s')"
  shows "inv s' \<and> mset (content s') + mset out' = mset (content s) + mset out"
  using assms
proof (induction es arbitrary: out s)
  case Nil
  then show ?case by simp
next
  case (Cons e es)
  show ?case
  proof (cases e)
    case None
    show ?thesis
    proof (cases "length (content s) \<le> 1")
      case True
      obtain s1 where "alloc s = (None, s1)" "inv s1" "content s1 = content s"
        using alloc_last [OF Cons.prems(1) True] by auto
      then show ?thesis using Cons.IH [of s1 out] Cons.prems None by auto
    next
      case False
      then obtain i js where c: "content s = i # js" "js \<noteq> []"
        by (cases "content s") auto
      obtain s1 where s1: "alloc s = (Some i, s1)" "inv s1" "content s1 = js"
        using alloc_next [OF Cons.prems(1) c] by auto
      have "valid i" using content_valid [OF Cons.prems(1)] c by simp
      then show ?thesis using Cons.IH [of s1 "out @ [i]"] Cons.prems None s1 c by auto
    qed
  next
    case (Some k)
    show ?thesis
    proof (cases "k < length out")
      case True
      let ?out = "take k out @ drop (Suc k) out"
      have v: "valid (out ! k)" using Cons.prems(2) True by auto
      have room: "length (content s) < cap" using Cons.prems(3) True by linarith
      have fr: "inv (free (out ! k) s)" "content (free (out ! k) s) = content s @ [out ! k]"
        using free_last [OF Cons.prems(1) v room] by auto
      have "\<forall>i \<in> set ?out. valid i"
        using Cons.prems(2) by (auto dest: in_set_takeD in_set_dropD)
      moreover have "length (content s @ [out ! k]) + length ?out \<le> cap"
        using Cons.prems(3) True by simp
      ultimately show ?thesis
        using Cons.IH [of "free (out ! k) s" ?out] Cons.prems(4) Some True fr
          mset_remove_nth [OF True] by (auto simp: ac_simps)
    next
      case False
      then show ?thesis using Cons.IH [of s out] Cons.prems Some by auto
    qed
  qed
qed

text \<open>So no two outstanding ids are the same, and none of them is also free.\<close>

lemma client_distinct:
  assumes "inv s" "distinct (content s)" "client es ([], s) = (out, s')"
  shows "inv s' \<and> distinct (content s' @ out) \<and> set (content s') \<union> set out = set (content s)"
proof -
  have c: "inv s'" "mset (content s' @ out) = mset (content s)"
    using client_conserves [OF assms(1) _ _ assms(3)] content_length [OF assms(1)] by auto
  then have "distinct (content s' @ out)"
    using assms(2) by (metis mset_eq_imp_distinct_iff)
  moreover have "set (content s' @ out) = set (content s)"
    using c(2) by (metis set_mset_mset)
  ultimately show ?thesis using c(1) by auto
qed

text \<open>The pool answers while two ids are free, and the answers come in the order of the returns.\<close>

lemma takes_in_order:
  assumes "inv s" "n < length (content s)"
  shows "\<exists>s'. client (replicate n None) (out, s) = (out @ take n (content s), s') \<and> inv s' \<and>
    content s' = drop n (content s)"
  using assms
proof (induction n arbitrary: s out)
  case 0
  then show ?case by auto
next
  case (Suc n)
  then obtain i js where c0: "content s = i # js" by (cases "content s") auto
  have c: "content s = i # js" "js \<noteq> []" using c0 Suc.prems(2) by auto
  obtain s1 where s1: "alloc s = (Some i, s1)" "inv s1" "content s1 = js"
    using alloc_next [OF Suc.prems(1) c] by auto
  then show ?case using Suc.IH [of s1 "out @ [i]"] Suc.prems(2) c by auto
qed

end

section \<open>A set of switches\<close>

text \<open>Each key can be turned on and off on its own; the state of a key is what was last done to it.\<close>

locale switches =
  fixes turn :: "bool \<Rightarrow> 'k \<Rightarrow> 's \<Rightarrow> 's"
    and is_on :: "'s \<Rightarrow> 'k \<Rightarrow> bool"
    and key :: "'k \<Rightarrow> bool"
  assumes turn_only: "key k \<Longrightarrow> key j \<Longrightarrow> is_on (turn b k s) j \<longleftrightarrow> (if j = k then b else is_on s j)"
begin

lemma turns:
  "\<forall>(k, b) \<in> set ops. key k \<Longrightarrow> key j \<Longrightarrow>
   is_on (fold (\<lambda>(k, b). turn b k) ops s) j \<longleftrightarrow>
     (case map_of (rev ops) j of Some b \<Rightarrow> b | None \<Rightarrow> is_on s j)"
proof (induction ops arbitrary: s)
  case (Cons op ops)
  then show ?case by (auto simp: turn_only map_add_def split: option.split prod.split)
qed simp

end

end
