(* ===== verification/Sram.thy ===== *)
theory Sram
  imports Util Mutex Contracts
begin

text \<open>
  \<open>npu_sram.c\<close>: the bump allocator over the NPU SRAM, keyed by address type, with the size
  tables of every SoC and WiFi family. The table of allocations is a list of the entries of
  \<open>sram_alloc_table\<close> (four 16-bit slots each: the type, a pad and the address); a store past
  its end is the fault \<open>TableOverrun\<close>.
\<close>

section \<open>State\<close>

record sram_entry =
  ent_type :: u16
  ent_addr :: u32

record sram =
  sram_alloc_offset :: u32
  sram_alloc_count :: u32
  sram_alloc_table :: "sram_entry list"
  sram_buf_mutex :: "u32 \<times> u32"
  sram_mtx :: mutexes
  sram_mem :: mem
  NC_SRAM_ALLOCS :: u32
  NC_SRAM_USED :: u32

datatype sram_fault = TableOverrun

definition SRAM_BASE :: u32 where
  "SRAM_BASE = 0x3E800000"

definition SRAM_SIZE :: "variant \<Rightarrow> u32" where
  "SRAM_SIZE v = (case v_soc v of AN7552 \<Rightarrow> 0x40000 | AN7581 \<Rightarrow> 0x78000 | AN7583 \<Rightarrow> 0x80000)"

definition SRAM_MAX_ENTRIES :: "variant \<Rightarrow> nat" where
  "SRAM_MAX_ENTRIES v = (case v_soc v of AN7552 \<Rightarrow> 50 | _ \<Rightarrow> 100)"

definition SRAM_END :: "variant \<Rightarrow> u32" where
  "SRAM_END v = SRAM_BASE + SRAM_SIZE v - 2"

definition SRAM_ERROR_ADDR :: "variant \<Rightarrow> u32" where
  "SRAM_ERROR_ADDR v = SRAM_BASE + SRAM_SIZE v"

section \<open>Size tables\<close>

text \<open>Types up to 128: the WiFi rings and tables.\<close>

definition sram_size_lo :: "variant \<Rightarrow> (u32 \<times> u32) list" where
  "sram_size_lo v =
     (if WIFI_KITE v then
        (if v_soc v = AN7552 then
          [(1, 0x0C000), (2, 0x02000), (3, 0x01000), (9, 0x002A8),
           (10, 0x002A8), (11, 0x00078), (14, 0x00600), (15, 0x00600),
           (6, 0x00C00), (4, 0x11940), (7, 0x08340), (8, 0x08340),
           (12, 0x00FA0), (13, 0x02710), (19, 0x00400), (20, 0x00400)]
        else
          [(1, 0x0C040), (2, 0x02020), (3, 0x01020), (9, 0x003E8),
           (10, 0x003E8), (11, 0x00078), (14, 0x00600), (15, 0x00600),
           (6, 0x00C04), (4, 0x11940), (7, 0x08340), (8, 0x08340),
           (12, 0x00FA0), (13, 0x02710), (19, 0x00400), (20, 0x00400),
           (21, 0x06400)])
      else if v_soc v = AN7552 then
        [(1, 0x12080), (2, 0x01800), (3, 0x01800), (9, 0x002A8),
         (10, 0x002A8), (11, 0x00078), (14, 0x00600), (15, 0x00600),
         (22, 0x01008), (25, 0x00090), (26, 0x00010), (30, 0x00100),
         (31, 0x02BC0)]
      else if v_soc v = AN7581 then
        [(1, 0x220C0), (2, 0x01818), (3, 0x01818), (9, 0x003E8),
         (10, 0x003E8), (11, 0x00078), (14, 0x00600), (15, 0x00600),
         (22, 0x01008), (25, 0x00040), (26, 0x00010), (30, 0x00100),
         (31, 0x00601), (18, 0x06800), (16, 0x02020), (17, 0x02020),
         (28, 0x06800), (29, 0x01000), (23, 0x00800)]
      else
        [(1, 0x220C0), (2, 0x01818), (3, 0x01818), (9, 0x003E8),
         (10, 0x003E8), (11, 0x00078), (14, 0x00600), (15, 0x00600),
         (22, 0x01008), (25, 0x00040), (26, 0x00010), (30, 0x00100),
         (18, 0x06800), (16, 0x02020), (17, 0x02020), (28, 0x06800),
         (29, 0x01000), (23, 0x00800)])"

text \<open>Types from 129: bridge, TDMA, BME and DBA buffers.\<close>

definition sram_size_hi :: "variant \<Rightarrow> (u32 \<times> u32) list" where
  "sram_size_hi v =
     (if WIFI_KITE v then
        (case v_soc v of
          AN7552 \<Rightarrow>
            [(138, 0x02BC0), (129, 0x10FFF), (132, 0x04000), (134, 0x01000),
             (137, 0x00004)]
        | AN7581 \<Rightarrow>
            [(138, 0x02BC0), (129, 0x13FFF), (132, 0x11000), (133, 0x01080),
             (130, 0x00004), (137, 0x00004)]
        | AN7583 \<Rightarrow>
            [(138, 0x02BC0), (129, 0x13FFF), (132, 0x04000), (133, 0x00080),
             (134, 0x01000), (136, 0x08010), (130, 0x00004), (137, 0x00004)])
      else
        (case v_soc v of
          AN7552 \<Rightarrow>
            [(138, 0x05780), (129, 0x10FFF), (132, 0x04000), (134, 0x01000),
             (137, 0x00004)]
        | AN7581 \<Rightarrow>
            [(138, 0x06000), (129, 0x13FFF), (132, 0x11000), (133, 0x11000),
             (130, 0x00004), (137, 0x00004)]
        | AN7583 \<Rightarrow>
            [(138, 0x06000), (129, 0x13FFF), (132, 0x04000), (133, 0x10000),
             (134, 0x01000), (136, 0x08010), (130, 0x00004), (137, 0x00004)]))"

definition SRAM_DEFAULT_SIZE :: u32 where
  "SRAM_DEFAULT_SIZE = 0x2000"

text \<open>Types missing from the tables above.\<close>

definition sram_size_ext :: "variant \<Rightarrow> (u32 \<times> u32) list" where
  "sram_size_ext v =
     [(12, 0x01000), (13, 0x02800)] @
     (if HAS_EAGLE_STA_QLIMIT v \<and> v_clanker v then [(41, 0x10000)]
      else if HAS_EAGLE_STA_QLIMIT v then [(41, 0x0C800)] else [])"

fun size_lookup :: "(u32 \<times> u32) list \<Rightarrow> u32 \<Rightarrow> u32 option" where
  "size_lookup [] t = None"
| "size_lookup ((a, n) # es) t = (if a = t then Some n else size_lookup es t)"

definition sram_type_size :: "variant \<Rightarrow> u32 \<Rightarrow> u32" where
  "sram_type_size v addr_type =
     (case size_lookup (if addr_type \<le> 128 then sram_size_lo v else sram_size_hi v) addr_type of
        Some n \<Rightarrow> n
      | None \<Rightarrow> (case size_lookup (sram_size_ext v) addr_type of
          Some n \<Rightarrow> n
        | None \<Rightarrow> SRAM_DEFAULT_SIZE))"

section \<open>Operations\<close>

text \<open>The scan for a type that already has a block.\<close>

fun sram_find :: "sram_entry list \<Rightarrow> u16 \<Rightarrow> u32 option" where
  "sram_find [] t = None"
| "sram_find (e # es) t = (if ent_type e = t then Some (ent_addr e) else sram_find es t)"

text \<open>Where the next block would start: the end of the last one, rounded up to 32 bytes.\<close>

definition sram_bump_base :: "u32 \<Rightarrow> u32" where
  "sram_bump_base offset =
     (if offset \<noteq> 0 then
        (let base = SRAM_BASE + offset
         in if base AND 0x1F \<noteq> 0 then (base + 0x1F) AND NOT 0x1F else base)
      else SRAM_BASE)"

definition sram_buf_alloc_impl :: "variant \<Rightarrow> u16 \<Rightarrow> u32 \<Rightarrow> sram \<Rightarrow> sram_fault + (u32 \<times> sram)" where
  "sram_buf_alloc_impl v addr_type size_cls s =
     (let s = s\<lparr>sram_mtx := mutex_lock v (fst (sram_buf_mutex s)) (sram_mtx s)\<rparr>;
          unlocked = (\<lambda>s. s\<lparr>sram_mtx := mutex_unlock v (fst (sram_buf_mutex s)) (sram_mtx s)\<rparr>)
      in if SRAM_SIZE v \<le> sram_alloc_offset s \<and> of_nat (SRAM_MAX_ENTRIES v) \<le> sram_alloc_count s
         then Inr (SRAM_ERROR_ADDR v, unlocked s)
         else if length (sram_alloc_table s) < unat (sram_alloc_count s) then Inl TableOverrun
         else case sram_find (take (unat (sram_alloc_count s)) (sram_alloc_table s)) addr_type of
           Some existing \<Rightarrow> Inr (existing, unlocked s)
         | None \<Rightarrow>
             (let base = sram_bump_base (sram_alloc_offset s)
              in if sram_alloc_offset s \<noteq> 0 \<and> SRAM_END v < base
                 then Inr (SRAM_ERROR_ADDR v, unlocked s)
                 else if length (sram_alloc_table s) \<le> unat (sram_alloc_count s)
                 then Inl TableOverrun
                 else
                   (let s = s\<lparr>sram_alloc_table := (sram_alloc_table s)
                                [unat (sram_alloc_count s) :=
                                   \<lparr>ent_type = addr_type, ent_addr = base\<rparr>]\<rparr>;
                        s = s\<lparr>sram_alloc_offset := base - SRAM_BASE + size_cls\<rparr>;
                        s = s\<lparr>sram_alloc_count := sram_alloc_count s + 1\<rparr>;
                        s = s\<lparr>NC_SRAM_ALLOCS := NC_SRAM_ALLOCS s + 1\<rparr>;
                        s = s\<lparr>NC_SRAM_USED := sram_alloc_offset s\<rparr>
                    in Inr (base, unlocked s))))"

definition sram_buf_alloc :: "variant \<Rightarrow> u32 \<Rightarrow> sram \<Rightarrow> sram_fault + (u32 \<times> sram)" where
  "sram_buf_alloc v addr_type s =
     (if addr_type = 0 \<or> 255 < addr_type then Inr (0, s)
      else case sram_buf_alloc_impl v (c16 addr_type) (sram_type_size v addr_type) s of
        Inl f \<Rightarrow> Inl f
      | Inr (r, s') \<Rightarrow> Inr (if r = SRAM_ERROR_ADDR v then 0 else r, s'))"

definition sram_buf_init :: "variant \<Rightarrow> sram \<Rightarrow> sram" where
  "sram_buf_init v s =
     s\<lparr>sram_mem := snd (npu_memset (sram_mem s) SRAM_BASE 0 (SRAM_SIZE v)),
       sram_alloc_table := replicate (SRAM_MAX_ENTRIES v) \<lparr>ent_type = 0, ent_addr = 0\<rparr>,
       sram_buf_mutex := (18, 0),
       sram_alloc_offset := 0,
       sram_alloc_count := 0\<rparr>"

text \<open>The lines \<open>sram_buf_dump\<close> prints: index, type and address up to the first empty entry.\<close>

fun sram_dump_from :: "nat \<Rightarrow> sram_entry list \<Rightarrow> (nat \<times> u32 \<times> u32) list" where
  "sram_dump_from i [] = []"
| "sram_dump_from i (e # es) =
     (if ent_addr e = 0 then []
      else (i, c32 (ent_type e), ent_addr e) # sram_dump_from (i + 1) es)"

definition sram_buf_dump :: "sram \<Rightarrow> (nat \<times> u32 \<times> u32) list" where
  "sram_buf_dump s = sram_dump_from 0 (sram_alloc_table s)"

text \<open>A boot's worth of calls, stopping at a fault.\<close>

fun sram_allocs :: "variant \<Rightarrow> u32 list \<Rightarrow> sram \<Rightarrow> sram_fault + (u32 list \<times> sram)" where
  "sram_allocs v [] s = Inr ([], s)"
| "sram_allocs v (t # ts) s =
     (case sram_buf_alloc v t s of
        Inl f \<Rightarrow> Inl f
      | Inr (r, s') \<Rightarrow> (case sram_allocs v ts s' of
          Inl f \<Rightarrow> Inl f
        | Inr (rs, s'') \<Rightarrow> Inr (r # rs, s'')))"

section \<open>The size tables\<close>

lemma size_lookup_mem: "size_lookup es t = Some n \<Longrightarrow> (t, n) \<in> set es"
  by (induction es t rule: size_lookup.induct) (auto split: if_splits)

lemma size_lookup_none: "size_lookup es t = None \<longleftrightarrow> t \<notin> fst ` set es"
  by (induction es t rule: size_lookup.induct) auto

definition sram_sizes :: "variant \<Rightarrow> (u32 \<times> u32) list" where
  "sram_sizes v = sram_size_lo v @ sram_size_hi v @ sram_size_ext v"

lemma sram_type_size_cases:
  "sram_type_size v t = SRAM_DEFAULT_SIZE \<or> (t, sram_type_size v t) \<in> set (sram_sizes v)"
  by (auto simp: sram_type_size_def sram_sizes_def split: option.splits if_splits
      dest: size_lookup_mem)

lemma sram_sizes_bounds:
  assumes "(t, n) \<in> set (sram_sizes v)"
  shows "4 \<le> n \<and> n \<le> 0x220C0"
proof -
  have "\<forall>e\<in>set (sram_size_lo v). 4 \<le> snd e \<and> snd e \<le> 0x220C0"
    by (cases "WIFI_KITE v"; cases "v_soc v") (simp_all add: sram_size_lo_def)
  moreover have "\<forall>e\<in>set (sram_size_hi v). 4 \<le> snd e \<and> snd e \<le> 0x220C0"
    by (cases "WIFI_KITE v"; cases "v_soc v") (simp_all add: sram_size_hi_def)
  moreover have "\<forall>e\<in>set (sram_size_ext v). 4 \<le> snd e \<and> snd e \<le> 0x220C0"
    by (simp add: sram_size_ext_def)
  ultimately show ?thesis using assms by (auto simp: sram_sizes_def)
qed

lemma sram_type_size_bounds: "4 \<le> sram_type_size v t" "sram_type_size v t \<le> 0x220C0"
  using sram_type_size_cases [of v t] sram_sizes_bounds [of t "sram_type_size v t" v]
  by (auto simp: SRAM_DEFAULT_SIZE_def)

text \<open>Types whose block is smaller than the default: at most nineteen in any build.\<close>

definition sram_small_types :: "variant \<Rightarrow> u32 list" where
  "sram_small_types v = map fst (filter (\<lambda>e. snd e < 0x2000) (sram_sizes v))"

lemma sram_small_types_complete:
  "sram_type_size v t < SRAM_DEFAULT_SIZE \<Longrightarrow> t \<in> set (sram_small_types v)"
  using sram_type_size_cases [of v t]
  by (force simp: sram_small_types_def SRAM_DEFAULT_SIZE_def image_iff)

lemma sram_small_types_length:
  "length (sram_small_types v) + unat (SRAM_SIZE v) div 0x2000 < SRAM_MAX_ENTRIES v"
proof -
  have ext: "length (filter (\<lambda>e. snd e < 0x2000) (sram_size_ext v)) \<le> 1"
    by (simp add: sram_size_ext_def)
  have lo: "length (filter (\<lambda>e. snd e < 0x2000) (sram_size_lo v)) \<le>
      (if v_soc v = AN7552 then 11 else 14)"
    by (cases "WIFI_KITE v"; cases "v_soc v") (simp_all add: sram_size_lo_def)
  have hi: "length (filter (\<lambda>e. snd e < 0x2000) (sram_size_hi v)) \<le> 4"
    by (cases "WIFI_KITE v"; cases "v_soc v") (simp_all add: sram_size_hi_def)
  have "length (sram_small_types v) \<le> (if v_soc v = AN7552 then 16 else 19)"
    using ext lo hi by (simp add: sram_small_types_def sram_sizes_def split: if_splits)
  then show ?thesis
    by (cases "v_soc v") (simp_all add: SRAM_SIZE_def SRAM_MAX_ENTRIES_def)
qed

section \<open>Layout of the blocks\<close>

definition align32 :: "nat \<Rightarrow> nat" where
  "align32 n = (n + 31) div 32 * 32"

lemma align32_ge: "n \<le> align32 n"
  by (simp add: align32_def)

lemma align32_dvd: "32 dvd align32 n"
  by (simp add: align32_def)

lemma align32_le: "align32 n \<le> n + 31"
  by (simp add: align32_def)

lemma sram_base_mod: "(0x3E800000 + n) mod 32 = n mod (32 :: nat)"
  using mod_add_left_eq [of "0x3E800000" 32 n] by simp

lemma sram_base_div: "(0x3E800000 + n) div 32 * 32 = 0x3E800000 + n div 32 * (32 :: nat)"
  using div_plus_div_distrib_dvd_left [of 32 "0x3E800000" n] by simp

lemma sram_bump_base_align:
  assumes "unat offset < 0x100000"
  shows "unat (sram_bump_base offset) = 0x3E800000 + align32 (unat offset)"
proof (cases "offset = 0")
  case True
  then show ?thesis by (simp add: sram_bump_base_def SRAM_BASE_def align32_def)
next
  case False
  let ?b = "SRAM_BASE + offset"
  have b: "unat ?b = 0x3E800000 + unat offset"
    using assms by (simp add: SRAM_BASE_def unat_add_small)
  have low: "unat (?b AND 0x1F) = unat offset mod 32"
    using unat_and_mask [of ?b 5] b sram_base_mod [of "unat offset"]
    by (simp add: mask_eq_exp_minus_1)
  show ?thesis
  proof (cases "?b AND 0x1F = 0")
    case True
    then have "unat offset mod 32 = 0" using low by simp
    then have "align32 (unat offset) = unat offset" by (auto simp: align32_def)
    then show ?thesis using True False b by (simp add: sram_bump_base_def Let_def)
  next
    case nz: False
    have "unat ?b + unat (0x1F :: u32) < 2 ^ LENGTH(32)"
      using b assms by simp
    then have sum: "unat (?b + 0x1F) = unat ?b + 31"
      by (simp only: unat_add_small) simp
    have "unat ((?b + 0x1F) AND NOT 0x1F) = unat (?b + 0x1F) div 32 * 32"
      using unat_and_not_mask [of "?b + 0x1F" 5] by (simp add: mask_eq_exp_minus_1)
    also have "\<dots> = 0x3E800000 + align32 (unat offset)"
      using sum b sram_base_div [of "unat offset + 31"] by (simp add: align32_def)
    finally show ?thesis using nz False by (simp add: sram_bump_base_def Let_def)
  qed
qed

definition ent_size :: "variant \<Rightarrow> sram_entry \<Rightarrow> nat" where
  "ent_size v e = unat (sram_type_size v (c32 (ent_type e)))"

text \<open>
  The blocks of \<open>es\<close> lie one after the other from offset \<open>p\<close>, each at the next
  multiple of 32 and starting inside the SRAM; \<open>q\<close> is the end of the last.
\<close>

fun sram_layout :: "variant \<Rightarrow> nat \<Rightarrow> sram_entry list \<Rightarrow> nat \<Rightarrow> bool" where
  "sram_layout v p [] q \<longleftrightarrow> p = q"
| "sram_layout v p (e # es) q \<longleftrightarrow>
     unat (ent_addr e) = 0x3E800000 + align32 p \<and> align32 p + 2 \<le> unat (SRAM_SIZE v) \<and>
     sram_layout v (align32 p + ent_size v e) es q"

lemma sram_layout_append:
  "sram_layout v p (es @ es') q \<longleftrightarrow> (\<exists>m. sram_layout v p es m \<and> sram_layout v m es' q)"
  by (induction v p es q rule: sram_layout.induct) auto

lemma ent_size_bounds: "4 \<le> ent_size v e" "ent_size v e \<le> 0x220C0"
  using sram_type_size_bounds [of v "c32 (ent_type e)"]
  by (auto simp: ent_size_def word_le_nat_alt)

lemma sram_layout_mono: "sram_layout v p es q \<Longrightarrow> p \<le> q"
proof (induction v p es q rule: sram_layout.induct)
  case (2 v p e es q)
  then show ?case using align32_ge [of p] by fastforce
qed simp

lemma SRAM_SIZE_bounds: "unat (SRAM_SIZE v) \<le> 0x80000" "0x40000 \<le> unat (SRAM_SIZE v)"
  by (cases "v_soc v"; simp add: SRAM_SIZE_def)+

lemma sram_layout_end: "sram_layout v p es q \<Longrightarrow> p < 0x100000 \<Longrightarrow> q < 0x100000"
proof (induction v p es q rule: sram_layout.induct)
  case (2 v p e es q)
  have "align32 p + ent_size v e < 0x100000"
    using "2.prems"(1) SRAM_SIZE_bounds [of v] ent_size_bounds [of v e] by simp
  then show ?case using "2.IH" "2.prems"(1) by simp
qed simp

text \<open>Every block of the layout lies between its ends, so two blocks never overlap.\<close>

lemma sram_layout_block:
  "sram_layout v p es q \<Longrightarrow> e \<in> set es \<Longrightarrow>
   0x3E800000 + p \<le> unat (ent_addr e) \<and> unat (ent_addr e) + ent_size v e \<le> 0x3E800000 + q \<and>
   32 dvd unat (ent_addr e) \<and> unat (ent_addr e) + 2 \<le> 0x3E800000 + unat (SRAM_SIZE v)"
proof (induction v p es q rule: sram_layout.induct)
  case (2 v p e' es q)
  have m: "align32 p + ent_size v e' \<le> q" using "2.prems"(1) sram_layout_mono by auto
  have d: "32 dvd 0x3E800000 + align32 p"
    using align32_dvd [of p] by (simp add: dvd_add)
  show ?case
    using "2.IH" "2.prems" m d align32_ge [of p] by fastforce
qed simp

lemma sram_layout_disjoint:
  assumes "sram_layout v p (xs @ e # ys) q" "e' \<in> set ys"
  shows "unat (ent_addr e) + ent_size v e \<le> unat (ent_addr e')"
proof -
  obtain m where "sram_layout v m (e # ys) q"
    using assms(1) by (auto simp: sram_layout_append)
  then show ?thesis
    using sram_layout_block [of v "align32 m + ent_size v e" ys q e'] assms(2) by auto
qed

text \<open>At most one block of default size or more per 8 KB of SRAM.\<close>

lemma sram_layout_large:
  "sram_layout v p es q \<Longrightarrow> 0 < length (filter (\<lambda>e. 0x2000 \<le> ent_size v e) es) \<Longrightarrow>
   p + (length (filter (\<lambda>e. 0x2000 \<le> ent_size v e) es) - 1) * 0x2000 + 2 \<le> unat (SRAM_SIZE v)"
proof (induction v p es q rule: sram_layout.induct)
  case (2 v p e es q)
  let ?k = "length (filter (\<lambda>e. 0x2000 \<le> ent_size v e) es)"
  have p: "p + 2 \<le> unat (SRAM_SIZE v)"
    using "2.prems"(1) align32_ge [of p] by simp
  show ?case
  proof (cases "?k = 0")
    case True
    then show ?thesis using p by auto
  next
    case False
    then have ih: "align32 p + ent_size v e + (?k - 1) * 0x2000 + 2 \<le> unat (SRAM_SIZE v)"
      using "2.IH" "2.prems"(1) by simp
    have "?k * 0x2000 = (?k - 1) * 0x2000 + 0x2000"
      using False by (cases ?k) auto
    then show ?thesis using ih align32_ge [of p] False by auto
  qed
qed simp

section \<open>The invariant\<close>

definition sram_entries :: "sram \<Rightarrow> sram_entry list" where
  "sram_entries s = take (unat (sram_alloc_count s)) (sram_alloc_table s)"

definition sram_valid_type :: "u32 \<Rightarrow> bool" where
  "sram_valid_type t \<longleftrightarrow> t \<noteq> 0 \<and> t \<le> 255"

definition sram_inv :: "variant \<Rightarrow> sram \<Rightarrow> bool" where
  "sram_inv v s \<longleftrightarrow>
     length (sram_alloc_table s) = SRAM_MAX_ENTRIES v \<and>
     unat (sram_alloc_count s) \<le> SRAM_MAX_ENTRIES v \<and>
     sram_layout v 0 (sram_entries s) (unat (sram_alloc_offset s)) \<and>
     distinct (map ent_type (sram_entries s)) \<and>
     (\<forall>e\<in>set (sram_entries s). sram_valid_type (c32 (ent_type e)))"

lemma length_filter_split: "length (filter P xs) + length (filter (\<lambda>x. \<not> P x) xs) = length xs"
  by (rule sum_length_filter_compl)

text \<open>
  The number of blocks is bounded by the number of small types plus one block per 8 KB of
  SRAM, which is below the table's length in every build: the allocator never writes past its
  table, although its first test demands both limits to be reached.
\<close>

lemma sram_inv_count:
  assumes "sram_inv v s"
  shows "unat (sram_alloc_count s) < SRAM_MAX_ENTRIES v"
proof -
  let ?es = "sram_entries s"
  let ?big = "\<lambda>e. 0x2000 \<le> ent_size v e"
  have len: "length ?es = unat (sram_alloc_count s)"
    using assms by (auto simp: sram_inv_def sram_entries_def)
  have lay: "sram_layout v 0 ?es (unat (sram_alloc_offset s))" "distinct (map ent_type ?es)"
    using assms by (auto simp: sram_inv_def)
  have "length (filter ?big ?es) \<le> unat (SRAM_SIZE v) div 0x2000"
    using sram_layout_large [OF lay(1)]
    by (cases "length (filter ?big ?es)"; cases "v_soc v") (auto simp: SRAM_SIZE_def)
  moreover have "length (filter (\<lambda>e. \<not> ?big e) ?es) \<le> length (sram_small_types v)"
  proof -
    let ?ts = "map (\<lambda>e. c32 (ent_type e)) (filter (\<lambda>e. \<not> ?big e) ?es)"
    have "inj (\<lambda>t :: u16. c32 t)"
      by (rule injI) (metis unat_c32_c16 word_unat_eq_iff)
    then have "distinct ?ts"
      using lay(2) by (auto simp: distinct_map inj_on_def dest: injD)
    moreover have "set ?ts \<subseteq> set (sram_small_types v)"
      by (auto simp: ent_size_def not_le SRAM_DEFAULT_SIZE_def word_less_nat_alt
          intro!: sram_small_types_complete)
    ultimately have "length ?ts \<le> card (set (sram_small_types v))"
      by (rule distinct_length_le_card) simp
    then show ?thesis using card_length [of "sram_small_types v"] by simp
  qed
  ultimately show ?thesis
    using length_filter_split [of ?big ?es] sram_small_types_length [of v] len by linarith
qed

lemma sram_inv_offset:
  "sram_inv v s \<Longrightarrow> unat (sram_alloc_offset s) < 0x100000"
  by (auto simp: sram_inv_def intro: sram_layout_end)

lemma sram_inv_init: "sram_inv v (sram_buf_init v s)"
  by (auto simp: sram_inv_def sram_buf_init_def sram_entries_def)

section \<open>What an allocation does\<close>

definition sram_lookup :: "sram \<Rightarrow> u32 \<Rightarrow> u32 option" where
  "sram_lookup s t =
     (if sram_valid_type t then sram_find (sram_entries s) (c16 t) else None)"

definition sram_room :: "variant \<Rightarrow> sram \<Rightarrow> bool" where
  "sram_room v s \<longleftrightarrow>
     align32 (unat (sram_alloc_offset s)) + 2 \<le> unat (SRAM_SIZE v)"

lemma SRAM_END_unat: "unat (SRAM_END v) = 0x3E800000 + unat (SRAM_SIZE v) - 2"
  by (cases "v_soc v") (simp_all add: SRAM_END_def SRAM_SIZE_def SRAM_BASE_def)

lemma sram_full_test:
  assumes "sram_inv v s"
  shows "sram_alloc_offset s \<noteq> 0 \<and> SRAM_END v < sram_bump_base (sram_alloc_offset s)
    \<longleftrightarrow> \<not> sram_room v s"
proof (cases "sram_alloc_offset s = 0")
  case True
  then show ?thesis using SRAM_SIZE_bounds [of v] by (simp add: sram_room_def align32_def)
next
  case False
  then show ?thesis
    using sram_bump_base_align [OF sram_inv_offset [OF assms]] SRAM_SIZE_bounds [of v]
    by (auto simp: word_less_nat_alt SRAM_END_unat sram_room_def)
qed

definition sram_push :: "variant \<Rightarrow> u16 \<Rightarrow> u32 \<Rightarrow> sram \<Rightarrow> sram" where
  "sram_push v t n s =
     (let base = sram_bump_base (sram_alloc_offset s)
      in s\<lparr>sram_alloc_table := (sram_alloc_table s)
             [unat (sram_alloc_count s) := \<lparr>ent_type = t, ent_addr = base\<rparr>],
           sram_alloc_offset := base - SRAM_BASE + n,
           sram_alloc_count := sram_alloc_count s + 1,
           NC_SRAM_ALLOCS := NC_SRAM_ALLOCS s + 1,
           NC_SRAM_USED := base - SRAM_BASE + n\<rparr>)"

text \<open>The four outcomes of \<open>sram_buf_alloc_impl\<close> under the invariant, the mutex free.\<close>

lemma sram_buf_alloc_impl_cases:
  assumes "sram_inv v s" "mutex_avail v (fst (sram_buf_mutex s)) (sram_mtx s)"
  shows "sram_buf_alloc_impl v t n s =
    (case sram_find (sram_entries s) t of
       Some a \<Rightarrow> Inr (a, s)
     | None \<Rightarrow> if sram_room v s
         then Inr (sram_bump_base (sram_alloc_offset s), sram_push v t n s)
         else Inr (SRAM_ERROR_ADDR v, s))"
proof -
  have len: "unat (sram_alloc_count s) < SRAM_MAX_ENTRIES v"
    and tab: "length (sram_alloc_table s) = SRAM_MAX_ENTRIES v"
    using assms sram_inv_count by (auto simp: sram_inv_def)
  have "SRAM_MAX_ENTRIES v < 4294967296"
    by (simp add: SRAM_MAX_ENTRIES_def split: soc.split)
  then have "unat (of_nat (SRAM_MAX_ENTRIES v) :: u32) = SRAM_MAX_ENTRIES v"
    by (simp add: unat_of_nat)
  then have "\<not> of_nat (SRAM_MAX_ENTRIES v) \<le> sram_alloc_count s"
    using len by (simp add: word_le_nat_alt)
  then show ?thesis
    using len tab sram_full_test [OF assms(1)] assms(2)
    by (auto simp: sram_buf_alloc_impl_def sram_push_def Let_def sram_entries_def
        split: option.split)
qed

lemma sram_count_Suc:
  assumes "sram_inv v s"
  shows "unat (sram_alloc_count s + 1) = Suc (unat (sram_alloc_count s))"
proof -
  have "unat (sram_alloc_count s) < 100"
    using sram_inv_count [OF assms] by (auto simp: SRAM_MAX_ENTRIES_def split: soc.splits)
  then show ?thesis by (simp add: unat_add_small)
qed

lemma sram_entries_push:
  assumes "sram_inv v s"
  shows "sram_entries (sram_push v t n s) =
    sram_entries s @ [\<lparr>ent_type = t, ent_addr = sram_bump_base (sram_alloc_offset s)\<rparr>]"
proof -
  have "unat (sram_alloc_count s) < length (sram_alloc_table s)"
    using assms sram_inv_count by (auto simp: sram_inv_def)
  then show ?thesis
    using sram_count_Suc [OF assms]
    by (simp add: sram_entries_def sram_push_def Let_def take_Suc_conv_app_nth)
qed

lemma sram_find_none: "sram_find es t = None \<longleftrightarrow> t \<notin> ent_type ` set es"
  by (induction es t rule: sram_find.induct) auto

lemma sram_find_append:
  "sram_find (es @ es') t = (case sram_find es t of None \<Rightarrow> sram_find es' t | Some a \<Rightarrow> Some a)"
  by (induction es t rule: sram_find.induct) auto

lemma sram_find_some:
  "sram_find es t = Some a \<Longrightarrow> \<exists>e\<in>set es. ent_type e = t \<and> ent_addr e = a"
  by (induction es t rule: sram_find.induct) (auto split: if_splits)

lemma sram_inv_push:
  assumes inv: "sram_inv v s" and room: "sram_room v s" and new: "sram_find (sram_entries s) t = None"
    and valid: "sram_valid_type (c32 t)"
  shows "sram_inv v (sram_push v t (sram_type_size v (c32 t)) s)"
proof -
  let ?n = "sram_type_size v (c32 t)"
  let ?b = "sram_bump_base (sram_alloc_offset s)"
  have b: "unat ?b = 0x3E800000 + align32 (unat (sram_alloc_offset s))"
    by (rule sram_bump_base_align [OF sram_inv_offset [OF inv]])
  have "SRAM_BASE \<le> ?b" using b by (simp add: word_le_nat_alt SRAM_BASE_def)
  then have "unat (?b - SRAM_BASE) = align32 (unat (sram_alloc_offset s))"
    using b by (simp add: unat_sub SRAM_BASE_def)
  moreover have "unat ?n \<le> 0x220C0"
    using sram_type_size_bounds [of v "c32 t"] by (simp add: word_le_nat_alt)
  ultimately have off: "unat (?b - SRAM_BASE + ?n) =
      align32 (unat (sram_alloc_offset s)) + unat ?n"
    using room SRAM_SIZE_bounds [of v] by (simp add: unat_add_small sram_room_def)
  have cnt: "unat (sram_alloc_count s + 1) \<le> SRAM_MAX_ENTRIES v"
    using sram_inv_count [OF inv] by (simp add: sram_count_Suc [OF inv])
  have "sram_layout v 0 (sram_entries s @ [\<lparr>ent_type = t, ent_addr = ?b\<rparr>])
      (unat (?b - SRAM_BASE + ?n))"
    using inv b off room by (auto simp: sram_layout_append sram_inv_def ent_size_def sram_room_def)
  then show ?thesis
    using inv cnt new valid sram_entries_push [OF inv, of t ?n]
    by (auto simp: sram_inv_def sram_push_def Let_def sram_find_none)
qed

section \<open>The allocator's contract\<close>

definition sram_ok :: "variant \<Rightarrow> sram \<Rightarrow> bool" where
  "sram_ok v s \<longleftrightarrow> sram_inv v s \<and> mutex_avail v (fst (sram_buf_mutex s)) (sram_mtx s)"

lemma sram_valid_c16: "sram_valid_type t \<Longrightarrow> c32 (c16 t) = t"
  by (simp add: sram_valid_type_def word_unat_eq_iff unat_c16_c32 word_le_nat_alt)

lemma sram_lookup_block:
  assumes "sram_inv v s" "sram_lookup s t = Some a"
  shows "\<exists>e\<in>set (sram_entries s). c32 (ent_type e) = t \<and> ent_addr e = a"
  using assms sram_find_some [of "sram_entries s" "c16 t" a] sram_valid_c16 [of t]
  by (metis option.distinct(1) sram_lookup_def)

lemma sram_lookup_range:
  assumes "sram_inv v s" "sram_lookup s t = Some a"
  shows "0x3E800000 \<le> unat a" "unat a + 2 \<le> 0x3E800000 + unat (SRAM_SIZE v)" "32 dvd unat a"
proof -
  have "sram_layout v 0 (sram_entries s) (unat (sram_alloc_offset s))"
    using assms by (simp add: sram_inv_def)
  then show "0x3E800000 \<le> unat a" "unat a + 2 \<le> 0x3E800000 + unat (SRAM_SIZE v)" "32 dvd unat a"
    using sram_lookup_block [OF assms] sram_layout_block by fastforce+
qed

lemma SRAM_ERROR_ADDR_unat: "unat (SRAM_ERROR_ADDR v) = 0x3E800000 + unat (SRAM_SIZE v)"
  by (cases "v_soc v") (simp_all add: SRAM_ERROR_ADDR_def SRAM_SIZE_def SRAM_BASE_def)

lemma sram_lookup_push:
  assumes "sram_inv v s" "sram_valid_type t" "sram_lookup s t = None"
  shows "sram_lookup (sram_push v (c16 t) n s) =
    (sram_lookup s)(t \<mapsto> sram_bump_base (sram_alloc_offset s))"
proof
  fix t'
  have "c16 t = c16 t' \<longleftrightarrow> t = t'" if "sram_valid_type t'"
    using that assms(2) sram_valid_c16 by metis
  then show "sram_lookup (sram_push v (c16 t) n s) t' =
      ((sram_lookup s)(t \<mapsto> sram_bump_base (sram_alloc_offset s))) t'"
    using assms by (auto simp: sram_lookup_def sram_entries_push [OF assms(1)] sram_find_append
        split: option.splits)
qed

text \<open>Every call of \<open>sram_buf_alloc\<close> with a type in range, on every branch.\<close>

lemma sram_buf_alloc_cases:
  assumes "sram_ok v s" "sram_valid_type t"
  shows "sram_buf_alloc v t s =
    (case sram_lookup s t of
       Some a \<Rightarrow> Inr (a, s)
     | None \<Rightarrow> if sram_room v s
         then Inr (sram_bump_base (sram_alloc_offset s),
                   sram_push v (c16 t) (sram_type_size v t) s)
         else Inr (0, s))"
proof -
  have inv: "sram_inv v s" and mtx: "mutex_avail v (fst (sram_buf_mutex s)) (sram_mtx s)"
    using assms by (auto simp: sram_ok_def)
  have t: "t \<noteq> 0" "\<not> 255 < t" using assms(2) by (auto simp: sram_valid_type_def)
  have lk: "sram_lookup s t = sram_find (sram_entries s) (c16 t)"
    using assms(2) by (simp add: sram_lookup_def)
  have known: "a \<noteq> SRAM_ERROR_ADDR v" if "sram_lookup s t = Some a" for a
    using sram_lookup_range(2) [OF inv that] SRAM_ERROR_ADDR_unat [of v] by auto
  have new: "sram_bump_base (sram_alloc_offset s) \<noteq> SRAM_ERROR_ADDR v" if "sram_room v s"
    using that sram_bump_base_align [OF sram_inv_offset [OF inv]] SRAM_ERROR_ADDR_unat [of v]
    by (auto simp: sram_room_def)
  show ?thesis
    using t known new sram_buf_alloc_impl_cases [OF inv mtx, of "c16 t" "sram_type_size v t"] lk
    by (auto simp: sram_buf_alloc_def split: option.split)
qed

lemma sram_ok_push:
  assumes "sram_ok v s" "sram_valid_type t" "sram_lookup s t = None" "sram_room v s"
  shows "sram_ok v (sram_push v (c16 t) (sram_type_size v t) s)"
proof -
  have "sram_inv v (sram_push v (c16 t) (sram_type_size v (c32 (c16 t))) s)"
    using assms sram_valid_c16 [OF assms(2)]
    by (intro sram_inv_push) (auto simp: sram_ok_def sram_lookup_def)
  then show ?thesis
    using assms sram_valid_c16 [OF assms(2)] by (simp add: sram_ok_def sram_push_def Let_def)
qed

lemma sram_entries_disjoint:
  assumes "sram_inv v s" "e \<in> set (sram_entries s)" "e' \<in> set (sram_entries s)"
    "ent_type e \<noteq> ent_type e'"
  shows "unat (ent_addr e) + ent_size v e \<le> unat (ent_addr e') \<or>
         unat (ent_addr e') + ent_size v e' \<le> unat (ent_addr e)"
proof -
  have lay: "sram_layout v 0 (sram_entries s) (unat (sram_alloc_offset s))"
    using assms(1) by (simp add: sram_inv_def)
  obtain xs ys where es: "sram_entries s = xs @ e # ys" using assms(2) by (auto dest: split_list)
  show ?thesis
  proof (cases "e' \<in> set ys")
    case True
    then show ?thesis using sram_layout_disjoint lay es by metis
  next
    case False
    then have "e' \<in> set xs" using assms(3,4) es by auto
    then obtain as bs where "xs = as @ e' # bs" by (auto dest: split_list)
    then have "sram_layout v 0 (as @ e' # (bs @ e # ys)) (unat (sram_alloc_offset s))"
      using lay es by simp
    then show ?thesis using sram_layout_disjoint [of v 0 as e' "bs @ e # ys"] by auto
  qed
qed

lemma sram_buf_alloc_invalid:
  "\<not> sram_valid_type t \<Longrightarrow> sram_buf_alloc v t s = Inr (0, s) \<and> sram_lookup s t = None"
  by (auto simp: sram_buf_alloc_def sram_valid_type_def sram_lookup_def)

interpretation sram: block_alloc "sram_buf_alloc v" sram_lookup "sram_ok v"
  "\<lambda>t. unat (sram_type_size v t)" for v
proof unfold_locales
  fix s t
  assume ok: "sram_ok v s"
  show "\<exists>r s'. sram_buf_alloc v t s = Inr (r, s') \<and> sram_ok v s'"
    using sram_buf_alloc_cases [OF ok] ok sram_ok_push [OF ok] sram_buf_alloc_invalid
    by (cases "sram_valid_type t"; cases "sram_lookup s t"; cases "sram_room v s") auto
next
  fix s t a
  assume "sram_ok v s" "sram_lookup s t = Some a"
  then show "sram_buf_alloc v t s = Inr (a, s)"
    using sram_buf_alloc_cases [of v s t] sram_buf_alloc_invalid [of t v s] by fastforce
next
  fix s t r s'
  assume ok: "sram_ok v s" "sram_lookup s t = None"
    and "sram_buf_alloc v t s = Inr (r, s')"
  moreover have "unat (sram_bump_base (sram_alloc_offset s)) \<noteq> 0"
    using ok sram_bump_base_align [OF sram_inv_offset] by (force simp: sram_ok_def)
  ultimately show "r = 0 \<and> sram_lookup s' = sram_lookup s \<or>
      r \<noteq> 0 \<and> sram_lookup s' = (sram_lookup s)(t \<mapsto> r)"
    using sram_buf_alloc_cases [OF ok(1), of t] sram_lookup_push [of v s t]
      sram_buf_alloc_invalid [of t v s]
    by (cases "sram_valid_type t") (auto simp: sram_ok_def split: if_splits)
next
  fix s t a
  assume "sram_ok v s" "sram_lookup s t = Some a"
  then show "a \<noteq> 0" using sram_lookup_range(1) [of v s t a] by (auto simp: sram_ok_def)
next
  fix s t a t' b
  assume ok: "sram_ok v s" and a: "sram_lookup s t = Some a" and b: "sram_lookup s t' = Some b"
    and ne: "t \<noteq> t'"
  from ok have inv: "sram_inv v s" by (simp add: sram_ok_def)
  obtain e e' where e: "e \<in> set (sram_entries s)" "c32 (ent_type e) = t" "ent_addr e = a"
    and e': "e' \<in> set (sram_entries s)" "c32 (ent_type e') = t'" "ent_addr e' = b"
    using sram_lookup_block [OF inv a] sram_lookup_block [OF inv b] by auto
  moreover have "ent_type e \<noteq> ent_type e'" using e e' ne by auto
  ultimately show "unat a + unat (sram_type_size v t) \<le> unat b \<or>
        unat b + unat (sram_type_size v t') \<le> unat a"
    using sram_entries_disjoint [OF inv e(1) e'(1)] by (simp add: ent_size_def)
qed

lemma sram_allocs_eq: "sram_allocs v ts s = sram.allocs v ts s"
  by (induction ts arbitrary: s) (auto split: sum.split)

lemma sram_ok_init:
  "mutex_avail v 18 (sram_mtx s) \<Longrightarrow> sram_ok v (sram_buf_init v s)"
  using sram_inv_init [of v s] by (simp add: sram_ok_def sram_buf_init_def)

text \<open>The blocks handed out lie on 32-byte boundaries and start inside the SRAM.\<close>

lemma sram_allocs_range:
  assumes "sram_ok v s" "sram_allocs v ts s = Inr (rs, s')" "i < length ts" "rs ! i \<noteq> 0"
  shows "32 dvd unat (rs ! i)" "0x3E800000 \<le> unat (rs ! i)"
    "unat (rs ! i) + 2 \<le> 0x3E800000 + unat (SRAM_SIZE v)"
proof -
  have "sram_ok v s'" "sram_lookup s' (ts ! i) = Some (rs ! i)"
    using sram.allocs_result [OF assms(1), of ts] assms(2-) by (auto simp: sram_allocs_eq)
  then show "32 dvd unat (rs ! i)" "0x3E800000 \<le> unat (rs ! i)"
    "unat (rs ! i) + 2 \<le> 0x3E800000 + unat (SRAM_SIZE v)"
    using sram_lookup_range [of v s' "ts ! i" "rs ! i"] by (auto simp: sram_ok_def)
qed

section \<open>The SRAM budget\<close>

text \<open>What the types of a table need together, each block rounded up to 32 bytes.\<close>

definition sram_need :: "variant \<Rightarrow> u32 list \<Rightarrow> nat" where
  "sram_need v ts = sum_list (map (\<lambda>t. align32 (unat (sram_type_size v t))) ts)"

lemma align32_add: "32 dvd p \<Longrightarrow> align32 (p + n) = p + align32 n"
  using div_plus_div_distrib_dvd_left [of 32 p "n + 31"]
  by (simp add: align32_def add_mult_distrib add.assoc)

lemma align32_idem: "32 dvd p \<Longrightarrow> align32 p = p"
  using align32_add [of p 0] by (simp add: align32_def)

lemma sram_layout_need:
  "sram_layout v p es q \<Longrightarrow>
   align32 q = align32 p + sram_need v (map (\<lambda>e. c32 (ent_type e)) es)"
proof (induction v p es q rule: sram_layout.induct)
  case (2 v p e es q)
  then show ?case
    using align32_add [OF align32_dvd, of p "ent_size v e"]
    by (simp add: sram_need_def ent_size_def)
qed (simp add: sram_need_def)

lemma sram_used:
  "sram_inv v s \<Longrightarrow> align32 (unat (sram_alloc_offset s)) =
     sram_need v (map (\<lambda>e. c32 (ent_type e)) (sram_entries s))"
  using sram_layout_need [of v 0 "sram_entries s" "unat (sram_alloc_offset s)"]
  by (simp add: sram_inv_def align32_def)

lemma sram_lookup_none:
  "sram_valid_type t \<Longrightarrow>
   sram_lookup s t = None \<longleftrightarrow> t \<notin> set (map (\<lambda>e. c32 (ent_type e)) (sram_entries s))"
  using sram_valid_c16 [of t]
  by (simp add: sram_lookup_def sram_find_none image_iff) (metis c16_c32)

text \<open>
  While every block starts inside the SRAM, each call for a new type succeeds and the blocks are
  packed in call order.
\<close>

lemma sram_need_Cons: "sram_need v (t # ts) = align32 (unat (sram_type_size v t)) + sram_need v ts"
  by (simp add: sram_need_def)

lemma sram_allocs_pack:
  assumes "sram_ok v s" "distinct ts" "\<forall>t\<in>set ts. sram_valid_type t \<and> sram_lookup s t = None"
    and "\<forall>i<length ts. align32 (unat (sram_alloc_offset s)) + sram_need v (take i ts) + 2
           \<le> unat (SRAM_SIZE v)"
  shows "\<exists>rs s'. sram_allocs v ts s = Inr (rs, s') \<and> length rs = length ts \<and>
     (\<forall>i<length ts. unat (rs ! i) =
        0x3E800000 + align32 (unat (sram_alloc_offset s)) + sram_need v (take i ts))"
  using assms
proof (induction ts arbitrary: s)
  case Nil
  then show ?case by simp
next
  case (Cons t ts)
  let ?off = "align32 (unat (sram_alloc_offset s))"
  let ?b = "sram_bump_base (sram_alloc_offset s)"
  let ?s1 = "sram_push v (c16 t) (sram_type_size v t) s"
  have ok: "sram_ok v s" and inv: "sram_inv v s" and t: "sram_valid_type t" "sram_lookup s t = None"
    using Cons.prems by (auto simp: sram_ok_def)
  have room: "sram_room v s"
    using Cons.prems(4) by (auto simp: sram_room_def dest: spec [of _ 0])
  have call: "sram_buf_alloc v t s = Inr (?b, ?s1)"
    using sram_buf_alloc_cases [OF ok t(1)] t(2) room by simp
  have b: "unat ?b = 0x3E800000 + ?off"
    by (rule sram_bump_base_align [OF sram_inv_offset [OF inv]])
  have ok1: "sram_ok v ?s1" by (rule sram_ok_push [OF ok t room])
  have off: "align32 (unat (sram_alloc_offset ?s1)) = ?off + align32 (unat (sram_type_size v t))"
    using sram_used [of v s] sram_used [of v ?s1] inv ok1 sram_valid_c16 [OF t(1)]
    by (simp add: sram_ok_def sram_entries_push sram_need_def)
  have new: "\<forall>t'\<in>set ts. sram_valid_type t' \<and> sram_lookup ?s1 t' = None"
    using Cons.prems(2,3) sram_lookup_push [OF inv t] by auto
  have start: "\<forall>i<length ts. align32 (unat (sram_alloc_offset ?s1)) + sram_need v (take i ts) + 2
      \<le> unat (SRAM_SIZE v)"
    using Cons.prems(4) off by (fastforce simp: sram_need_Cons dest: spec [of _ "Suc i" for i])
  obtain rs s' where rest: "sram_allocs v ts ?s1 = Inr (rs, s')" "length rs = length ts"
      "\<forall>i<length ts. unat (rs ! i) =
        0x3E800000 + align32 (unat (sram_alloc_offset ?s1)) + sram_need v (take i ts)"
    using Cons.IH [OF ok1 _ new start] Cons.prems(2) by auto
  have "\<forall>i<length (t # ts). unat ((?b # rs) ! i) =
      0x3E800000 + ?off + sram_need v (take i (t # ts))"
    using rest(3) off b
    by (auto simp: nth_Cons sram_need_Cons sram_need_def [of v "[]"] split: nat.split)
  then show ?case using call rest by auto
qed

lemma sram_need_take: "sram_need v (take i ts) \<le> sram_need v ts"
  unfolding sram_need_def
  by (metis append_take_drop_id le_add1 map_append sum_list_append)

lemma sram_need_take_nth:
  "i < length ts \<Longrightarrow>
   sram_need v (take i ts) + align32 (unat (sram_type_size v (ts ! i))) \<le> sram_need v ts"
  using sram_need_take [of v "Suc i" ts] by (simp add: take_Suc_conv_app_nth sram_need_def)

lemma sram_need_subset:
  assumes "distinct ts" "set ts \<subseteq> set us" "distinct us"
  shows "sram_need v ts \<le> sram_need v us"
proof -
  have "sram_need v xs = (\<Sum>t\<in>set xs. align32 (unat (sram_type_size v t)))" if "distinct xs" for xs
    using that by (simp add: sram_need_def sum_list_distinct_conv_sum_set)
  then show ?thesis using assms by (simp add: sum_mono2)
qed

lemma sram_init_fresh:
  "align32 (unat (sram_alloc_offset (sram_buf_init v s))) = 0"
  "sram_lookup (sram_buf_init v s) t = None"
  by (auto simp: sram_buf_init_def align32_def sram_lookup_def sram_entries_def)

lemma sram_allocs_fit:
  assumes "mutex_avail v 18 (sram_mtx s)" "distinct ts" "\<forall>t\<in>set ts. sram_valid_type t"
    and fit: "sram_need v ts \<le> unat (SRAM_SIZE v)"
  shows "\<exists>rs s'. sram_allocs v ts (sram_buf_init v s) = Inr (rs, s') \<and> length rs = length ts \<and>
     (\<forall>i<length ts. rs ! i \<noteq> 0 \<and>
        unat (rs ! i) + unat (sram_type_size v (ts ! i)) \<le> 0x3E800000 + unat (SRAM_SIZE v))"
proof -
  let ?s0 = "sram_buf_init v s"
  have block: "sram_need v (take i ts) + unat (sram_type_size v (ts ! i)) \<le> unat (SRAM_SIZE v)"
      "4 \<le> unat (sram_type_size v (ts ! i))" if "i < length ts" for i
    using sram_need_take_nth [OF that, of v] align32_ge [of "unat (sram_type_size v (ts ! i))"]
      sram_type_size_bounds(1) [of v "ts ! i"] fit by (auto simp: word_le_nat_alt)
  have start: "\<forall>i<length ts. align32 (unat (sram_alloc_offset ?s0)) + sram_need v (take i ts) + 2
      \<le> unat (SRAM_SIZE v)"
  proof (intro allI impI)
    fix i assume "i < length ts"
    from block [OF this] show "align32 (unat (sram_alloc_offset ?s0)) + sram_need v (take i ts) + 2
        \<le> unat (SRAM_SIZE v)"
      by (simp add: sram_init_fresh)
  qed
  have new: "\<forall>t\<in>set ts. sram_valid_type t \<and> sram_lookup ?s0 t = None"
    using assms(3) sram_init_fresh by blast
  obtain rs s' where run: "sram_allocs v ts ?s0 = Inr (rs, s')" "length rs = length ts"
      "\<forall>i<length ts. unat (rs ! i) = 0x3E800000 + sram_need v (take i ts)"
    using sram_allocs_pack [OF sram_ok_init [OF assms(1)] assms(2) new start]
    by (auto simp: sram_init_fresh)
  have "rs ! i \<noteq> 0 \<and>
      unat (rs ! i) + unat (sram_type_size v (ts ! i)) \<le> 0x3E800000 + unat (SRAM_SIZE v)"
    if "i < length ts" for i
  proof -
    have "unat (rs ! i) = 0x3E800000 + sram_need v (take i ts)" using run(3) that by blast
    then show ?thesis using block(1) [OF that] by auto
  qed
  then show ?thesis using run by blast
qed

text \<open>The types a build sizes itself: its two tables and the station queue block.\<close>

definition sram_table_types :: "variant \<Rightarrow> u32 list" where
  "sram_table_types v =
     map fst (sram_size_lo v @ sram_size_hi v) @ (if HAS_EAGLE_STA_QLIMIT v then [41] else [])"

lemma sram_table_types_distinct: "distinct (sram_table_types v)"
  by (cases "WIFI_KITE v"; cases "v_soc v"; cases "HAS_EAGLE_STA_QLIMIT v")
     (simp_all add: sram_table_types_def sram_size_lo_def sram_size_hi_def)

lemma sram_table_types_valid: "t \<in> set (sram_table_types v) \<Longrightarrow> sram_valid_type t"
  by (cases "WIFI_KITE v"; cases "v_soc v")
     (auto simp: sram_table_types_def sram_size_lo_def sram_size_hi_def sram_valid_type_def
       split: if_splits)

lemma size_lookup_distinct:
  "distinct (map fst es) \<Longrightarrow> (t, n) \<in> set es \<Longrightarrow> size_lookup es t = Some n"
  by (induction es t rule: size_lookup.induct) (auto simp: image_iff)

lemma sram_lo_types: "distinct (map fst (sram_size_lo v)) \<and> (\<forall>t\<in>fst ` set (sram_size_lo v). t \<le> 128)"
  by (cases "WIFI_KITE v"; cases "v_soc v") (simp_all add: sram_size_lo_def)

lemma sram_hi_types: "distinct (map fst (sram_size_hi v)) \<and> (\<forall>t\<in>fst ` set (sram_size_hi v). \<not> t \<le> 128)"
  by (cases "WIFI_KITE v"; cases "v_soc v") (simp_all add: sram_size_hi_def)

lemma sram_type_size_table:
  assumes "(t, n) \<in> set (sram_size_lo v @ sram_size_hi v)"
  shows "sram_type_size v t = n"
proof -
  consider "(t, n) \<in> set (sram_size_lo v)" | "(t, n) \<in> set (sram_size_hi v)" using assms by auto
  then show ?thesis
    using size_lookup_distinct sram_lo_types [of v] sram_hi_types [of v]
    by cases (force simp: sram_type_size_def)+
qed

lemma sram_need_pairs:
  "set es \<subseteq> set (sram_size_lo v @ sram_size_hi v) \<Longrightarrow>
   sram_need v (map fst es) = sum_list (map (\<lambda>e. align32 (unat (snd e))) es)"
proof (induction es)
  case (Cons e es)
  then have "sram_type_size v (fst e) = snd e"
    by (intro sram_type_size_table) auto
  then show ?case using Cons by (simp add: sram_need_def)
qed (simp add: sram_need_def)

lemma sram_need_table:
  "sram_need v (map fst (sram_size_lo v @ sram_size_hi v)) =
     sum_list (map (\<lambda>e. align32 (unat (snd e))) (sram_size_lo v @ sram_size_hi v))"
  by (rule sram_need_pairs) simp

lemma sram_type_size_41:
  "HAS_EAGLE_STA_QLIMIT v \<Longrightarrow> sram_type_size v 41 = (if v_clanker v then 0x10000 else 0xC800)"
  by (auto simp: sram_type_size_def sram_size_lo_def sram_size_ext_def config)

lemma sram_need_append: "sram_need v (xs @ ys) = sram_need v xs + sram_need v ys"
  by (simp add: sram_need_def)

lemma sram_table_need_eq:
  "sram_need v (sram_table_types v) =
     sum_list (map (\<lambda>e. align32 (unat (snd e))) (sram_size_lo v @ sram_size_hi v)) +
     (if HAS_EAGLE_STA_QLIMIT v then if v_clanker v then 0x10000 else 0xC800 else 0)"
  using sram_need_table [of v] sram_type_size_41 [of v]
  by (auto simp: sram_table_types_def sram_need_append sram_need_Cons sram_need_def [of v "[]"]
      align32_def)

lemma sta_qlimit_family: "HAS_EAGLE_STA_QLIMIT v \<longleftrightarrow> v_soc v = AN7583 \<and> WIFI_EAGLE v"
  by (simp add: HAS_EAGLE_STA_QLIMIT_def)

lemma kite_not_eagle: "WIFI_KITE v \<Longrightarrow> \<not> WIFI_EAGLE v"
  by (auto simp: config)

lemma sram_table_need:
  "sram_need v (sram_table_types v) \<le> unat (SRAM_SIZE v) \<longleftrightarrow>
     \<not> (v_soc v = AN7552 \<and> WIFI_KITE v) \<and> \<not> (HAS_EAGLE_STA_QLIMIT v \<and> v_clanker v)"
  unfolding sram_table_need_eq
  by (cases "WIFI_KITE v"; cases "v_soc v")
     (simp_all add: sram_size_lo_def sram_size_hi_def align32_def SRAM_SIZE_def sta_qlimit_family
       kite_not_eagle)

lemma sram_push_mtx: "sram_mtx (sram_push v t n s) = sram_mtx s"
  by (simp add: sram_push_def Let_def)

lemma sram_allocs_mtx:
  "sram_ok v s \<Longrightarrow> sram_allocs v ts s = Inr (rs, s') \<Longrightarrow> sram_mtx s' = sram_mtx s"
proof (induction ts arbitrary: s rs)
  case (Cons t ts)
  obtain r s1 where one: "sram_buf_alloc v t s = Inr (r, s1)" "sram_ok v s1"
    using sram.alloc_total [OF Cons.prems(1)] by blast
  have "sram_mtx s1 = sram_mtx s"
    using one(1) sram_buf_alloc_cases [OF Cons.prems(1), of t] sram_buf_alloc_invalid [of t v s]
      sram_push_mtx by (cases "sram_valid_type t") (auto split: option.splits if_splits)
  then show ?case using Cons one by (auto split: sum.splits)
qed simp

section \<open>Properties\<close>


definition sram_reset :: sram where
  "sram_reset = \<lparr>sram_alloc_offset = 0, sram_alloc_count = 0, sram_alloc_table = [],
     sram_buf_mutex = (0, 0), sram_mtx = mutexes_free, sram_mem = (\<lambda>_. 0),
     NC_SRAM_ALLOCS = 0, NC_SRAM_USED = 0\<rparr>"

definition an7583_mt7993 :: variant where
  "an7583_mt7993 = \<lparr>v_soc = AN7583, v_wifi = MT7993, v_clanker = False\<rparr>"


text \<open>
  C2. The SRAM budget. In every build but AN7552 kite and AN7583 eagle with
  \<open>CLANKER=1\<close>, any selection of the types of the size tables, asked for in any order, is served
  in full: every call succeeds and every block ends inside the SRAM.
\<close>

theorem sram_tables_fit:
  assumes "mutex_avail v 18 (sram_mtx s)"
    and "\<not> (v_soc v = AN7552 \<and> WIFI_KITE v)" "\<not> (HAS_EAGLE_STA_QLIMIT v \<and> v_clanker v)"
    and "distinct ts" "set ts \<subseteq> set (sram_table_types v)"
  shows "\<exists>rs s'. sram_allocs v ts (sram_buf_init v s) = Inr (rs, s') \<and> length rs = length ts \<and>
     (\<forall>i<length ts. rs ! i \<noteq> 0 \<and>
        unat (rs ! i) + unat (sram_type_size v (ts ! i)) \<le> 0x3E800000 + unat (SRAM_SIZE v))"
proof (rule sram_allocs_fit)
  show "\<forall>t\<in>set ts. sram_valid_type t" using assms(5) sram_table_types_valid by blast
  show "sram_need v ts \<le> unat (SRAM_SIZE v)"
    using sram_need_subset [OF assms(4,5) sram_table_types_distinct] sram_table_need [of v] assms(2,3)
    by (meson order_trans)
qed (use assms in auto)

theorem sram_tables_fit_witness:
  "\<exists>rs s'. sram_allocs an7583_mt7993 [41, 133, 129] (sram_buf_init an7583_mt7993 sram_reset) =
     Inr (rs, s') \<and> length rs = 3 \<and> rs ! 2 \<noteq> 0"
  using sram_tables_fit [of an7583_mt7993 sram_reset "[41, 133, 129]"]
  by (force simp: sram_reset_def an7583_mt7993_def config sram_table_types_def sram_size_hi_def)

text \<open>The types some call site of an AN7583 eagle image asks for, the station queue block last.\<close>

definition eagle_boot_types :: "u32 list" where
  "eagle_boot_types =
     [138, 18, 28, 29, 134, 132, 133, 1, 11, 10, 9, 30, 25, 22, 26, 2, 14, 3, 15, 16, 17,
      136, 129, 23, 41]"

definition eagle_boot_sizes :: "(u32 \<times> u32) list" where
  "eagle_boot_sizes =
     [(138, 0x6000), (18, 0x6800), (28, 0x6800), (29, 0x1000), (134, 0x1000), (132, 0x4000),
      (133, 0x10000), (1, 0x220C0), (11, 0x78), (10, 0x3E8), (9, 0x3E8), (30, 0x100), (25, 0x40),
      (22, 0x1008), (26, 0x10), (2, 0x1818), (14, 0x600), (3, 0x1818), (15, 0x600), (16, 0x2020),
      (17, 0x2020), (136, 0x8010), (129, 0x13FFF), (23, 0x800)]"

lemma eagle_boot_need:
  assumes "HAS_EAGLE_STA_QLIMIT v"
  shows "sram_need v (butlast eagle_boot_types) = 0x70F60"
proof -
  have "\<not> WIFI_KITE v" using assms by (auto simp: config)
  then have "set eagle_boot_sizes \<subseteq> set (sram_size_lo v @ sram_size_hi v)"
    using assms
    by (simp add: sta_qlimit_family sram_size_lo_def sram_size_hi_def eagle_boot_sizes_def)
  from sram_need_pairs [OF this]
  have "sram_need v (map fst eagle_boot_sizes) = 0x70F60"
    by (simp add: eagle_boot_sizes_def align32_def)
  moreover have "map fst eagle_boot_sizes = butlast eagle_boot_types"
    by (simp add: eagle_boot_sizes_def eagle_boot_types_def)
  ultimately show ?thesis by simp
qed

text \<open>
  C3. The \<open>CLANKER=1\<close> build overruns the SRAM. With the station queue block at its 64 KB, the
  blocks an AN7583 eagle image asks for no longer fit: the last call still reports success, and the
  block it returns ends 3936 bytes past the end of the SRAM.
\<close>

theorem sram_clanker_overrun:
  assumes "HAS_EAGLE_STA_QLIMIT v" "v_clanker v" "mutex_avail v 18 (sram_mtx s)"
  shows "\<exists>rs s'. sram_allocs v eagle_boot_types (sram_buf_init v s) = Inr (rs, s') \<and>
     rs ! 24 \<noteq> 0 \<and> eagle_boot_types ! 24 = 41 \<and>
     unat (rs ! 24) + unat (sram_type_size v 41) = 0x3E800000 + unat (SRAM_SIZE v) + 3936"
proof -
  let ?ts = "eagle_boot_types"
  have need: "sram_need v (take i ?ts) \<le> 0x70F60" if "i < length ?ts" for i
  proof -
    have "take i ?ts = take i (butlast ?ts)" using that by (simp add: take_butlast)
    then show ?thesis using sram_need_take [of v i "butlast ?ts"] eagle_boot_need [OF assms(1)]
      by simp
  qed
  have size: "unat (SRAM_SIZE v) = 0x80000"
    using assms(1) by (simp add: sta_qlimit_family SRAM_SIZE_def)
  have "\<forall>t\<in>set ?ts. sram_valid_type t \<and> sram_lookup (sram_buf_init v s) t = None"
    by (simp add: sram_init_fresh) (simp add: eagle_boot_types_def sram_valid_type_def)
  moreover have "distinct ?ts" by (simp add: eagle_boot_types_def)
  ultimately obtain rs s' where run: "sram_allocs v ?ts (sram_buf_init v s) = Inr (rs, s')"
      "\<forall>i<length ?ts. unat (rs ! i) = 0x3E800000 + sram_need v (take i ?ts)"
    using sram_allocs_pack [OF sram_ok_init [OF assms(3)], of ?ts] need size
    by (fastforce simp: sram_init_fresh)
  have "take 24 ?ts = butlast ?ts" "24 < length ?ts" "?ts ! 24 = 41"
    by (simp_all add: eagle_boot_types_def)
  then have "unat (rs ! 24) = 0x3E800000 + 0x70F60"
    using run(2) eagle_boot_need [OF assms(1)] by metis
  moreover from this have "rs ! 24 \<noteq> 0" by auto
  ultimately show ?thesis
    using run(1) \<open>?ts ! 24 = 41\<close> size sram_type_size_41 [OF assms(1)] assms(2) by simp
qed

theorem sram_clanker_overrun_witness:
  "\<exists>rs s'. sram_allocs (an7583_mt7993\<lparr>v_clanker := True\<rparr>) eagle_boot_types
       (sram_buf_init (an7583_mt7993\<lparr>v_clanker := True\<rparr>) sram_reset) = Inr (rs, s') \<and>
     rs ! 24 \<noteq> 0"
  using sram_clanker_overrun [of "an7583_mt7993\<lparr>v_clanker := True\<rparr>" sram_reset]
  by (force simp: sram_reset_def an7583_mt7993_def config)

end
