(* ===== verification/Bufid.thy ===== *)
theory Bufid
  imports Sram
begin

text \<open>
  \<open>npu_wifi_bufid.c\<close>: the rx buffer id ring and the tx token ring, their batch forms, the
  stack of jumbo tokens and the rebuild of the token ring. Each ring is an array of 16-bit ids with
  a read and a write index; the index pair never meets the "empty" state of equal indices, which
  the code reads as full, because an allocation refuses the last id.
\<close>

section \<open>State\<close>

record id_ring =
  slots :: "u16 list"
  ridx :: u16
  widx :: u16

record bufids =
  bufid_pool :: id_ring
  rx_bufid_alloc_mutex :: u32
  rx_bufid_free_mutex :: u32
  rx_bufid_alloc_count :: u32
  tx_ring :: id_ring
  tx_token_alloc_mutex :: u32
  tx_token_free_mutex :: u32
  bufid_deq_count :: u32
  bufid_enq_count :: u32
  tx_buf_state :: "u16 list"
  tdma_rx_ids :: "u16 list"
  tx_jumbo_stack :: "u16 list"
  tx_jumbo_top :: u32
  buf_mgr_alloc_widx :: u16
  buf_mgr_free_widx :: u16
  buf_mgr_alloc_cfg :: u32
  buf_mgr_free_cfg :: u32
  counter_base_2g :: u32
  counter_base_5g :: u32
  counter_base_tri :: u32
  wcid_counter_base_2g :: u32
  wcid_counter_base_5g :: u32
  cnt_block :: "u32 \<Rightarrow> u32 \<Rightarrow> u32"
  wifi_debug_flags :: u8
  id_mtx :: mutexes

definition BUFID_POOL_LAST :: "variant \<Rightarrow> nat" where
  "BUFID_POOL_LAST v = BUFID_POOL_ENTRIES v - 1"

definition TX_FREE_RING_ENTRIES :: nat where
  "TX_FREE_RING_ENTRIES = 13312"

definition TX_FREE_RING_LAST :: nat where
  "TX_FREE_RING_LAST = TX_FREE_RING_ENTRIES - 1"

definition TDMA_RX_ID_ENTRIES :: nat where
  "TDMA_RX_ID_ENTRIES = 2048"

definition TX_BUF_STATE_IN_RX :: u16 where
  "TX_BUF_STATE_IN_RX = 3"

definition TX_JUMBO_PAIRS :: nat where
  "TX_JUMBO_PAIRS = 128"

definition TX_JUMBO_FIRST :: nat where
  "TX_JUMBO_FIRST = 13312 - 2 * TX_JUMBO_PAIRS"

definition TX_TOKEN_IDS :: "variant \<Rightarrow> nat" where
  "TX_TOKEN_IDS v = (if HAS_EAGLE_TX_JUMBO v then TX_JUMBO_FIRST else TX_FREE_RING_ENTRIES)"

lemmas bufid_consts = BUFID_POOL_LAST_def TX_FREE_RING_ENTRIES_def TX_FREE_RING_LAST_def
  TDMA_RX_ID_ENTRIES_def TX_JUMBO_PAIRS_def TX_JUMBO_FIRST_def TX_TOKEN_IDS_def

section \<open>Single ids\<close>

text \<open>
  The counter blocks are SRAM blocks of types 9 (5G), 10 (2G), 11 (common), 19 and 20 (per wcid);
  \<open>cnt_block t off\<close> is the word at byte offset \<open>off\<close> of block \<open>t\<close>. The common block
  counts only while bit 2 of the debug flags is set.
\<close>

definition block_add :: "u32 \<Rightarrow> u32 \<Rightarrow> u32 \<Rightarrow> bufids \<Rightarrow> bufids" where
  "block_add t off n s =
     s\<lparr>cnt_block := (cnt_block s)(t := (cnt_block s t)(off := cnt_block s t off + n))\<rparr>"

definition cnt_tri_add :: "u32 \<Rightarrow> u32 \<Rightarrow> bufids \<Rightarrow> bufids" where
  "cnt_tri_add off n s =
     (if wifi_debug_flags s AND 4 \<noteq> 0 \<and> counter_base_tri s \<noteq> 0
      then block_add 11 off n s else s)"

text \<open>\<open>wifi_cnt_add\<close>: one more on a counter of the band's block, when the block exists.\<close>

definition wifi_cnt_add :: "u32 \<Rightarrow> u32 \<Rightarrow> bufids \<Rightarrow> bufids" where
  "wifi_cnt_add band off s =
     (let (t, base) = (if band = 1 then (9, counter_base_5g s)
                       else if band \<noteq> 0 then (11, counter_base_tri s)
                       else (10, counter_base_2g s))
      in if base \<noteq> 0 then block_add t off 1 s else s)"

definition id_lock :: "variant \<Rightarrow> u32 \<Rightarrow> bufids \<Rightarrow> bufids" where
  "id_lock v i s = s\<lparr>id_mtx := mutex_lock v i (id_mtx s)\<rparr>"

definition id_unlock :: "variant \<Rightarrow> u32 \<Rightarrow> bufids \<Rightarrow> bufids" where
  "id_unlock v i s = s\<lparr>id_mtx := mutex_unlock v i (id_mtx s)\<rparr>"

text \<open>The mutex of an rx id return: id 13 inline in the hot eagle build, else the descriptor.\<close>

definition rx_free_mutex :: "variant \<Rightarrow> bufids \<Rightarrow> u32" where
  "rx_free_mutex v s = (if HAS_HOT_TEXT v \<and> WIFI_EAGLE v then 13 else rx_bufid_free_mutex s)"

definition idx_next :: "nat \<Rightarrow> u16 \<Rightarrow> u16" where
  "idx_next l i = (if i = of_nat l then 0 else i + 1)"

definition buf_id_return :: "variant \<Rightarrow> u16 \<Rightarrow> bufids \<Rightarrow> bufids" where
  "buf_id_return v buf_id s =
     (let s = id_lock v (rx_free_mutex v s) s;
          w = widx (bufid_pool s);
          s = s\<lparr>bufid_pool := (bufid_pool s)\<lparr>slots := (slots (bufid_pool s))[unat w := buf_id]\<rparr>\<rparr>;
          s = cnt_tri_add 0x18 1 s;
          s = s\<lparr>bufid_pool := (bufid_pool s)\<lparr>widx := idx_next (BUFID_POOL_LAST v) w\<rparr>\<rparr>
      in id_unlock v (rx_free_mutex v s) s)"

definition buf_id_alloc_ring :: "variant \<Rightarrow> bufids \<Rightarrow> s32 \<times> bufids" where
  "buf_id_alloc_ring v s =
     (let s = id_lock v (rx_bufid_alloc_mutex s) s;
          next = idx_next (BUFID_POOL_LAST v) (ridx (bufid_pool s))
      in if widx (bufid_pool s) = next then
           (let s = cnt_tri_add 0x20 1 s in (- 1, id_unlock v (rx_bufid_alloc_mutex s) s))
         else
           (let s = s\<lparr>rx_bufid_alloc_count := rx_bufid_alloc_count s + 1\<rparr>;
                s = cnt_tri_add 0x1C 1 s;
                idn = scast (slots (bufid_pool s) ! unat (ridx (bufid_pool s)));
                s = s\<lparr>bufid_pool := (bufid_pool s)\<lparr>ridx := next\<rparr>\<rparr>
            in (idn, id_unlock v (rx_bufid_alloc_mutex s) s)))"

definition tx_token_free :: "variant \<Rightarrow> u16 \<Rightarrow> bufids \<Rightarrow> bufids" where
  "tx_token_free v token s =
     (let s = id_lock v (tx_token_free_mutex s) s;
          s = s\<lparr>tx_ring := (tx_ring s)\<lparr>slots :=
                  (slots (tx_ring s))[unat (widx (tx_ring s)) := token]\<rparr>\<rparr>;
          s = s\<lparr>bufid_enq_count := bufid_enq_count s + 1\<rparr>;
          s = cnt_tri_add 0x4C 1 s;
          s = s\<lparr>tx_ring := (tx_ring s)\<lparr>widx := idx_next TX_FREE_RING_LAST (widx (tx_ring s))\<rparr>\<rparr>
      in id_unlock v (tx_token_free_mutex s) s)"

definition tx_token_alloc :: "variant \<Rightarrow> bufids \<Rightarrow> s32 \<times> bufids" where
  "tx_token_alloc v s =
     (let s = id_lock v (tx_token_alloc_mutex s) s;
          next = idx_next TX_FREE_RING_LAST (ridx (tx_ring s))
      in if widx (tx_ring s) = next then
           (let s = cnt_tri_add 0x54 1 s in (- 1, id_unlock v (tx_token_alloc_mutex s) s))
         else
           (let s = s\<lparr>bufid_deq_count := bufid_deq_count s + 1\<rparr>;
                s = cnt_tri_add 0x50 1 s;
                idn = scast (slots (tx_ring s) ! unat (ridx (tx_ring s)));
                s = s\<lparr>tx_ring := (tx_ring s)\<lparr>ridx := next\<rparr>\<rparr>
            in (idn, id_unlock v (tx_token_alloc_mutex s) s)))"

section \<open>Batches\<close>

text \<open>The copy loops, over 32-bit copies of the indices.\<close>

definition idx32_next :: "nat \<Rightarrow> u32 \<Rightarrow> u32" where
  "idx32_next l r = (if r = of_nat l then 0 else r + 1)"

fun take_loop :: "u16 list \<Rightarrow> nat \<Rightarrow> u32 \<Rightarrow> u32 \<Rightarrow> nat \<Rightarrow> u16 list \<times> u32" where
  "take_loop xs l w r 0 = ([], r)"
| "take_loop xs l w r (Suc n) =
     (let next = idx32_next l r
      in if next = w then ([], r)
         else (let (ids, r') = take_loop xs l w next n in (xs ! unat r # ids, r')))"

fun put_loop :: "u16 list \<Rightarrow> nat \<Rightarrow> u32 \<Rightarrow> u16 list \<Rightarrow> u16 list \<times> u32" where
  "put_loop xs l w [] = (xs, w)"
| "put_loop xs l w (i # ids) = put_loop (xs[unat w := i]) l (idx32_next l w) ids"

text \<open>
  \<open>id_ring_take\<close> and \<open>id_ring_put\<close> work on a ring and a count given by pointers; here
  by a selector and a setter of each. The put's count is optional, as its pointer may be NULL.
\<close>

definition id_ring_take ::
  "variant \<Rightarrow> u32 \<Rightarrow> (bufids \<Rightarrow> id_ring) \<Rightarrow> (id_ring \<Rightarrow> bufids \<Rightarrow> bufids) \<Rightarrow> nat \<Rightarrow>
   (bufids \<Rightarrow> u32) \<Rightarrow> (u32 \<Rightarrow> bufids \<Rightarrow> bufids) \<Rightarrow> u32 \<Rightarrow> nat \<Rightarrow> bufids \<Rightarrow> u16 list \<times> bufids" where
  "id_ring_take v mutex ring set_ring l cnt set_cnt ok n s =
     (let s = id_lock v mutex s;
          (ids, r) = take_loop (slots (ring s)) l (c32 (widx (ring s))) (c32 (ridx (ring s))) n;
          s = set_ring ((ring s)\<lparr>ridx := c16 r\<rparr>) s;
          s = set_cnt (cnt s + of_nat (length ids)) s;
          s = cnt_tri_add ok (of_nat (length ids)) s;
          s = (if length ids < n then cnt_tri_add (ok + 4) 1 s else s)
      in (ids, id_unlock v mutex s))"

definition id_ring_put ::
  "variant \<Rightarrow> u32 \<Rightarrow> (bufids \<Rightarrow> id_ring) \<Rightarrow> (id_ring \<Rightarrow> bufids \<Rightarrow> bufids) \<Rightarrow> nat \<Rightarrow>
   (u32 \<Rightarrow> bufids \<Rightarrow> bufids) option \<Rightarrow> u32 \<Rightarrow> u16 list \<Rightarrow> bufids \<Rightarrow> bufids" where
  "id_ring_put v mutex ring set_ring l count_add cnt ids s =
     (let s = id_lock v mutex s;
          (xs, w) = put_loop (slots (ring s)) l (c32 (widx (ring s))) ids;
          s = set_ring ((ring s)\<lparr>slots := xs\<rparr>) s;
          s = (case count_add of None \<Rightarrow> s | Some add \<Rightarrow> add (of_nat (length ids)) s);
          s = cnt_tri_add cnt (of_nat (length ids)) s;
          s = set_ring ((ring s)\<lparr>widx := c16 w\<rparr>) s
      in id_unlock v mutex s)"

definition buf_id_alloc_ring_n :: "variant \<Rightarrow> nat \<Rightarrow> bufids \<Rightarrow> u16 list \<times> bufids" where
  "buf_id_alloc_ring_n v n s =
     id_ring_take v 12 bufid_pool (\<lambda>q s. s\<lparr>bufid_pool := q\<rparr>) (BUFID_POOL_LAST v)
       rx_bufid_alloc_count (\<lambda>c s. s\<lparr>rx_bufid_alloc_count := c\<rparr>) 0x1C n s"

definition buf_id_return_n :: "variant \<Rightarrow> u16 list \<Rightarrow> bufids \<Rightarrow> bufids" where
  "buf_id_return_n v ids s =
     id_ring_put v 13 bufid_pool (\<lambda>q s. s\<lparr>bufid_pool := q\<rparr>) (BUFID_POOL_LAST v) None 0x18 ids s"

definition tx_token_alloc_n :: "variant \<Rightarrow> nat \<Rightarrow> bufids \<Rightarrow> u16 list \<times> bufids" where
  "tx_token_alloc_n v n s =
     id_ring_take v 3 tx_ring (\<lambda>q s. s\<lparr>tx_ring := q\<rparr>) TX_FREE_RING_LAST
       bufid_deq_count (\<lambda>c s. s\<lparr>bufid_deq_count := c\<rparr>) 0x50 n s"

definition tx_token_free_n :: "variant \<Rightarrow> u16 list \<Rightarrow> bufids \<Rightarrow> bufids" where
  "tx_token_free_n v ids s =
     id_ring_put v 4 tx_ring (\<lambda>q s. s\<lparr>tx_ring := q\<rparr>) TX_FREE_RING_LAST
       (Some (\<lambda>n s. s\<lparr>bufid_enq_count := bufid_enq_count s + n\<rparr>)) 0x4C ids s"

section \<open>Jumbo tokens\<close>

definition tx_jumbo_reset :: "bufids \<Rightarrow> bufids" where
  "tx_jumbo_reset s =
     s\<lparr>tx_jumbo_stack := map (\<lambda>i. of_nat (TX_JUMBO_FIRST + 2 * i)) [0..<TX_JUMBO_PAIRS],
       tx_jumbo_top := of_nat TX_JUMBO_PAIRS\<rparr>"

definition tx_jumbo_alloc :: "bufids \<Rightarrow> s32 \<times> bufids" where
  "tx_jumbo_alloc s =
     (let top = tx_jumbo_top s
      in if top = 0 then (- 1, s)
         else (let top = top - 1 in (c32 (tx_jumbo_stack s ! unat top), s\<lparr>tx_jumbo_top := top\<rparr>)))"

definition tx_jumbo_free :: "u16 \<Rightarrow> bufids \<Rightarrow> bufids" where
  "tx_jumbo_free token s =
     (let top = tx_jumbo_top s
      in if top < of_nat TX_JUMBO_PAIRS
         then s\<lparr>tx_jumbo_stack := (tx_jumbo_stack s)[unat top := token], tx_jumbo_top := top + 1\<rparr>
         else s)"

section \<open>Reset and initialisation\<close>

definition rx_bufid_pool_reset :: "variant \<Rightarrow> bufids \<Rightarrow> bufids" where
  "rx_bufid_pool_reset v s =
     (let s = id_lock v (rx_bufid_free_mutex s) s;
          s = id_lock v (rx_bufid_alloc_mutex s) s;
          s = s\<lparr>bufid_pool := \<lparr>slots = map of_nat [0..<BUFID_POOL_ENTRIES v], ridx = 0, widx = 0\<rparr>\<rparr>;
          s = id_unlock v (rx_bufid_free_mutex s) s
      in id_unlock v (rx_bufid_alloc_mutex s) s)"

text \<open>
  \<open>bufid_pool_init\<close>, with the SRAM blocks it asks for. The token ring has
  \<open>TX_FREE_RING_ENTRIES\<close> slots in zeroed SRAM; only the first \<open>TX_TOKEN_IDS\<close> are filled.
\<close>

definition bufid_fields_init :: "variant \<Rightarrow> bufids \<Rightarrow> bufids" where
  "bufid_fields_init v s =
     s\<lparr>rx_bufid_alloc_mutex := 12, rx_bufid_free_mutex := 13,
       tx_token_alloc_mutex := 3, tx_token_free_mutex := 4,
       bufid_pool := \<lparr>slots = map of_nat [0..<BUFID_POOL_ENTRIES v], ridx = 0, widx = 0\<rparr>\<rparr>"

definition tx_tokens_init :: "variant \<Rightarrow> bufids \<Rightarrow> bufids" where
  "tx_tokens_init v s =
     (let s = s\<lparr>tx_ring := \<lparr>slots = map of_nat [0..<TX_TOKEN_IDS v] @
                       replicate (TX_FREE_RING_ENTRIES - TX_TOKEN_IDS v) 0,
                     ridx = 0,
                     widx = (if TX_TOKEN_IDS v = TX_FREE_RING_ENTRIES then 0
                             else of_nat (TX_TOKEN_IDS v))\<rparr>,
                tx_buf_state := replicate TX_FREE_RING_ENTRIES 0\<rparr>
      in if HAS_EAGLE_TX_JUMBO v then tx_jumbo_reset s else s)"

definition bufid_pool_init :: "variant \<Rightarrow> sram \<times> bufids \<Rightarrow> sram_fault + (sram \<times> bufids)" where
  "bufid_pool_init v ms =
     (case sram_allocs v (if v_soc v = AN7552 then [138] else [138, 18, 28, 29]) (fst ms) of
        Inl f \<Rightarrow> Inl f
      | Inr (bases, m) \<Rightarrow>
          Inr (m, let s = bufid_fields_init v (snd ms)
                  in if v_soc v = AN7552 then s else tx_tokens_init v s))"

section \<open>The software rx pool of kite on AN7581\<close>

text \<open>
  \<open>npu_tdma.c\<close>: 5600 ids in the same SRAM block 138 as \<open>bufid_pool\<close>, with indices and
  mutexes of its own (the allocation index is called a write index there).
\<close>

definition buf_mgr_init :: "bufids \<Rightarrow> bufids" where
  "buf_mgr_init s =
     s\<lparr>buf_mgr_alloc_cfg := 28, buf_mgr_free_cfg := 29,
       bufid_pool := (bufid_pool s)\<lparr>slots :=
         map of_nat [0..<5600] @ drop 5600 (slots (bufid_pool s))\<rparr>,
       buf_mgr_alloc_widx := 0, buf_mgr_free_widx := 0\<rparr>"

definition buf_mgr_alloc :: "variant \<Rightarrow> bufids \<Rightarrow> s32 \<times> bufids" where
  "buf_mgr_alloc v s =
     (let s = id_lock v (buf_mgr_alloc_cfg s) s;
          next = (if c32 (buf_mgr_alloc_widx s) + 1 = 5600 then 0 else buf_mgr_alloc_widx s + 1)
      in if next = buf_mgr_free_widx s then
           (let s = cnt_tri_add 0x20 1 s in (- 1, id_unlock v (buf_mgr_alloc_cfg s) s))
         else
           (let s = cnt_tri_add 0x1C 1 s;
                idn = scast (slots (bufid_pool s) ! unat (buf_mgr_alloc_widx s));
                s = s\<lparr>buf_mgr_alloc_widx := next\<rparr>
            in (idn, id_unlock v (buf_mgr_alloc_cfg s) s)))"

definition buf_mgr_free :: "variant \<Rightarrow> u32 \<Rightarrow> bufids \<Rightarrow> bufids" where
  "buf_mgr_free v buf_id s =
     (let s = id_lock v (buf_mgr_free_cfg s) s;
          w = buf_mgr_free_widx s;
          s = s\<lparr>bufid_pool := (bufid_pool s)\<lparr>slots :=
                  (slots (bufid_pool s))[unat w := c16 buf_id]\<rparr>\<rparr>;
          s = cnt_tri_add 0x18 1 s;
          s = s\<lparr>buf_mgr_free_widx := (if c32 w + 1 = 5600 then 0 else w + 1)\<rparr>
      in id_unlock v (buf_mgr_free_cfg s) s)"

section \<open>The hardware buffer manager\<close>

text \<open>
  An id is popped by a CSR read or, on AN7552, by a load; \<open>csr\<close> is what the CSRs answer. A
  freed id is stored to the free register of the band.
\<close>

definition BMGR_BASE :: u32 where
  "BMGR_BASE = 0x1EC08800"

definition bufid_csr :: "(u32 \<Rightarrow> u32) \<Rightarrow> u32 \<Rightarrow> s32" where
  "bufid_csr csr n = scast (c16 (csr n))"

definition buf_id_alloc_hw ::
  "variant \<Rightarrow> device \<Rightarrow> (u32 \<Rightarrow> u32) \<Rightarrow> u32 \<Rightarrow> u32 \<Rightarrow> bufids \<times> access list \<Rightarrow>
   s32 \<times> (bufids \<times> access list)" where
  "buf_id_alloc_hw v dev csr t band st =
     (if v_soc v = AN7552 then
        (let base = (if t \<noteq> 0 then 0x1EC0A000 else BMGR_BASE);
             (x, tr) = reg_rd dev (base + band * 0x800 + (64 + band) * 4) (snd st)
         in (scast (c16 x), (fst st, tr)))
      else if WIFI_KITE v \<and> \<not> HAS_BME v then
        (let (i, s) = buf_mgr_alloc v (fst st) in (i, (s, snd st)))
      else
        (let k = t * 4 + band
         in (if k = 0 then bufid_csr csr 0xBC8
             else if k = 1 then bufid_csr csr 0xBC9
             else if k = 2 then bufid_csr csr 0xBCA
             else if k = 4 then bufid_csr csr 0xBD8
             else if k = 5 then bufid_csr csr 0xBD9
             else if k = 6 then bufid_csr csr 0xBDA
             else if k = 8 then bufid_csr csr 0xBE8
             else if k = 9 then bufid_csr csr 0xBE9
             else if k = 10 then bufid_csr csr 0xBEA
             else - 1, st)))"

definition buf_id_free ::
  "variant \<Rightarrow> u32 \<Rightarrow> u32 \<Rightarrow> u32 \<Rightarrow> bufids \<times> access list \<Rightarrow> bufids \<times> access list" where
  "buf_id_free v t band buf_id st =
     (if WIFI_KITE v \<and> \<not> HAS_BME v then (buf_mgr_free v buf_id (fst st), snd st)
      else (let base = (if t = 0 then BMGR_BASE
                        else if v_soc v = AN7552 \<or> t = 1 then 0x1EC0A000 else 0x1EC07000)
            in (fst st, reg_wr (base + band * 0x800 + (67 + band) * 4) buf_id (snd st))))"

section \<open>Rebuilding the token ring\<close>

text \<open>
  \<open>rd\<close> reads a word of a TDMA rx descriptor, \<open>dscp_base\<close> is \<open>tdma_rx_dscp_base\<close>,
  \<open>pkt_buf\<close> is \<open>npu_tx_pkt_buf_addr\<close>. A store outside an array is a fault.
\<close>

datatype id_fault = rx_ids_overrun | tx_buf_state_overrun

definition TDMA_RX_RINGS :: nat where
  "TDMA_RX_RINGS = 2"

definition TDMA_RX_RING_DESCS :: nat where
  "TDMA_RX_RING_DESCS = 1024"

definition TDMA_RX_DESC_SIZE :: u32 where
  "TDMA_RX_DESC_SIZE = 32"

definition rx_desc_token :: "(u32 \<Rightarrow> u32) \<Rightarrow> (nat \<Rightarrow> u32) \<Rightarrow> u32 \<Rightarrow> nat \<Rightarrow> nat \<Rightarrow> u16" where
  "rx_desc_token rd dscp_base pkt_buf ring i =
     (let ptr = rd (dscp_base ring + TDMA_RX_DESC_SIZE * of_nat i + 8)
      in c16 (drop_bit 11 (ptr - pkt_buf)))"

fun collect_ring :: "(nat \<Rightarrow> u16) \<Rightarrow> nat list \<Rightarrow> nat \<Rightarrow> u16 list \<times> nat \<Rightarrow>
    id_fault + (u16 list \<times> nat)" where
  "collect_ring token [] maxn (out, n) = Inr (out, n)"
| "collect_ring token (i # is) maxn (out, n) =
     (if length out \<le> n then Inl rx_ids_overrun
      else (let out = out[n := token i]; n = n + 1
            in if maxn < n then Inr (out, n) else collect_ring token is maxn (out, n)))"

fun collect_rings :: "(nat \<Rightarrow> nat \<Rightarrow> u16) \<Rightarrow> nat list \<Rightarrow> nat \<Rightarrow> u16 list \<times> nat \<Rightarrow>
    id_fault + (u16 list \<times> nat)" where
  "collect_rings token [] maxn on = Inr on"
| "collect_rings token (ring # rings) maxn on =
     (case collect_ring (token ring) [0..<TDMA_RX_RING_DESCS] maxn on of
        Inl f \<Rightarrow> Inl f
      | Inr on \<Rightarrow> collect_rings token rings maxn on)"

definition tdma_rx_collect_bufids :: "(nat \<Rightarrow> nat \<Rightarrow> u16) \<Rightarrow> u16 list \<Rightarrow> nat \<Rightarrow>
    id_fault + (u16 list \<times> nat)" where
  "tdma_rx_collect_bufids token out maxn = collect_rings token [0..<TDMA_RX_RINGS] maxn (out, 0)"

fun mark_in_rx :: "u16 list \<Rightarrow> u16 list \<Rightarrow> id_fault + u16 list" where
  "mark_in_rx state [] = Inr state"
| "mark_in_rx state (i # ids) =
     (if length state \<le> unat i then Inl tx_buf_state_overrun
      else mark_in_rx (state[unat i := TX_BUF_STATE_IN_RX]) ids)"

function skip_in_rx :: "u16 list \<Rightarrow> nat \<Rightarrow> nat" where
  "skip_in_rx state i =
     (if i < TX_FREE_RING_LAST \<and> state ! i = TX_BUF_STATE_IN_RX then skip_in_rx state (i + 1)
      else i)"
  by auto
termination by (relation "measure (\<lambda>(st, i). TX_FREE_RING_LAST - i)") auto

declare skip_in_rx.simps [simp del]

text \<open>The fill loop: the ring and the slot it stopped at.\<close>

function fill_ring :: "variant \<Rightarrow> u16 list \<Rightarrow> nat \<Rightarrow> u16 list \<Rightarrow> nat \<Rightarrow> nat \<Rightarrow> u16 list \<Rightarrow>
    u16 list \<times> nat" where
  "fill_ring v rx_ids in_rx state w i ring =
     (if w < TX_FREE_RING_ENTRIES then
        (if w < in_rx \<and> rx_ids ! w \<noteq> 0xFFFF
         then fill_ring v rx_ids in_rx state (w + 1) i (ring[w := rx_ids ! w])
         else (let i = skip_in_rx state i
               in if HAS_EAGLE_TX_JUMBO v \<and> TX_TOKEN_IDS v \<le> i then (ring, w)
                  else fill_ring v rx_ids in_rx state (w + 1) (i + 1) (ring[w := of_nat i])))
      else (ring, w))"
  by pat_completeness auto
termination by (relation "measure (\<lambda>(v, x, n, st, w, i, r). TX_FREE_RING_ENTRIES - w)") auto

declare fill_ring.simps [simp del]

definition np_skb_tx_force_reset ::
  "variant \<Rightarrow> (nat \<Rightarrow> nat \<Rightarrow> u16) \<Rightarrow> bufids \<Rightarrow> id_fault + bufids" where
  "np_skb_tx_force_reset v token s =
     (let s = id_lock v (tx_token_alloc_mutex s) s;
          s = id_lock v (tx_token_free_mutex s) s
      in case tdma_rx_collect_bufids token (replicate TDMA_RX_ID_ENTRIES 0xFFFF)
                TDMA_RX_ID_ENTRIES of
        Inl f \<Rightarrow> Inl f
      | Inr (rx_ids, in_rx) \<Rightarrow>
          (case mark_in_rx (replicate TX_FREE_RING_ENTRIES 0) (take in_rx rx_ids) of
             Inl f \<Rightarrow> Inl f
           | Inr state \<Rightarrow>
               (let (ring, w) = fill_ring v rx_ids in_rx state 0 0 (slots (tx_ring s));
                    s = s\<lparr>tdma_rx_ids := rx_ids, tx_buf_state := state,
                          tx_ring := \<lparr>slots = ring, ridx = of_nat in_rx,
                            widx = (if HAS_EAGLE_TX_JUMBO v
                                    then (if w = TX_FREE_RING_ENTRIES then 0 else of_nat w)
                                    else 0)\<rparr>\<rparr>;
                    s = (if HAS_EAGLE_TX_JUMBO v then tx_jumbo_reset s else s);
                    s = id_unlock v (tx_token_free_mutex s) s
                in Inr (id_unlock v (tx_token_alloc_mutex s) s))))"

section \<open>Counter blocks\<close>

definition BAND_COUNTER_WORDS :: "variant \<Rightarrow> nat" where
  "BAND_COUNTER_WORDS v = (if v_soc v = AN7552 then 170 else 250)"

text \<open>Clearing the first \<open>n\<close> words of a counter block.\<close>

definition block_clear :: "u32 \<Rightarrow> nat \<Rightarrow> bufids \<Rightarrow> bufids" where
  "block_clear t n s =
     s\<lparr>cnt_block := (cnt_block s)(t := (\<lambda>off. if unat off < n * 4 then 0 else cnt_block s t off))\<rparr>"

definition counter_init :: "variant \<Rightarrow> u32 \<Rightarrow> sram \<times> bufids \<Rightarrow> sram_fault + (sram \<times> bufids)" where
  "counter_init v band ms =
     (case sram_buf_alloc v (if band = 1 then 9 else if band = 0 then 10 else 11) (fst ms) of
        Inl f \<Rightarrow> Inl f
      | Inr (base, m) \<Rightarrow>
          (let s = snd ms
           in Inr (m, if band = 1 then block_clear 9 (BAND_COUNTER_WORDS v) (s\<lparr>counter_base_5g := base\<rparr>)
                      else if band = 0
                      then block_clear 10 (BAND_COUNTER_WORDS v) (s\<lparr>counter_base_2g := base\<rparr>)
                      else block_clear 11 28 (s\<lparr>counter_base_tri := base\<rparr>))))"

definition wcid_counter_init :: "variant \<Rightarrow> u32 \<Rightarrow> sram \<times> bufids \<Rightarrow> sram_fault + (sram \<times> bufids)" where
  "wcid_counter_init v band ms =
     (if band = 1 then
        (case sram_buf_alloc v 19 (fst ms) of
           Inl f \<Rightarrow> Inl f
         | Inr (base, m) \<Rightarrow> Inr (m, block_clear 19 256 ((snd ms)\<lparr>wcid_counter_base_5g := base\<rparr>)))
      else if band = 0 then
        (case sram_buf_alloc v 20 (fst ms) of
           Inl f \<Rightarrow> Inl f
         | Inr (base, m) \<Rightarrow> Inr (m, block_clear 20 256 ((snd ms)\<lparr>wcid_counter_base_2g := base\<rparr>)))
      else Inr ms)"

end
