(* ===== verification/Bufid_Pool.thy ===== *)
theory Bufid_Pool
  imports Bufid Contracts
begin

text \<open>
  The id rings as pools: what a ring holds as a list, the pool contract of
  \<open>Contracts.id_pool\<close> for the rx ids, the tx tokens and the software rx pool of kite, the batch
  operations as iterated single ones, the jumbo stack and the rebuilt token ring.
\<close>

section \<open>What a ring holds\<close>

definition ring_fill :: "nat \<Rightarrow> nat \<Rightarrow> nat \<Rightarrow> nat" where
  "ring_fill n r w = (if r < w then w - r else w + n - r)"

definition ring_segment :: "'a list \<Rightarrow> nat \<Rightarrow> nat \<Rightarrow> 'a list" where
  "ring_segment xs r k = map (\<lambda>i. xs ! ((r + i) mod length xs)) [0..<k]"

definition ring_ids :: "id_ring \<Rightarrow> u16 list" where
  "ring_ids q =
     ring_segment (slots q) (unat (ridx q)) (ring_fill (length (slots q)) (unat (ridx q)) (unat (widx q)))"

definition ring_ok :: "nat \<Rightarrow> id_ring \<Rightarrow> bool" where
  "ring_ok n q \<longleftrightarrow> 1 < n \<and> n \<le> 32768 \<and> length (slots q) = n \<and> unat (ridx q) < n \<and> unat (widx q) < n"

lemma ring_segment_Cons:
  assumes "0 < k" "r < length xs"
  shows "ring_segment xs r k = xs ! r # ring_segment xs (ring_next (length xs - 1) r) (k - 1)"
proof -
  have nx: "ring_next (length xs - 1) r = (r + 1) mod length xs"
    using ring_next_mod [of r "length xs - 1"] assms by (cases "length xs") auto
  have "[0..<k] = 0 # map Suc [0..<k - 1]"
    using assms(1) by (metis Suc_pred' map_Suc_upt upt_conv_Cons)
  then have "ring_segment xs r k = xs ! (r mod length xs) #
      map (\<lambda>i. xs ! ((r + Suc i) mod length xs)) [0..<k - 1]"
    by (simp add: ring_segment_def comp_def)
  also have "\<dots> = xs ! r # map (\<lambda>i. xs ! (((r + 1) mod length xs + i) mod length xs)) [0..<k - 1]"
    using assms(2) by (simp add: mod_simps)
  finally show ?thesis by (simp only: nx ring_segment_def)
qed

lemma ring_segment_snoc:
  assumes "k < length xs" "r < length xs"
  shows "ring_segment (xs[(r + k) mod length xs := x]) r (Suc k) = ring_segment xs r k @ [x]"
proof -
  have "(r + k) mod length xs \<noteq> (r + i) mod length xs" if "i < k" for i
  proof
    assume eq: "(r + k) mod length xs = (r + i) mod length xs"
    then have "length xs dvd (r + k) - (r + i)" by (metis mod_eq_dvd_iff_nat nat_add_left_cancel_le less_imp_le that)
    then have "length xs dvd k - i" by simp
    then show False using that assms(1) by (auto dest: dvd_imp_le)
  qed
  moreover have "(r + k) mod length xs < length xs" using assms by (auto intro: mod_less_divisor)
  ultimately show ?thesis by (auto simp: ring_segment_def)
qed

lemma ring_fill_bounds: "r < n \<Longrightarrow> w < n \<Longrightarrow> 1 \<le> ring_fill n r w \<and> ring_fill n r w \<le> n"
  by (auto simp: ring_fill_def)

lemma ring_fill_mod: "r < n \<Longrightarrow> w < n \<Longrightarrow> (r + ring_fill n r w) mod n = w"
  by (auto simp: ring_fill_def)

lemma ring_fill_one:
  "r < n \<Longrightarrow> w < n \<Longrightarrow> 1 < n \<Longrightarrow> ring_fill n r w = 1 \<longleftrightarrow> w = ring_next (n - 1) r"
  by (auto simp: ring_fill_def ring_next_def)

lemma ring_fill_take:
  "r < n \<Longrightarrow> w < n \<Longrightarrow> 1 < n \<Longrightarrow> w \<noteq> ring_next (n - 1) r \<Longrightarrow>
   ring_fill n (ring_next (n - 1) r) w = ring_fill n r w - 1"
  by (auto simp: ring_fill_def ring_next_def)

lemma ring_fill_put:
  "r < n \<Longrightarrow> w < n \<Longrightarrow> 1 < n \<Longrightarrow> ring_fill n r w < n \<Longrightarrow>
   ring_fill n r (ring_next (n - 1) w) = Suc (ring_fill n r w)"
  by (auto simp: ring_fill_def ring_next_def split: if_splits)

lemma length_ring_ids:
  "length (ring_ids q) = ring_fill (length (slots q)) (unat (ridx q)) (unat (widx q))"
  by (simp add: ring_ids_def ring_segment_def)

lemma unat_idx_next:
  assumes "unat i < n" "1 < n" "n \<le> 32768"
  shows "unat (idx_next (n - 1) i) = ring_next (n - 1) (unat i)"
proof -
  obtain l where l: "n = Suc l" using assms by (cases n) auto
  have "(of_nat l :: u16) = i \<longleftrightarrow> l = unat i"
    using assms l by (auto simp: word_unat_eq_iff unat_of_nat)
  then show ?thesis
    using assms l unat_add_small [of i 1] by (auto simp: idx_next_def ring_next_def)
qed

text \<open>Taking the oldest id and appending one.\<close>

lemma ring_take:
  assumes ok: "ring_ok n q" and w: "widx q \<noteq> idx_next (n - 1) (ridx q)"
  shows "ring_ids q = slots q ! unat (ridx q) # ring_ids (q\<lparr>ridx := idx_next (n - 1) (ridx q)\<rparr>)"
    and "ring_ids (q\<lparr>ridx := idx_next (n - 1) (ridx q)\<rparr>) \<noteq> []"
    and "ring_ok n (q\<lparr>ridx := idx_next (n - 1) (ridx q)\<rparr>)"
proof -
  let ?r = "unat (ridx q)" and ?w = "unat (widx q)"
  have b: "?r < n" "?w < n" "1 < n" "length (slots q) = n" "n \<le> 32768"
    using ok by (auto simp: ring_ok_def)
  have nx: "unat (idx_next (n - 1) (ridx q)) = ring_next (n - 1) ?r" using unat_idx_next b by blast
  have ne: "?w \<noteq> ring_next (n - 1) ?r" using w nx by (metis word_unat_eq_iff)
  have f: "ring_fill n (ring_next (n - 1) ?r) ?w = ring_fill n ?r ?w - 1"
    using ring_fill_take b ne by blast
  show "ring_ids q = slots q ! ?r # ring_ids (q\<lparr>ridx := idx_next (n - 1) (ridx q)\<rparr>)"
    using ring_segment_Cons [of "ring_fill n ?r ?w" ?r "slots q"] ring_fill_bounds [of ?r n ?w] b f nx
    by (simp add: ring_ids_def)
  show ok': "ring_ok n (q\<lparr>ridx := idx_next (n - 1) (ridx q)\<rparr>)"
    using b nx ring_next_lt [of ?r n] by (auto simp: ring_ok_def)
  have "length (ring_ids (q\<lparr>ridx := idx_next (n - 1) (ridx q)\<rparr>)) \<ge> 1"
    using ring_fill_bounds [of "unat (idx_next (n - 1) (ridx q))" n ?w] ok'
    by (simp add: length_ring_ids ring_ok_def)
  then show "ring_ids (q\<lparr>ridx := idx_next (n - 1) (ridx q)\<rparr>) \<noteq> []" by auto
qed

lemma ring_last:
  assumes ok: "ring_ok n q"
  shows "widx q = idx_next (n - 1) (ridx q) \<longleftrightarrow> length (ring_ids q) \<le> 1"
proof -
  have b: "unat (ridx q) < n" "unat (widx q) < n" "1 < n" "length (slots q) = n" "n \<le> 32768"
    using ok by (auto simp: ring_ok_def)
  have "widx q = idx_next (n - 1) (ridx q) \<longleftrightarrow> unat (widx q) = ring_next (n - 1) (unat (ridx q))"
    using unat_idx_next [OF b(1,3,5)] by (metis word_unat_eq_iff)
  then show ?thesis
    using ring_fill_one [OF b(1,2,3)] ring_fill_bounds [OF b(1,2)] b(4)
    by (auto simp: length_ring_ids)
qed

definition ring_put :: "nat \<Rightarrow> u16 \<Rightarrow> id_ring \<Rightarrow> id_ring" where
  "ring_put n i q = q\<lparr>slots := (slots q)[unat (widx q) := i], widx := idx_next (n - 1) (widx q)\<rparr>"

lemma ring_put_ok: "ring_ok n q \<Longrightarrow> ring_ok n (ring_put n i q)"
  using unat_idx_next [of "widx q" n] ring_next_lt [of "unat (widx q)" n]
  by (auto simp: ring_ok_def ring_put_def)

lemma ring_put_ids:
  assumes ok: "ring_ok n q" and room: "length (ring_ids q) < n"
  shows "ring_ids (ring_put n i q) = ring_ids q @ [i]"
proof -
  let ?r = "unat (ridx q)" and ?w = "unat (widx q)"
  have b: "?r < n" "?w < n" "1 < n" "length (slots q) = n" "n \<le> 32768"
    using ok by (auto simp: ring_ok_def)
  have nx: "unat (idx_next (n - 1) (widx q)) = ring_next (n - 1) ?w" using unat_idx_next b by blast
  have k: "ring_fill n ?r ?w < n" using room b by (simp add: length_ring_ids)
  have w: "?w = (?r + ring_fill n ?r ?w) mod n" using ring_fill_mod [OF b(1,2)] by simp
  show "ring_ids (ring_put n i q) = ring_ids q @ [i]"
    using ring_segment_snoc [of "ring_fill n ?r ?w" "slots q" ?r i] b nx k
      ring_fill_put [OF b(1,2,3) k] w
    by (simp add: ring_ids_def ring_put_def)
qed

lemma ring_ids_length:
  "ring_ok n q \<Longrightarrow> 1 \<le> length (ring_ids q) \<and> length (ring_ids q) \<le> n"
  using ring_fill_bounds [of "unat (ridx q)" n "unat (widx q)"]
  by (simp add: ring_ok_def length_ring_ids)

lemma ring_ids_slots: "ring_ok n q \<Longrightarrow> set (ring_ids q) \<subseteq> set (slots q)"
  by (auto simp: ring_ids_def ring_segment_def ring_ok_def intro!: nth_mem mod_less_divisor)

text \<open>A ring just filled: all \<open>n\<close> slots when the indices are equal, else the first \<open>k\<close>.\<close>

lemma ring_ids_full:
  "slots q = map f [0..<n] \<Longrightarrow> ridx q = 0 \<Longrightarrow> widx q = 0 \<Longrightarrow> ring_ids q = map f [0..<n]"
  by (auto simp: ring_ids_def ring_segment_def ring_fill_def)

lemma ring_ids_prefix:
  "k < length (slots q) \<Longrightarrow> 0 < k \<Longrightarrow> k < 65536 \<Longrightarrow> ridx q = 0 \<Longrightarrow> widx q = of_nat k \<Longrightarrow>
   ring_ids q = take k (slots q)"
  by (auto simp: ring_ids_def ring_segment_def ring_fill_def unat_of_nat intro: nth_equalityI)

section \<open>Ids as the code returns them\<close>

text \<open>The slots hold ids below \<open>0x8000\<close>, so the signed read is not negative and \<open>- 1\<close> is free.\<close>

definition id_valid :: "u16 \<Rightarrow> bool" where
  "id_valid i \<longleftrightarrow> unat i < 32768"

definition id_result :: "s32 \<times> 's \<Rightarrow> u16 option \<times> 's" where
  "id_result p = (if fst p = - 1 then None else Some (c16 (fst p)), snd p)"

lemma sint_id: "id_valid i \<Longrightarrow> sint i = int (unat i)"
proof -
  assume "id_valid i"
  then have "int (unat i) < int 32768" by (simp only: id_valid_def of_nat_less_iff)
  then have "uint i < 32768" by simp
  then have "signed_take_bit 15 (uint i) = uint i"
    by (intro signed_take_bit_int_eq_self) (auto intro: order_trans [OF _ uint_ge_0])
  then show ?thesis by (simp add: sint_uint)
qed

lemma id_lock_sel [simp]:
  "bufid_pool (id_lock v i s) = bufid_pool s" "tx_ring (id_lock v i s) = tx_ring s"
  "rx_bufid_alloc_mutex (id_lock v i s) = rx_bufid_alloc_mutex s"
  "rx_bufid_free_mutex (id_lock v i s) = rx_bufid_free_mutex s"
  "tx_token_alloc_mutex (id_lock v i s) = tx_token_alloc_mutex s"
  "tx_token_free_mutex (id_lock v i s) = tx_token_free_mutex s"
  "buf_mgr_alloc_cfg (id_lock v i s) = buf_mgr_alloc_cfg s"
  "buf_mgr_free_cfg (id_lock v i s) = buf_mgr_free_cfg s"
  "buf_mgr_alloc_widx (id_lock v i s) = buf_mgr_alloc_widx s"
  "buf_mgr_free_widx (id_lock v i s) = buf_mgr_free_widx s"
  "id_mtx (id_lock v i s) = mutex_lock v i (id_mtx s)"
  by (simp_all add: id_lock_def)

lemma id_unlock_sel [simp]:
  "bufid_pool (id_unlock v i s) = bufid_pool s" "tx_ring (id_unlock v i s) = tx_ring s"
  "rx_bufid_alloc_mutex (id_unlock v i s) = rx_bufid_alloc_mutex s"
  "rx_bufid_free_mutex (id_unlock v i s) = rx_bufid_free_mutex s"
  "tx_token_alloc_mutex (id_unlock v i s) = tx_token_alloc_mutex s"
  "tx_token_free_mutex (id_unlock v i s) = tx_token_free_mutex s"
  "buf_mgr_alloc_cfg (id_unlock v i s) = buf_mgr_alloc_cfg s"
  "buf_mgr_free_cfg (id_unlock v i s) = buf_mgr_free_cfg s"
  "buf_mgr_alloc_widx (id_unlock v i s) = buf_mgr_alloc_widx s"
  "buf_mgr_free_widx (id_unlock v i s) = buf_mgr_free_widx s"
  "id_mtx (id_unlock v i s) = mutex_unlock v i (id_mtx s)"
  by (simp_all add: id_unlock_def)

lemma cnt_tri_add_sel [simp]:
  "bufid_pool (cnt_tri_add off n s) = bufid_pool s" "tx_ring (cnt_tri_add off n s) = tx_ring s"
  "rx_bufid_alloc_mutex (cnt_tri_add off n s) = rx_bufid_alloc_mutex s"
  "rx_bufid_free_mutex (cnt_tri_add off n s) = rx_bufid_free_mutex s"
  "tx_token_alloc_mutex (cnt_tri_add off n s) = tx_token_alloc_mutex s"
  "tx_token_free_mutex (cnt_tri_add off n s) = tx_token_free_mutex s"
  "buf_mgr_alloc_cfg (cnt_tri_add off n s) = buf_mgr_alloc_cfg s"
  "buf_mgr_free_cfg (cnt_tri_add off n s) = buf_mgr_free_cfg s"
  "buf_mgr_alloc_widx (cnt_tri_add off n s) = buf_mgr_alloc_widx s"
  "buf_mgr_free_widx (cnt_tri_add off n s) = buf_mgr_free_widx s"
  "id_mtx (cnt_tri_add off n s) = id_mtx s"
  by (simp_all add: cnt_tri_add_def block_add_def)

lemma id_result_scast:
  assumes "id_valid i"
  shows "id_result (scast i :: s32, s) = (Some i, s)"
proof -
  have i: "0 \<le> sint i" using sint_id [OF assms] by simp
  have "sint (scast i :: s32) = sint i" by (simp add: sint_up_scast is_up)
  then have "(scast i :: s32) \<noteq> - 1" using i by (metis sint_n1 zero_le_numeral neg_0_le_iff_le not_one_le_zero)
  moreover have "c16 (scast i :: s32) = i"
    by (rule bit_word_eqI) (simp add: bit_simps)
  ultimately show ?thesis by (simp add: id_result_def)
qed

section \<open>A ring with its operations is a pool\<close>

definition ids_ok :: "variant \<Rightarrow> nat \<Rightarrow> id_ring \<Rightarrow> u32 list \<Rightarrow> bufids \<Rightarrow> bool" where
  "ids_ok v n q ms s \<longleftrightarrow> ring_ok n q \<and> (\<forall>i \<in> set (slots q). id_valid i) \<and>
     (\<forall>i \<in> set ms. mutex_avail v i (id_mtx s))"

lemma ids_valid: "ids_ok v n q ms s \<Longrightarrow> i \<in> set (ring_ids q) \<Longrightarrow> id_valid i"
  using ring_ids_slots by (auto simp: ids_ok_def)

lemma ring_head_valid: "ids_ok v n q ms s \<Longrightarrow> id_valid (slots q ! unat (ridx q))"
  by (auto simp: ids_ok_def ring_ok_def)

lemma ids_ok_put:
  "ids_ok v n q ms s \<Longrightarrow> id_valid i \<Longrightarrow> id_mtx s' = id_mtx s \<Longrightarrow>
   ids_ok v n (ring_put n i q) ms s'"
  using ring_put_ok [of n q i]
  by (auto simp: ids_ok_def ring_put_def dest!: set_update_subset_insert [THEN subsetD])

lemma ids_ok_take:
  "ids_ok v n q ms s \<Longrightarrow> widx q \<noteq> idx_next (n - 1) (ridx q) \<Longrightarrow> id_mtx s' = id_mtx s \<Longrightarrow>
   ids_ok v n (q\<lparr>ridx := idx_next (n - 1) (ridx q)\<rparr>) ms s'"
  using ring_take(3) [of n q] by (auto simp: ids_ok_def)

text \<open>
  The client side of the three rings: what one allocation and one return do to the ring \<open>q\<close>
  of a state, and that they leave the mutexes as they were.
\<close>

locale ring_ops =
  fixes v :: variant
    and n :: nat
    and q :: "bufids \<Rightarrow> id_ring"
    and ms :: "u32 list"
    and base :: "bufids \<Rightarrow> bool"
    and alloc :: "bufids \<Rightarrow> s32 \<times> bufids"
    and free :: "u16 \<Rightarrow> bufids \<Rightarrow> bufids"
  assumes alloc_none: "ids_ok v n (q s) ms s \<Longrightarrow> base s \<Longrightarrow>
      widx (q s) = idx_next (n - 1) (ridx (q s)) \<Longrightarrow>
      \<exists>s'. alloc s = (- 1, s') \<and> q s' = q s \<and> id_mtx s' = id_mtx s \<and> base s'"
    and alloc_some: "ids_ok v n (q s) ms s \<Longrightarrow> base s \<Longrightarrow>
      widx (q s) \<noteq> idx_next (n - 1) (ridx (q s)) \<Longrightarrow>
      \<exists>s'. alloc s = (scast (slots (q s) ! unat (ridx (q s))), s') \<and>
        q s' = (q s)\<lparr>ridx := idx_next (n - 1) (ridx (q s))\<rparr> \<and> id_mtx s' = id_mtx s \<and> base s'"
    and free_put: "ids_ok v n (q s) ms s \<Longrightarrow> base s \<Longrightarrow>
      q (free i s) = ring_put n i (q s) \<and> id_mtx (free i s) = id_mtx s \<and> base (free i s)"

sublocale ring_ops \<subseteq> id_pool "\<lambda>s. id_result (alloc s)" free "\<lambda>s. ring_ids (q s)"
  "\<lambda>s. ids_ok v n (q s) ms s \<and> base s" id_valid n
proof
  fix s
  assume ok: "ids_ok v n (q s) ms s \<and> base s" and "length (ring_ids (q s)) \<le> 1"
  then have "widx (q s) = idx_next (n - 1) (ridx (q s))"
    using ring_last by (auto simp: ids_ok_def)
  then show "\<exists>s'. id_result (alloc s) = (None, s') \<and> (ids_ok v n (q s') ms s' \<and> base s') \<and>
      ring_ids (q s') = ring_ids (q s)"
    using alloc_none [of s] ok by (auto simp: id_result_def ids_ok_def)
next
  fix s i "is"
  assume ok: "ids_ok v n (q s) ms s \<and> base s" and c: "ring_ids (q s) = i # is" and ne: "is \<noteq> []"
  then have w: "widx (q s) \<noteq> idx_next (n - 1) (ridx (q s))"
    using ring_last [of n "q s"] by (cases "is") (auto simp: ids_ok_def)
  obtain s' where s': "alloc s = (scast (slots (q s) ! unat (ridx (q s))), s')"
      "q s' = (q s)\<lparr>ridx := idx_next (n - 1) (ridx (q s))\<rparr>" "id_mtx s' = id_mtx s" "base s'"
    using alloc_some [of s] ok w by auto
  have "ring_ids (q s) = slots (q s) ! unat (ridx (q s)) # ring_ids (q s')"
    using ring_take(1) [of n "q s"] ok w s'(2) by (simp add: ids_ok_def)
  then have ii: "i = slots (q s) ! unat (ridx (q s))" "is = ring_ids (q s')"
    unfolding c list.inject by blast+
  have "id_valid (slots (q s) ! unat (ridx (q s)))" using ring_head_valid ok by blast
  then have "id_result (alloc s) = (Some i, s')" unfolding s'(1) ii(1) by (rule id_result_scast)
  moreover have "ids_ok v n (q s') ms s'" using ids_ok_take [OF _ w s'(3)] ok s'(2) by simp
  ultimately show "\<exists>s'. id_result (alloc s) = (Some i, s') \<and>
      (ids_ok v n (q s') ms s' \<and> base s') \<and> ring_ids (q s') = is"
    using s'(4) ii(2) by blast
next
  fix s i
  assume ok: "ids_ok v n (q s) ms s \<and> base s" and i: "id_valid i"
    and room: "length (ring_ids (q s)) < n"
  have f: "q (free i s) = ring_put n i (q s)" "id_mtx (free i s) = id_mtx s" "base (free i s)"
    using free_put ok by blast+
  have "ids_ok v n (q (free i s)) ms (free i s)"
    unfolding f(1) using ids_ok_put ok i f(2) by blast
  moreover have "ring_ids (q (free i s)) = ring_ids (q s) @ [i]"
    unfolding f(1) using ring_put_ids ok room ids_ok_def by blast
  ultimately show "(ids_ok v n (q (free i s)) ms (free i s) \<and> base (free i s)) \<and>
      ring_ids (q (free i s)) = ring_ids (q s) @ [i]"
    using f(3) by blast
next
  fix s i
  assume "ids_ok v n (q s) ms s \<and> base s" "i \<in> set (ring_ids (q s))"
  then show "id_valid i" using ids_valid by blast
next
  fix s
  assume "ids_ok v n (q s) ms s \<and> base s"
  then show "1 \<le> length (ring_ids (q s)) \<and> length (ring_ids (q s)) \<le> n"
    using ring_ids_length by (auto simp: ids_ok_def)
qed

section \<open>The three pools\<close>

definition rx_mutexes :: "bufids \<Rightarrow> bool" where
  "rx_mutexes s \<longleftrightarrow> rx_bufid_alloc_mutex s = 12 \<and> rx_bufid_free_mutex s = 13"

definition tx_mutexes :: "bufids \<Rightarrow> bool" where
  "tx_mutexes s \<longleftrightarrow> tx_token_alloc_mutex s = 3 \<and> tx_token_free_mutex s = 4"

definition mgr_mutexes :: "bufids \<Rightarrow> bool" where
  "mgr_mutexes s \<longleftrightarrow> buf_mgr_alloc_cfg s = 28 \<and> buf_mgr_free_cfg s = 29"

text \<open>The kite pool is a ring over the slots of \<open>bufid_pool\<close>.\<close>

definition mgr_ring :: "bufids \<Rightarrow> id_ring" where
  "mgr_ring s = \<lparr>slots = slots (bufid_pool s), ridx = buf_mgr_alloc_widx s, widx = buf_mgr_free_widx s\<rparr>"

definition rx_pool_ok :: "variant \<Rightarrow> bufids \<Rightarrow> bool" where
  "rx_pool_ok v s \<longleftrightarrow> ids_ok v (BUFID_POOL_ENTRIES v) (bufid_pool s) [12, 13] s \<and> rx_mutexes s"

definition tx_pool_ok :: "variant \<Rightarrow> bufids \<Rightarrow> bool" where
  "tx_pool_ok v s \<longleftrightarrow> ids_ok v TX_FREE_RING_ENTRIES (tx_ring s) [3, 4] s \<and> tx_mutexes s"

definition mgr_pool_ok :: "variant \<Rightarrow> bufids \<Rightarrow> bool" where
  "mgr_pool_ok v s \<longleftrightarrow> ids_ok v 5600 (mgr_ring s) [28, 29] s \<and> mgr_mutexes s"

interpretation rx_pool: ring_ops v "BUFID_POOL_ENTRIES v" bufid_pool "[12, 13]" rx_mutexes
  "buf_id_alloc_ring v" "buf_id_return v" for v
  by unfold_locales
    (auto simp: buf_id_alloc_ring_def buf_id_return_def Let_def BUFID_POOL_LAST_def ids_ok_def
      rx_mutexes_def ring_put_def rx_free_mutex_def)

interpretation tx_pool: ring_ops v TX_FREE_RING_ENTRIES tx_ring "[3, 4]" tx_mutexes
  "tx_token_alloc v" "tx_token_free v" for v
  by unfold_locales
    (auto simp: tx_token_alloc_def tx_token_free_def Let_def TX_FREE_RING_LAST_def ids_ok_def
      tx_mutexes_def ring_put_def)

lemma c32_5599: "c32 w = 5599 \<longleftrightarrow> w = 5599" for w :: u16
  by (simp add: word_unat_eq_iff)

interpretation mgr_pool: ring_ops v 5600 mgr_ring "[28, 29]" mgr_mutexes
  "buf_mgr_alloc v" "buf_mgr_free v \<circ> c32" for v
  by unfold_locales
    (auto simp: buf_mgr_alloc_def buf_mgr_free_def Let_def c32_5599 idx_next_def ids_ok_def
      mgr_mutexes_def ring_put_def mgr_ring_def)

section \<open>The batch forms\<close>

text \<open>Single allocations until \<open>n\<close> ids are taken or one fails; single returns in order.\<close>

fun take_ids :: "('s \<Rightarrow> s32 \<times> 's) \<Rightarrow> nat \<Rightarrow> 's \<Rightarrow> u16 list \<times> 's" where
  "take_ids al 0 s = ([], s)"
| "take_ids al (Suc n) s =
     (case id_result (al s) of
        (None, s') \<Rightarrow> ([], s')
      | (Some i, s') \<Rightarrow> (let (is, s'') = take_ids al n s' in (i # is, s'')))"

lemma cnt_tri_add_upd [simp]:
  "cnt_tri_add off n (s\<lparr>bufid_pool := a\<rparr>) = (cnt_tri_add off n s)\<lparr>bufid_pool := a\<rparr>"
  "cnt_tri_add off n (s\<lparr>tx_ring := a\<rparr>) = (cnt_tri_add off n s)\<lparr>tx_ring := a\<rparr>"
  "cnt_tri_add off n (s\<lparr>bufid_deq_count := c\<rparr>) = (cnt_tri_add off n s)\<lparr>bufid_deq_count := c\<rparr>"
  "cnt_tri_add off n (s\<lparr>bufid_enq_count := c\<rparr>) = (cnt_tri_add off n s)\<lparr>bufid_enq_count := c\<rparr>"
  "cnt_tri_add off n (s\<lparr>rx_bufid_alloc_count := c\<rparr>) = (cnt_tri_add off n s)\<lparr>rx_bufid_alloc_count := c\<rparr>"
  "cnt_tri_add off n (s\<lparr>id_mtx := m\<rparr>) = (cnt_tri_add off n s)\<lparr>id_mtx := m\<rparr>"
  by (simp_all add: cnt_tri_add_def block_add_def)

lemma cnt_tri_add_0 [simp]: "cnt_tri_add off 0 s = s"
  by (simp add: cnt_tri_add_def block_add_def)

lemma cnt_tri_add_add [simp]:
  "cnt_tri_add off n (cnt_tri_add off m s) = cnt_tri_add off (m + n) s"
  by (auto simp: cnt_tri_add_def block_add_def fun_eq_iff add.assoc)

lemma cnt_tri_add_counts [simp]:
  "bufid_deq_count (cnt_tri_add off n s) = bufid_deq_count s"
  "bufid_enq_count (cnt_tri_add off n s) = bufid_enq_count s"
  "rx_bufid_alloc_count (cnt_tri_add off n s) = rx_bufid_alloc_count s"
  by (simp_all add: cnt_tri_add_def block_add_def)

lemma idx32_next_c16:
  assumes "n \<le> 32768" "1 < n" "unat i < n"
  shows "idx32_next (n - 1) (c32 i) = c32 (idx_next (n - 1) i)"
proof -
  obtain l where l: "n = Suc l" using assms by (cases n) auto
  have "(of_nat l :: u16) = i \<longleftrightarrow> (of_nat l :: u32) = c32 i"
    using assms l by (auto simp: word_unat_eq_iff unat_of_nat)
  moreover have "c32 (i + 1) = c32 i + 1"
    using assms unat_add_small [of i 1] unat_add_small [of "c32 i" 1]
    by (simp add: word_unat_eq_iff)
  ultimately show ?thesis using l by (auto simp: idx32_next_def idx_next_def)
qed

declare take_loop.simps(2) [simp del]

lemma tx_token_alloc_n_0: "tx_pool_ok v s \<Longrightarrow> tx_token_alloc_n v 0 s = ([], s)"
  by (simp add: tx_token_alloc_n_def id_ring_take_def id_lock_def id_unlock_def tx_pool_ok_def
      ids_ok_def)

lemma tx_token_alloc_n_Suc:
  assumes ok: "tx_pool_ok v s"
  shows "tx_token_alloc_n v (Suc n) s =
    (case id_result (tx_token_alloc v s) of
       (None, s') \<Rightarrow> ([], s')
     | (Some i, s') \<Rightarrow> (let (is, s'') = tx_token_alloc_n v n s' in (i # is, s'')))"
proof (cases "widx (tx_ring s) = idx_next TX_FREE_RING_LAST (ridx (tx_ring s))")
  case True
  then have "take_loop (slots (tx_ring s)) TX_FREE_RING_LAST (c32 (widx (tx_ring s)))
      (c32 (ridx (tx_ring s))) (Suc n) = ([], c32 (ridx (tx_ring s)))"
    using idx32_next_c16 [of TX_FREE_RING_ENTRIES "ridx (tx_ring s)"] ok
    by (simp add: Let_def TX_FREE_RING_LAST_def tx_pool_ok_def ids_ok_def ring_ok_def
        take_loop.simps(2))
  then show ?thesis using True ok
    by (simp add: Let_def tx_token_alloc_n_def id_ring_take_def tx_token_alloc_def id_lock_def id_unlock_def
        tx_pool_ok_def ids_ok_def tx_mutexes_def id_result_def)
next
  case False
  let ?r = "ridx (tx_ring s)"
  have v: "id_valid (slots (tx_ring s) ! unat ?r)"
    using ok ring_head_valid [of v TX_FREE_RING_ENTRIES "tx_ring s" "[3, 4]" s]
    by (auto simp: tx_pool_ok_def)
  have nx: "idx32_next TX_FREE_RING_LAST (c32 ?r) = c32 (idx_next TX_FREE_RING_LAST ?r)"
    using idx32_next_c16 [of TX_FREE_RING_ENTRIES ?r] ok
    by (simp add: TX_FREE_RING_LAST_def tx_pool_ok_def ids_ok_def ring_ok_def)
  obtain ids r where tl: "take_loop (slots (tx_ring s)) TX_FREE_RING_LAST (c32 (widx (tx_ring s)))
      (c32 (idx_next TX_FREE_RING_LAST ?r)) n = (ids, r)"
    by fastforce
  then have "take_loop (slots (tx_ring s)) TX_FREE_RING_LAST (c32 (widx (tx_ring s))) (c32 ?r) (Suc n)
      = (slots (tx_ring s) ! unat ?r # ids, r)"
    using False [symmetric] nx by (simp add: Let_def take_loop.simps(2))
  then show ?thesis using False ok tl v
    by (simp add: tx_token_alloc_n_def id_ring_take_def tx_token_alloc_def id_lock_def id_unlock_def
        tx_pool_ok_def ids_ok_def tx_mutexes_def id_result_scast Let_def add.assoc)
qed

lemma buf_id_alloc_ring_n_0: "rx_pool_ok v s \<Longrightarrow> buf_id_alloc_ring_n v 0 s = ([], s)"
  by (simp add: buf_id_alloc_ring_n_def id_ring_take_def id_lock_def id_unlock_def rx_pool_ok_def
      ids_ok_def)

lemma buf_id_alloc_ring_n_Suc:
  assumes ok: "rx_pool_ok v s"
  shows "buf_id_alloc_ring_n v (Suc n) s =
    (case id_result (buf_id_alloc_ring v s) of
       (None, s') \<Rightarrow> ([], s')
     | (Some i, s') \<Rightarrow> (let (is, s'') = buf_id_alloc_ring_n v n s' in (i # is, s'')))"
proof (cases "widx (bufid_pool s) = idx_next (BUFID_POOL_LAST v) (ridx (bufid_pool s))")
  case True
  then have "take_loop (slots (bufid_pool s)) (BUFID_POOL_LAST v) (c32 (widx (bufid_pool s)))
      (c32 (ridx (bufid_pool s))) (Suc n) = ([], c32 (ridx (bufid_pool s)))"
    using idx32_next_c16 [of "BUFID_POOL_ENTRIES v" "ridx (bufid_pool s)"] ok
    by (simp add: Let_def BUFID_POOL_LAST_def rx_pool_ok_def ids_ok_def ring_ok_def
        take_loop.simps(2))
  then show ?thesis using True ok
    by (simp add: Let_def buf_id_alloc_ring_n_def id_ring_take_def buf_id_alloc_ring_def id_lock_def id_unlock_def
        rx_pool_ok_def ids_ok_def rx_mutexes_def id_result_def)
next
  case False
  let ?r = "ridx (bufid_pool s)"
  have v: "id_valid (slots (bufid_pool s) ! unat ?r)"
    using ok ring_head_valid [of v "BUFID_POOL_ENTRIES v" "bufid_pool s" "[12, 13]" s]
    by (auto simp: rx_pool_ok_def)
  have nx: "idx32_next (BUFID_POOL_LAST v) (c32 ?r) = c32 (idx_next (BUFID_POOL_LAST v) ?r)"
    using idx32_next_c16 [of "BUFID_POOL_ENTRIES v" ?r] ok
    by (simp add: BUFID_POOL_LAST_def rx_pool_ok_def ids_ok_def ring_ok_def)
  obtain ids r where tl: "take_loop (slots (bufid_pool s)) (BUFID_POOL_LAST v) (c32 (widx (bufid_pool s)))
      (c32 (idx_next (BUFID_POOL_LAST v) ?r)) n = (ids, r)"
    by fastforce
  then have "take_loop (slots (bufid_pool s)) (BUFID_POOL_LAST v) (c32 (widx (bufid_pool s))) (c32 ?r) (Suc n)
      = (slots (bufid_pool s) ! unat ?r # ids, r)"
    using False [symmetric] nx by (simp add: Let_def take_loop.simps(2))
  then show ?thesis using False ok tl v
    by (simp add: buf_id_alloc_ring_n_def id_ring_take_def buf_id_alloc_ring_def id_lock_def id_unlock_def
        rx_pool_ok_def ids_ok_def rx_mutexes_def id_result_scast Let_def add.assoc)
qed

lemma tx_alloc_keeps: "tx_pool_ok v s \<Longrightarrow> id_result (tx_token_alloc v s) = (r, s') \<Longrightarrow> tx_pool_ok v s'"
  using tx_pool.alloc_last [of v s] tx_pool.alloc_next [of v s]
  unfolding tx_pool_ok_def by (cases "ring_ids (tx_ring s)" rule: list.exhaust; cases "tl (ring_ids (tx_ring s))") auto

lemma rx_alloc_keeps: "rx_pool_ok v s \<Longrightarrow> id_result (buf_id_alloc_ring v s) = (r, s') \<Longrightarrow> rx_pool_ok v s'"
  using rx_pool.alloc_last [of v s] rx_pool.alloc_next [of v s]
  unfolding rx_pool_ok_def by (cases "ring_ids (bufid_pool s)" rule: list.exhaust; cases "tl (ring_ids (bufid_pool s))") auto

lemma tx_token_alloc_n_eq:
  "tx_pool_ok v s \<Longrightarrow> tx_token_alloc_n v n s = take_ids (tx_token_alloc v) n s"
proof (induction n arbitrary: s)
  case 0
  then show ?case by (simp add: tx_token_alloc_n_0)
next
  case (Suc n)
  then show ?case using tx_alloc_keeps [OF Suc.prems]
    by (auto simp: tx_token_alloc_n_Suc split: prod.splits option.splits)
qed

lemma buf_id_alloc_ring_n_eq:
  "rx_pool_ok v s \<Longrightarrow> buf_id_alloc_ring_n v n s = take_ids (buf_id_alloc_ring v) n s"
proof (induction n arbitrary: s)
  case 0
  then show ?case by (simp add: buf_id_alloc_ring_n_0)
next
  case (Suc n)
  then show ?case using rx_alloc_keeps [OF Suc.prems]
    by (auto simp: buf_id_alloc_ring_n_Suc split: prod.splits option.splits)
qed

text \<open>A batch return, one id at a time.\<close>

lemma tx_token_free_n_Cons:
  assumes ok: "tx_pool_ok v s"
  shows "tx_token_free_n v [] s = s"
    "tx_token_free_n v (i # ids) s = tx_token_free_n v ids (tx_token_free v i s)"
proof -
  show "tx_token_free_n v [] s = s" using ok
    by (simp add: tx_token_free_n_def id_ring_put_def Let_def id_lock_def id_unlock_def
        tx_pool_ok_def ids_ok_def)
  have "idx32_next TX_FREE_RING_LAST (c32 (widx (tx_ring s))) =
      c32 (idx_next TX_FREE_RING_LAST (widx (tx_ring s)))"
    using idx32_next_c16 [of TX_FREE_RING_ENTRIES "widx (tx_ring s)"] ok
    by (simp add: TX_FREE_RING_LAST_def tx_pool_ok_def ids_ok_def ring_ok_def)
  then show "tx_token_free_n v (i # ids) s = tx_token_free_n v ids (tx_token_free v i s)"
    using ok
    by (simp add: tx_token_free_n_def id_ring_put_def Let_def id_lock_def id_unlock_def
        tx_token_free_def tx_pool_ok_def ids_ok_def tx_mutexes_def add.assoc split: prod.split)
qed

lemma buf_id_return_n_Cons:
  assumes ok: "rx_pool_ok v s"
  shows "buf_id_return_n v [] s = s"
    "buf_id_return_n v (i # ids) s = buf_id_return_n v ids (buf_id_return v i s)"
proof -
  show "buf_id_return_n v [] s = s" using ok
    by (simp add: buf_id_return_n_def id_ring_put_def Let_def id_lock_def id_unlock_def
        rx_pool_ok_def ids_ok_def)
  have "idx32_next (BUFID_POOL_LAST v) (c32 (widx (bufid_pool s))) =
      c32 (idx_next (BUFID_POOL_LAST v) (widx (bufid_pool s)))"
    using idx32_next_c16 [of "BUFID_POOL_ENTRIES v" "widx (bufid_pool s)"] ok
    by (simp add: BUFID_POOL_LAST_def rx_pool_ok_def ids_ok_def ring_ok_def)
  then show "buf_id_return_n v (i # ids) s = buf_id_return_n v ids (buf_id_return v i s)"
    using ok
    by (simp add: buf_id_return_n_def id_ring_put_def Let_def id_lock_def id_unlock_def
        buf_id_return_def rx_free_mutex_def rx_pool_ok_def ids_ok_def rx_mutexes_def add.assoc
        split: prod.split)
qed

lemma tx_free_keeps: "tx_pool_ok v s \<Longrightarrow> id_valid i \<Longrightarrow> tx_pool_ok v (tx_token_free v i s)"
  using tx_pool.free_put [of v s i] ids_ok_put [of v TX_FREE_RING_ENTRIES "tx_ring s" "[3, 4]" s i]
  by (simp add: tx_pool_ok_def)

lemma rx_free_keeps: "rx_pool_ok v s \<Longrightarrow> id_valid i \<Longrightarrow> rx_pool_ok v (buf_id_return v i s)"
  using rx_pool.free_put [of v s i] ids_ok_put [of v "BUFID_POOL_ENTRIES v" "bufid_pool s" "[12, 13]" s i]
  by (simp add: rx_pool_ok_def)

lemma tx_token_free_n_eq:
  "tx_pool_ok v s \<Longrightarrow> \<forall>i \<in> set ids. id_valid i \<Longrightarrow>
   tx_token_free_n v ids s = fold (tx_token_free v) ids s"
  by (induction ids arbitrary: s) (simp_all add: tx_token_free_n_Cons tx_free_keeps)

lemma buf_id_return_n_eq:
  "rx_pool_ok v s \<Longrightarrow> \<forall>i \<in> set ids. id_valid i \<Longrightarrow>
   buf_id_return_n v ids s = fold (buf_id_return v) ids s"
  by (induction ids arbitrary: s) (simp_all add: buf_id_return_n_Cons rx_free_keeps)

section \<open>Client runs\<close>

text \<open>
  Events of the users of a pool: \<open>None\<close> allocates, \<open>Some k\<close> returns the \<open>k\<close>-th id
  they hold. The ids they hold are kept beside the state.
\<close>

fun id_client :: "('s \<Rightarrow> s32 \<times> 's) \<Rightarrow> (u16 \<Rightarrow> 's \<Rightarrow> 's) \<Rightarrow> nat option list \<Rightarrow> u16 list \<times> 's \<Rightarrow>
    u16 list \<times> 's" where
  "id_client al fr [] os = os"
| "id_client al fr (None # es) (out, s) =
     (case id_result (al s) of
        (None, s') \<Rightarrow> id_client al fr es (out, s')
      | (Some i, s') \<Rightarrow> id_client al fr es (out @ [i], s'))"
| "id_client al fr (Some k # es) (out, s) =
     (if k < length out
      then id_client al fr es (take k out @ drop (Suc k) out, fr (out ! k) s)
      else id_client al fr es (out, s))"

context ring_ops begin

lemma client_eq: "client es os = id_client alloc free es os"
proof (induction es arbitrary: os)
  case Nil
  then show ?case by simp
next
  case (Cons e es)
  then show ?case by (cases os; cases e) (auto split: prod.split option.split)
qed

lemma pool_run:
  assumes "ids_ok v n (q s) ms s" "base s" "distinct (ring_ids (q s))"
    "id_client alloc free es ([], s) = (out, s')"
  shows "distinct (ring_ids (q s') @ out)" "set (ring_ids (q s')) \<union> set out = set (ring_ids (q s))"
  using client_distinct [of s es out s'] assms by (auto simp: client_eq)

end

section \<open>The pools as initialised\<close>

lemma of_nat_u16_eq: "i < 65536 \<Longrightarrow> j < 65536 \<Longrightarrow> (of_nat i :: u16) = of_nat j \<longleftrightarrow> i = j"
  by (simp add: word_unat_eq_iff unat_of_nat)

lemma distinct_of_nat_u16: "n \<le> 65536 \<Longrightarrow> distinct (map (of_nat :: nat \<Rightarrow> u16) [0..<n])"
  by (auto simp: distinct_map inj_on_def of_nat_u16_eq)

lemma id_valid_of_nat: "i < 32768 \<Longrightarrow> id_valid (of_nat i)"
  by (simp add: id_valid_def unat_of_nat)

lemma ring_ok_init:
  "1 < n \<Longrightarrow> n \<le> 32768 \<Longrightarrow> length (slots q) = n \<Longrightarrow> ridx q = 0 \<Longrightarrow> unat (widx q) < n \<Longrightarrow> ring_ok n q"
  by (simp add: ring_ok_def)

lemma rx_init_ok:
  assumes "id_mtx s = mutexes_free"
  shows "rx_pool_ok v (bufid_fields_init v s)"
    "ring_ids (bufid_pool (bufid_fields_init v s)) = map of_nat [0..<BUFID_POOL_ENTRIES v]"
  using BUFID_POOL_ENTRIES_bounds [of v] assms
  by (auto simp: rx_pool_ok_def ids_ok_def bufid_fields_init_def rx_mutexes_def 
      id_valid_of_nat ring_ids_full intro!: ring_ok_init)

lemma TX_TOKEN_IDS_bounds: "13056 \<le> TX_TOKEN_IDS v" "TX_TOKEN_IDS v \<le> 13312"
  by (auto simp: bufid_consts)

lemma tx_tokens_init_sel [simp]:
  "tx_ring (tx_tokens_init v s) =
     \<lparr>slots = map of_nat [0..<TX_TOKEN_IDS v] @ replicate (TX_FREE_RING_ENTRIES - TX_TOKEN_IDS v) 0,
      ridx = 0, widx = (if TX_TOKEN_IDS v = TX_FREE_RING_ENTRIES then 0 else of_nat (TX_TOKEN_IDS v))\<rparr>"
  "bufid_pool (tx_tokens_init v s) = bufid_pool s" "id_mtx (tx_tokens_init v s) = id_mtx s"
  "tx_token_alloc_mutex (tx_tokens_init v s) = tx_token_alloc_mutex s"
  "tx_token_free_mutex (tx_tokens_init v s) = tx_token_free_mutex s"
  "rx_mutexes (tx_tokens_init v s) = rx_mutexes s" "tx_mutexes (tx_tokens_init v s) = tx_mutexes s"
  by (simp_all add: tx_tokens_init_def tx_jumbo_reset_def Let_def rx_mutexes_def tx_mutexes_def)

lemma tx_init_ok:
  assumes "id_mtx s = mutexes_free"
  shows "tx_pool_ok v (tx_tokens_init v (bufid_fields_init v s))"
    "ring_ids (tx_ring (tx_tokens_init v (bufid_fields_init v s))) = map of_nat [0..<TX_TOKEN_IDS v]"
proof -
  note b = TX_TOKEN_IDS_bounds [of v]
  have n: "TX_FREE_RING_ENTRIES = 13312" by (simp add: bufid_consts)
  show "tx_pool_ok v (tx_tokens_init v (bufid_fields_init v s))"
    using b assms n
    by (auto simp: tx_pool_ok_def ids_ok_def tx_mutexes_def bufid_fields_init_def id_valid_of_nat
        unat_of_nat id_valid_def intro!: ring_ok_init)
  show "ring_ids (tx_ring (tx_tokens_init v (bufid_fields_init v s))) = map of_nat [0..<TX_TOKEN_IDS v]"
  proof (cases "TX_TOKEN_IDS v = TX_FREE_RING_ENTRIES")
    case True
    then show ?thesis by (simp add: ring_ids_full)
  next
    case False
    then show ?thesis using b n ring_ids_prefix [of "TX_TOKEN_IDS v" "tx_ring (tx_tokens_init v s)" for s]
      by simp
  qed
qed

lemma bufid_pool_init_state:
  assumes "bufid_pool_init v (m, s) = Inr (m', s')"
  shows "s' = (if v_soc v = AN7552 then bufid_fields_init v s
               else tx_tokens_init v (bufid_fields_init v s))"
  using assms by (auto simp: bufid_pool_init_def Let_def split: sum.splits prod.splits)

lemma bufid_pool_init_ok:
  assumes "bufid_pool_init v (m, s) = Inr (m', s')" "id_mtx s = mutexes_free"
  shows "rx_pool_ok v s'" "ring_ids (bufid_pool s') = map of_nat [0..<BUFID_POOL_ENTRIES v]"
    and "v_soc v \<noteq> AN7552 \<Longrightarrow> tx_pool_ok v s'"
    and "v_soc v \<noteq> AN7552 \<Longrightarrow> ring_ids (tx_ring s') = map of_nat [0..<TX_TOKEN_IDS v]"
  using bufid_pool_init_state [OF assms(1)] rx_init_ok [OF assms(2), of v] tx_init_ok [OF assms(2), of v]
  by (auto simp: rx_pool_ok_def ids_ok_def )

section \<open>The jumbo stack\<close>

definition jumbo_ok :: "bufids \<Rightarrow> bool" where
  "jumbo_ok s \<longleftrightarrow> length (tx_jumbo_stack s) = TX_JUMBO_PAIRS \<and> unat (tx_jumbo_top s) \<le> TX_JUMBO_PAIRS"

definition jumbo_free :: "bufids \<Rightarrow> u16 list" where
  "jumbo_free s = take (unat (tx_jumbo_top s)) (tx_jumbo_stack s)"

lemma id_result_c32: "id_result (c32 (i :: u16), s) = (Some i, s)"
proof -
  have "unat (- 1 :: u32) = 4294967295" by (simp add: unsigned_minus_1_eq_mask mask_eq_exp_minus_1)
  then have "unat (c32 i) \<noteq> unat (- 1 :: u32)" using unat_lt16 [of i] by simp
  then have "c32 i \<noteq> - 1" by metis
  then show ?thesis by (simp add: id_result_def)
qed

lemma jumbo_alloc_step:
  assumes "jumbo_ok s"
  shows "(jumbo_free s = [] \<longrightarrow> id_result (tx_jumbo_alloc s) = (None, s)) \<and>
    (jumbo_free s \<noteq> [] \<longrightarrow> (\<exists>s'. id_result (tx_jumbo_alloc s) = (Some (last (jumbo_free s)), s') \<and>
       jumbo_ok s' \<and> jumbo_free s' = butlast (jumbo_free s)))"
proof (cases "tx_jumbo_top s = 0")
  case True
  then show ?thesis by (simp add: tx_jumbo_alloc_def jumbo_free_def id_result_def)
next
  case False
  then obtain k where k: "unat (tx_jumbo_top s) = Suc k" by (metis not0_implies_Suc unat_eq_zero)
  then have t: "unat (tx_jumbo_top s - 1) = k" using False by (simp add: unat_minus_one)
  have len: "k < length (tx_jumbo_stack s)" using assms k by (simp add: jumbo_ok_def)
  have free: "jumbo_free s = take k (tx_jumbo_stack s) @ [tx_jumbo_stack s ! k]"
    using k len by (simp add: jumbo_free_def take_Suc_conv_app_nth)
  have "id_result (tx_jumbo_alloc s) =
      (Some (tx_jumbo_stack s ! k), s\<lparr>tx_jumbo_top := tx_jumbo_top s - 1\<rparr>)"
    using False t by (simp add: tx_jumbo_alloc_def Let_def id_result_c32)
  then show ?thesis using free t assms k by (auto simp: jumbo_ok_def jumbo_free_def)
qed

lemma jumbo_free_step:
  assumes "jumbo_ok s" "length (jumbo_free s) < TX_JUMBO_PAIRS"
  shows "jumbo_ok (tx_jumbo_free i s)" "jumbo_free (tx_jumbo_free i s) = jumbo_free s @ [i]"
proof -
  let ?t = "unat (tx_jumbo_top s)"
  have t: "?t < TX_JUMBO_PAIRS" using assms by (simp add: jumbo_ok_def jumbo_free_def)
  then have lt: "tx_jumbo_top s < of_nat TX_JUMBO_PAIRS"
    by (simp add: word_less_nat_alt TX_JUMBO_PAIRS_def)
  have nx: "unat (tx_jumbo_top s + 1) = Suc ?t"
    using t unat_add_small [of "tx_jumbo_top s" 1] by (simp add: TX_JUMBO_PAIRS_def)
  show "jumbo_ok (tx_jumbo_free i s)" "jumbo_free (tx_jumbo_free i s) = jumbo_free s @ [i]"
    using assms(1) t lt nx
    by (auto simp: jumbo_ok_def jumbo_free_def tx_jumbo_free_def Let_def take_Suc_conv_app_nth)
qed

lemma jumbo_run:
  assumes "jumbo_ok s" "length (jumbo_free s) + length out \<le> TX_JUMBO_PAIRS"
    "id_client tx_jumbo_alloc tx_jumbo_free es (out, s) = (out', s')"
  shows "jumbo_ok s' \<and> mset (jumbo_free s') + mset out' = mset (jumbo_free s) + mset out"
  using assms
proof (induction es arbitrary: out s)
  case Nil
  then show ?case by simp
next
  case (Cons e es)
  show ?case
  proof (cases e)
    case None
    show ?thesis
    proof (cases "jumbo_free s" rule: rev_cases)
      case Nil
      then show ?thesis using jumbo_alloc_step [OF Cons.prems(1)] Cons.IH [of s out] Cons.prems None
        by simp
    next
      case (snoc js i)
      then obtain s1 where s1: "id_result (tx_jumbo_alloc s) = (Some i, s1)" "jumbo_ok s1"
          "jumbo_free s1 = js"
        using jumbo_alloc_step [OF Cons.prems(1)] by auto
      then show ?thesis using Cons.IH [of s1 "out @ [i]"] Cons.prems None snoc by auto
    qed
  next
    case (Some k)
    show ?thesis
    proof (cases "k < length out")
      case True
      have room: "length (jumbo_free s) < TX_JUMBO_PAIRS" using Cons.prems(2) True by linarith
      show ?thesis
        using Cons.IH [of "tx_jumbo_free (out ! k) s" "take k out @ drop (Suc k) out"]
          Cons.prems True Some jumbo_free_step [OF Cons.prems(1) room, of "out ! k"]
          mset_remove_nth [OF True] by (auto simp: ac_simps)
    next
      case False
      then show ?thesis using Cons.IH [of s out] Cons.prems Some by simp
    qed
  qed
qed

section \<open>The rebuilt token ring\<close>

lemma collect_ring_ok:
  "n + length is \<le> length out \<Longrightarrow> n + length is \<le> maxn \<Longrightarrow>
   \<exists>out'. collect_ring token is maxn (out, n) = Inr (out', n + length is) \<and>
     length out' = length out \<and> take (n + length is) out' = take n out @ map token is"
proof (induction "is" arbitrary: out n)
  case Nil
  then show ?case by auto
next
  case (Cons i "is")
  obtain out' where "collect_ring token is maxn (out[n := token i], Suc n) = Inr (out', Suc n + length is)"
      "length out' = length out"
      "take (Suc n + length is) out' = take (Suc n) (out[n := token i]) @ map token is"
    using Cons.IH [of "Suc n" "out[n := token i]"] Cons.prems by auto
  then show ?case using Cons.prems by (auto simp: take_Suc_conv_app_nth)
qed

text \<open>The tokens of the TDMA rx descriptors, in ring order.\<close>

definition parked :: "(nat \<Rightarrow> nat \<Rightarrow> u16) \<Rightarrow> u16 list" where
  "parked token = concat (map (\<lambda>ring. map (token ring) [0..<TDMA_RX_RING_DESCS]) [0..<TDMA_RX_RINGS])"

lemma length_parked: "length (parked token) = TDMA_RX_ID_ENTRIES"
  by (simp add: parked_def TDMA_RX_RINGS_def TDMA_RX_RING_DESCS_def TDMA_RX_ID_ENTRIES_def
      numeral_2_eq_2)

lemma collect_bufids:
  assumes "length out = TDMA_RX_ID_ENTRIES"
  shows "tdma_rx_collect_bufids token out TDMA_RX_ID_ENTRIES = Inr (parked token, TDMA_RX_ID_ENTRIES)"
proof -
  let ?n = "TDMA_RX_RING_DESCS"
  have e: "TDMA_RX_ID_ENTRIES = ?n + ?n" "[0..<TDMA_RX_RINGS] = [0, 1]"
    by (simp_all add: bufid_consts TDMA_RX_RINGS_def TDMA_RX_RING_DESCS_def numeral_2_eq_2)
  obtain o1 where o1: "collect_ring (token 0) [0..<?n] TDMA_RX_ID_ENTRIES (out, 0) = Inr (o1, ?n)"
      "length o1 = length out" "take ?n o1 = map (token 0) [0..<?n]"
    using collect_ring_ok [of 0 "[0..<?n]" out TDMA_RX_ID_ENTRIES "token 0"] assms e by auto
  obtain o2 where o2: "collect_ring (token 1) [0..<?n] TDMA_RX_ID_ENTRIES (o1, ?n) = Inr (o2, ?n + ?n)"
      "length o2 = length out" "take (?n + ?n) o2 = take ?n o1 @ map (token 1) [0..<?n]"
    using collect_ring_ok [of ?n "[0..<?n]" o1 TDMA_RX_ID_ENTRIES "token 1"] assms e o1(2) by auto
  have "o2 = parked token" using o1(3) o2(2,3) assms e by (simp add: parked_def)
  then show ?thesis using o1 o2 e by (simp add: tdma_rx_collect_bufids_def)
qed

lemma mark_in_rx_ok:
  "\<forall>i \<in> set ids. unat i < length state \<Longrightarrow>
   \<exists>state'. mark_in_rx state ids = Inr state' \<and> length state' = length state \<and>
     (\<forall>j<length state. state' ! j = (if j \<in> unat ` set ids then TX_BUF_STATE_IN_RX else state ! j))"
proof (induction ids arbitrary: state)
  case Nil
  then show ?case by simp
next
  case (Cons i ids)
  then obtain state' where "mark_in_rx (state[unat i := TX_BUF_STATE_IN_RX]) ids = Inr state'"
      "length state' = length state"
      "\<forall>j<length state. state' ! j = (if j \<in> unat ` set ids then TX_BUF_STATE_IN_RX
         else state[unat i := TX_BUF_STATE_IN_RX] ! j)"
    using Cons.IH [of "state[unat i := TX_BUF_STATE_IN_RX]"] by auto
  then show ?case using Cons.prems by (auto simp: nth_list_update)
qed

lemma skip_in_rx_to:
  "i \<le> j \<Longrightarrow> \<forall>k. i \<le> k \<and> k < j \<longrightarrow> state ! k = TX_BUF_STATE_IN_RX \<Longrightarrow> j \<le> TX_FREE_RING_LAST \<Longrightarrow>
   j < TX_FREE_RING_LAST \<longrightarrow> state ! j \<noteq> TX_BUF_STATE_IN_RX \<Longrightarrow> skip_in_rx state i = j"
proof (induction state i rule: skip_in_rx.induct)
  case (1 state i)
  show ?case
  proof (cases "i = j")
    case True
    then show ?thesis using "1.prems" by (subst skip_in_rx.simps) auto
  next
    case False
    then have c: "i < TX_FREE_RING_LAST \<and> state ! i = TX_BUF_STATE_IN_RX" using "1.prems" by auto
    then have "skip_in_rx state (i + 1) = j" using 1 False by auto
    then show ?thesis using c by (simp add: skip_in_rx.simps [of state i])
  qed
qed

lemma skip_in_rx_past:
  "i \<le> t \<Longrightarrow> t \<le> TX_FREE_RING_LAST \<Longrightarrow>
   \<forall>k. i \<le> k \<and> k < t \<longrightarrow> state ! k = TX_BUF_STATE_IN_RX \<Longrightarrow> t \<le> skip_in_rx state i"
proof (induction state i rule: skip_in_rx.induct)
  case (1 state i)
  show ?case
  proof (cases "i < t")
    case True
    then have c: "i < TX_FREE_RING_LAST \<and> state ! i = TX_BUF_STATE_IN_RX" using "1.prems" by auto
    then have "t \<le> skip_in_rx state (i + 1)" using 1 True by auto
    then show ?thesis using c by (simp add: skip_in_rx.simps [of state i])
  next
    case False
    have "i \<le> skip_in_rx state i" for i
      by (induction state i rule: skip_in_rx.induct) (subst skip_in_rx.simps, auto)
    then show ?thesis using False "1.prems"(1) by (metis le_antisym not_less)
  qed
qed

definition not_in_rx :: "u16 list \<Rightarrow> nat \<Rightarrow> nat \<Rightarrow> nat list" where
  "not_in_rx state t i = filter (\<lambda>j. state ! j \<noteq> TX_BUF_STATE_IN_RX) [i..<t]"

lemma not_in_rx_Cons:
  assumes "not_in_rx state t i = j # js"
  shows "i \<le> j" "j < t" "state ! j \<noteq> TX_BUF_STATE_IN_RX"
    "\<forall>k. i \<le> k \<and> k < j \<longrightarrow> state ! k = TX_BUF_STATE_IN_RX" "not_in_rx state t (Suc j) = js"
proof -
  obtain us vs where uv: "[i..<t] = us @ j # vs" "\<forall>k \<in> set us. \<not> state ! k \<noteq> TX_BUF_STATE_IN_RX"
      "state ! j \<noteq> TX_BUF_STATE_IN_RX" "js = filter (\<lambda>j. state ! j \<noteq> TX_BUF_STATE_IN_RX) vs"
    using assms by (auto simp: not_in_rx_def filter_eq_Cons_iff)
  have len: "length us < t - i" using arg_cong [OF uv(1), of length] by simp
  have j: "j = i + length us" using uv(1) len by (metis nth_append_length nth_upt add.commute less_diff_conv)
  have us: "us = [i..<j]"
    using uv(1) len j by (metis append_eq_conv_conj take_upt less_imp_le add.commute less_diff_conv)
  have vs: "vs = [Suc j..<t]"
    using uv(1) len j us
    by (metis append_eq_conv_conj drop_upt drop_Suc_Cons drop_drop drop0 length_upt add_diff_cancel_left'
        plus_1_eq_Suc add.commute list.sel(3) tl_drop tl_upt)
  show "i \<le> j" "j < t" "state ! j \<noteq> TX_BUF_STATE_IN_RX" using j len uv(3) by auto
  show "\<forall>k. i \<le> k \<and> k < j \<longrightarrow> state ! k = TX_BUF_STATE_IN_RX" using uv(2) us by auto
  show "not_in_rx state t (Suc j) = js" using uv(4) vs by (simp add: not_in_rx_def)
qed

lemma fill_free:
  assumes "length ring = TX_FREE_RING_ENTRIES" "in_rx \<le> w" "not_in_rx state (TX_TOKEN_IDS v) i = js"
    "w + length js \<le> TX_FREE_RING_ENTRIES" "i \<le> TX_TOKEN_IDS v"
    "\<not> HAS_EAGLE_TX_JUMBO v \<Longrightarrow> w + length js = TX_FREE_RING_ENTRIES"
  shows "\<exists>ring'. fill_ring v rx_ids in_rx state w i ring = (ring', w + length js) \<and>
    length ring' = length ring \<and> take (w + length js) ring' = take w ring @ map of_nat js \<and>
    ((\<forall>x \<in> set ring. id_valid x) \<longrightarrow> (\<forall>x \<in> set ring'. id_valid x))"
  using assms
proof (induction js arbitrary: w i ring)
  case Nil
  have all: "\<forall>k. i \<le> k \<and> k < TX_TOKEN_IDS v \<longrightarrow> state ! k = TX_BUF_STATE_IN_RX"
    using Nil.prems(3) by (auto simp: not_in_rx_def filter_empty_conv)
  have "fill_ring v rx_ids in_rx state w i ring = (ring, w)"
  proof (cases "w < TX_FREE_RING_ENTRIES")
    case True
    then have j: "HAS_EAGLE_TX_JUMBO v" using Nil.prems(6) by auto
    then have "TX_TOKEN_IDS v \<le> skip_in_rx state i"
      using all Nil.prems(5) by (intro skip_in_rx_past) (auto simp: bufid_consts)
    then show ?thesis using j True Nil.prems(2) by (simp add: fill_ring.simps [of v rx_ids in_rx state w])
  next
    case False
    then show ?thesis by (simp add: fill_ring.simps)
  qed
  then show ?case by simp
next
  case (Cons j js)
  note n = not_in_rx_Cons [OF Cons.prems(3)]
  have t: "TX_TOKEN_IDS v \<le> Suc TX_FREE_RING_LAST" by (simp add: bufid_consts)
  have skip: "skip_in_rx state i = j" using n t by (intro skip_in_rx_to) auto
  have w: "w < TX_FREE_RING_ENTRIES" using Cons.prems(4) by simp
  have step: "fill_ring v rx_ids in_rx state w i ring =
      fill_ring v rx_ids in_rx state (Suc w) (Suc j) (ring[w := of_nat j])"
    using skip w n(2) Cons.prems(2)
    by (subst fill_ring.simps) (simp add: Let_def)
  have v: "id_valid (of_nat j)" using n(2) TX_TOKEN_IDS_bounds(2) [of v] by (intro id_valid_of_nat) linarith
  obtain ring' where r: "fill_ring v rx_ids in_rx state (Suc w) (Suc j) (ring[w := of_nat j]) =
        (ring', Suc w + length js)" "length ring' = length ring"
      "take (Suc w + length js) ring' = take (Suc w) (ring[w := of_nat j]) @ map of_nat js"
      "(\<forall>x \<in> set (ring[w := of_nat j]). id_valid x) \<longrightarrow> (\<forall>x \<in> set ring'. id_valid x)"
    using Cons.IH [of "ring[w := of_nat j]" "Suc w" "Suc j"] Cons.prems n(2,5) by auto
  have v': "(\<forall>x \<in> set ring. id_valid x) \<longrightarrow> (\<forall>x \<in> set (ring[w := of_nat j]). id_valid x)"
    using v set_update_subset_insert [of ring w "of_nat j"] by blast
  show ?case
  proof (intro exI conjI)
    show "fill_ring v rx_ids in_rx state w i ring = (ring', w + length (j # js))"
      by (simp add: step r(1))
    show "length ring' = length ring" by (fact r(2))
    show "take (w + length (j # js)) ring' = take w ring @ map of_nat (j # js)"
      using r(3) w Cons.prems(1) by (simp add: take_Suc_conv_app_nth)
    show "(\<forall>x \<in> set ring. id_valid x) \<longrightarrow> (\<forall>x \<in> set ring'. id_valid x)" using v' r(4) by blast
  qed
qed

lemma fill_parked:
  assumes "\<forall>k<in_rx. rx_ids ! k \<noteq> 0xFFFF \<and> id_valid (rx_ids ! k)" "in_rx \<le> TX_FREE_RING_ENTRIES"
    "w \<le> in_rx" "length ring = TX_FREE_RING_ENTRIES"
  shows "\<exists>ring'. fill_ring v rx_ids in_rx state w i ring = fill_ring v rx_ids in_rx state in_rx i ring' \<and>
    length ring' = length ring \<and> ((\<forall>x \<in> set ring. id_valid x) \<longrightarrow> (\<forall>x \<in> set ring'. id_valid x))"
  using assms
proof (induction "in_rx - w" arbitrary: w ring)
  case 0
  then show ?case by auto
next
  case (Suc k)
  have w: "w < in_rx" using Suc.hyps(2) by simp
  have step: "fill_ring v rx_ids in_rx state w i ring =
      fill_ring v rx_ids in_rx state (Suc w) i (ring[w := rx_ids ! w])"
    using w Suc.prems by (subst fill_ring.simps) simp
  have v: "(\<forall>x \<in> set ring. id_valid x) \<longrightarrow> (\<forall>x \<in> set (ring[w := rx_ids ! w]). id_valid x)"
    using w Suc.prems(1) set_update_subset_insert [of ring w "rx_ids ! w"] by auto
  have "k = in_rx - Suc w" using Suc.hyps(2) by simp
  then obtain ring' where r: "fill_ring v rx_ids in_rx state (Suc w) i (ring[w := rx_ids ! w]) =
        fill_ring v rx_ids in_rx state in_rx i ring'" "length ring' = length ring"
      "(\<forall>x \<in> set (ring[w := rx_ids ! w]). id_valid x) \<longrightarrow> (\<forall>x \<in> set ring'. id_valid x)"
    using Suc.hyps(1) [of "Suc w" "ring[w := rx_ids ! w]"] Suc.prems w by auto
  show ?case
  proof (intro exI conjI)
    show "fill_ring v rx_ids in_rx state w i ring = fill_ring v rx_ids in_rx state in_rx i ring'"
      by (simp only: step r(1))
    show "length ring' = length ring" by (fact r(2))
    show "(\<forall>x \<in> set ring. id_valid x) \<longrightarrow> (\<forall>x \<in> set ring'. id_valid x)" using v r(3) by blast
  qed
qed

lemma not_in_rx_marked:
  assumes "distinct ids" "\<forall>i \<in> set ids. unat i < t" "t \<le> length state"
    "\<forall>j<length state. state ! j = (if j \<in> unat ` set ids then TX_BUF_STATE_IN_RX else 0)"
  shows "not_in_rx state t 0 = filter (\<lambda>j. j \<notin> unat ` set ids) [0..<t]"
    "length (not_in_rx state t 0) + length ids = t"
proof -
  show e: "not_in_rx state t 0 = filter (\<lambda>j. j \<notin> unat ` set ids) [0..<t]"
    unfolding not_in_rx_def using assms(3,4)
    by (intro filter_cong) (auto simp: TX_BUF_STATE_IN_RX_def)
  have "set (filter (\<lambda>j. j \<in> unat ` set ids) [0..<t]) = unat ` set ids" using assms(2) by auto
  then have "length (filter (\<lambda>j. j \<in> unat ` set ids) [0..<t]) = card (unat ` set ids)"
    by (metis distinct_card distinct_filter distinct_upt)
  also have "\<dots> = length ids"
  proof -
    have "inj_on unat (set ids)" by (intro inj_onI) (simp add: word_unat_eq_iff)
    then show ?thesis using assms(1) by (simp add: card_image distinct_card)
  qed
  finally show "length (not_in_rx state t 0) + length ids = t"
    using sum_length_filter_compl [of "\<lambda>j. j \<in> unat ` set ids" "[0..<t]"] e by simp
qed

lemma ring_ids_behind:
  assumes "length xs = n" "r + k = m" "m \<le> n" "0 < k" "0 < r" "n < 65536"
  shows "ring_ids \<lparr>slots = xs, ridx = of_nat r, widx = (if m = n then 0 else of_nat m)\<rparr> =
    take k (drop r xs)"
  using assms
  by (auto simp: ring_ids_def ring_segment_def ring_fill_def unat_of_nat intro!: nth_equalityI)

text \<open>The rebuild, when the descriptors hold different tokens of the ring's range.\<close>

lemma force_reset_state:
  assumes ok: "tx_pool_ok v s" and d: "distinct (parked token)"
    and t: "\<forall>i \<in> set (parked token). unat i < TX_TOKEN_IDS v"
  shows "\<exists>s'. np_skb_tx_force_reset v token s = Inr s' \<and> tx_pool_ok v s' \<and> id_mtx s' = id_mtx s \<and>
    ring_ids (tx_ring s') =
      map of_nat (filter (\<lambda>j. j \<notin> unat ` set (parked token)) [0..<TX_TOKEN_IDS v])"
proof -
  let ?ids = "parked token" and ?n = TX_FREE_RING_ENTRIES and ?k = TDMA_RX_ID_ENTRIES
  note b = TX_TOKEN_IDS_bounds [of v]
  have n: "?n = 13312" "?k = 2048" by (simp_all add: bufid_consts)
  have sl: "length (slots (tx_ring s)) = ?n" "\<forall>x \<in> set (slots (tx_ring s)). id_valid x"
    using ok by (auto simp: tx_pool_ok_def ids_ok_def ring_ok_def)
  obtain state where st: "mark_in_rx (replicate ?n 0) ?ids = Inr state" "length state = ?n"
      "\<forall>j<?n. state ! j = (if j \<in> unat ` set ?ids then TX_BUF_STATE_IN_RX else 0)"
    using mark_in_rx_ok [of ?ids "replicate ?n 0"] t b n by force
  define js where "js = not_in_rx state (TX_TOKEN_IDS v) 0"
  have js: "js = filter (\<lambda>j. j \<notin> unat ` set ?ids) [0..<TX_TOKEN_IDS v]"
      "length js + ?k = TX_TOKEN_IDS v"
    using not_in_rx_marked [OF d t, of state] st b n length_parked [of token] by (auto simp: js_def)
  have pk: "\<forall>k<?k. ?ids ! k \<noteq> 0xFFFF \<and> id_valid (?ids ! k)"
  proof (intro allI impI)
    fix k assume "k < ?k"
    then have "unat (?ids ! k) < 13312" using t b length_parked [of token] by (metis nth_mem order_less_le_trans)
    then show "?ids ! k \<noteq> 0xFFFF \<and> id_valid (?ids ! k)" by (auto simp: id_valid_def)
  qed
  obtain r1 where r1: "fill_ring v ?ids ?k state 0 0 (slots (tx_ring s)) = fill_ring v ?ids ?k state ?k 0 r1"
      "length r1 = ?n" "\<forall>x \<in> set r1. id_valid x"
    using fill_parked [OF pk _ _ sl(1), of 0 v state 0] sl n by auto
  have w: "?k + length js = TX_TOKEN_IDS v" using js(2) by simp
  have nj: "\<not> HAS_EAGLE_TX_JUMBO v \<Longrightarrow> TX_TOKEN_IDS v = ?n" by (simp add: TX_TOKEN_IDS_def)
  obtain r2 where r2: "fill_ring v ?ids ?k state ?k 0 r1 = (r2, TX_TOKEN_IDS v)" "length r2 = ?n"
      "take (TX_TOKEN_IDS v) r2 = take ?k r1 @ map of_nat js" "\<forall>x \<in> set r2. id_valid x"
    using fill_free [OF r1(2) order_refl js_def [symmetric], of ?k ?ids] w b n r1 nj by auto
  define q where "q = \<lparr>slots = r2, ridx = of_nat ?k,
    widx = (if TX_TOKEN_IDS v = ?n then 0 else of_nat (TX_TOKEN_IDS v))\<rparr>"
  have "ring_ids q = take (length js) (drop ?k r2)"
    unfolding q_def using w b n by (intro ring_ids_behind [OF r2(2)]) auto
  also have "\<dots> = map of_nat js"
    using arg_cong [OF r2(3), of "drop ?k"] n r1(2) by (simp add: drop_take w [symmetric])
  finally have qi: "ring_ids q = map of_nat js" .
  have "unat (widx q) < ?n" using b n by (auto simp: q_def unat_of_nat)
  then have qok: "ring_ok ?n q" using r2(2) n by (auto simp: ring_ok_def q_def unat_of_nat)
  have off: "hw_mutex_off v 3 \<noteq> hw_mutex_off v 4" by (simp add: hw_mutex_off_eq_iff)
  have "\<exists>s'. np_skb_tx_force_reset v token s = Inr s' \<and> tx_ring s' = q \<and> id_mtx s' = id_mtx s \<and>
      tx_mutexes s'"
    using ok r1(1) r2(1) st(1) nj collect_bufids [of "replicate ?k 0xFFFF" token] off
    by (cases "HAS_EAGLE_TX_JUMBO v")
      (simp_all add: np_skb_tx_force_reset_def tx_pool_ok_def ids_ok_def tx_mutexes_def Let_def
        q_def length_parked tx_jumbo_reset_def)
  then obtain s' where s': "np_skb_tx_force_reset v token s = Inr s'" "tx_ring s' = q"
      "id_mtx s' = id_mtx s" "tx_mutexes s'"
    by blast
  have "tx_pool_ok v s'"
    using s' qok ok r2(4) by (simp add: tx_pool_ok_def ids_ok_def) (simp add: q_def)
  then show ?thesis using s' qi js(1) by auto
qed

section \<open>Properties\<close>

text \<open>
  C4. From the pools as \<open>bufid_pool_init\<close> leaves them, no run of rx id allocations and
  returns ever has one id with two owners or loses one: the ids in the ring and the ids held by
  users are together the ids \<open>0 \<dots> BUFID_POOL_ENTRIES - 1\<close>, each exactly once.
\<close>

theorem rx_ids_conserved:
  assumes "bufid_pool_init v (m, s) = Inr (m', s1)" "id_mtx s = mutexes_free"
    "id_client (buf_id_alloc_ring v) (buf_id_return v) es ([], s1) = (out, s')"
  shows "distinct (ring_ids (bufid_pool s') @ out) \<and>
    set (ring_ids (bufid_pool s')) \<union> set out = of_nat ` {0..<BUFID_POOL_ENTRIES v}"
proof -
  note i = bufid_pool_init_ok [OF assms(1,2)]
  have "distinct (ring_ids (bufid_pool s1))"
    using i(2) BUFID_POOL_ENTRIES_bounds [of v] by (simp add: distinct_of_nat_u16)
  then show ?thesis
    using rx_pool.pool_run [OF _ _ _ assms(3)] i(1,2) by (auto simp: rx_pool_ok_def)
qed

definition bufids_reset :: bufids where
  "bufids_reset =
     \<lparr>bufid_pool = \<lparr>slots = [], ridx = 0, widx = 0\<rparr>, rx_bufid_alloc_mutex = 0,
      rx_bufid_free_mutex = 0, rx_bufid_alloc_count = 0,
      tx_ring = \<lparr>slots = [], ridx = 0, widx = 0\<rparr>, tx_token_alloc_mutex = 0,
      tx_token_free_mutex = 0, bufid_deq_count = 0, bufid_enq_count = 0, tx_buf_state = [],
      tdma_rx_ids = [], tx_jumbo_stack = [], tx_jumbo_top = 0, buf_mgr_alloc_widx = 0,
      buf_mgr_free_widx = 0, buf_mgr_alloc_cfg = 0, buf_mgr_free_cfg = 0, counter_base_2g = 0,
      counter_base_5g = 0, counter_base_tri = 0, wcid_counter_base_2g = 0,
      wcid_counter_base_5g = 0, cnt_block = (\<lambda>_ _. 0), wifi_debug_flags = 0,
      id_mtx = mutexes_free\<rparr>"

definition an7583_pools :: bufids where
  "an7583_pools = tx_tokens_init an7583_mt7993 (bufid_fields_init an7583_mt7993 bufids_reset)"

lemma bufid_pool_init_an7583:
  "\<exists>m'. bufid_pool_init an7583_mt7993 (sram_buf_init an7583_mt7993 sram_reset, bufids_reset) =
     Inr (m', an7583_pools)"
proof -
  have ok: "sram_ok an7583_mt7993 (sram_buf_init an7583_mt7993 sram_reset)" 
    by (rule sram_ok_init) (simp add: sram_reset_def)
  show ?thesis
    using sram.allocs_result [OF ok, of "[138, 18, 28, 29]"]
    by (auto simp: bufid_pool_init_def sram_allocs_eq an7583_mt7993_def Let_def
        an7583_pools_def)
qed

theorem rx_ids_conserved_witness:
  "\<exists>out s'. id_client (buf_id_alloc_ring an7583_mt7993) (buf_id_return an7583_mt7993)
       [None, None, Some 0, None] ([], an7583_pools) = (out, s') \<and>
     distinct (ring_ids (bufid_pool s') @ out)"
proof -
  obtain m' where m: "bufid_pool_init an7583_mt7993
      (sram_buf_init an7583_mt7993 sram_reset, bufids_reset) = Inr (m', an7583_pools)"
    using bufid_pool_init_an7583 by blast
  obtain out s' where c: "id_client (buf_id_alloc_ring an7583_mt7993) (buf_id_return an7583_mt7993)
      [None, None, Some 0, None] ([], an7583_pools) = (out, s')"
    by (metis surj_pair)
  have "id_mtx bufids_reset = mutexes_free" "v_soc an7583_mt7993 \<noteq> AN7552"
    by (simp_all add: bufids_reset_def an7583_mt7993_def)
  then show ?thesis using rx_ids_conserved [OF m _ c] c by blast
qed

text \<open>
  C5. The same of the tx tokens: ring and users together hold the tokens below
  \<open>TX_TOKEN_IDS\<close>, each once, after any run of single allocations and returns.
\<close>

theorem tx_tokens_conserved:
  assumes "bufid_pool_init v (m, s) = Inr (m', s1)" "id_mtx s = mutexes_free" "v_soc v \<noteq> AN7552"
    "id_client (tx_token_alloc v) (tx_token_free v) es ([], s1) = (out, s')"
  shows "distinct (ring_ids (tx_ring s') @ out) \<and>
    set (ring_ids (tx_ring s')) \<union> set out = of_nat ` {0..<TX_TOKEN_IDS v}"
proof -
  note i = bufid_pool_init_ok(3,4) [OF assms(1,2,3)]
  have "distinct (ring_ids (tx_ring s1))"
    using i(2) TX_TOKEN_IDS_bounds [of v] by (simp add: distinct_of_nat_u16)
  then show ?thesis
    using tx_pool.pool_run [OF _ _ _ assms(4)] i(1,2) by (auto simp: tx_pool_ok_def)
qed

theorem tx_tokens_conserved_witness:
  "\<exists>out s'. id_client (tx_token_alloc an7583_mt7993) (tx_token_free an7583_mt7993)
       [None, None, Some 0, None] ([], an7583_pools) = (out, s') \<and>
     distinct (ring_ids (tx_ring s') @ out)"
proof -
  obtain m' where m: "bufid_pool_init an7583_mt7993
      (sram_buf_init an7583_mt7993 sram_reset, bufids_reset) = Inr (m', an7583_pools)"
    using bufid_pool_init_an7583 by blast
  obtain out s' where c: "id_client (tx_token_alloc an7583_mt7993) (tx_token_free an7583_mt7993)
      [None, None, Some 0, None] ([], an7583_pools) = (out, s')"
    by (metis surj_pair)
  have "id_mtx bufids_reset = mutexes_free" "v_soc an7583_mt7993 \<noteq> AN7552"
    by (simp_all add: bufids_reset_def an7583_mt7993_def)
  then show ?thesis using tx_tokens_conserved [OF m _ _ c] c by blast
qed

text \<open>
  C6. The batch operations are their single forms iterated: the same ids, the same ring, the same
  counts and debug counters, one failure counted when fewer ids than asked for were free.
\<close>

theorem id_batches_iterate:
  assumes "rx_pool_ok v s" "tx_pool_ok v s" "\<forall>i \<in> set ids. id_valid i"
  shows "buf_id_alloc_ring_n v n s = take_ids (buf_id_alloc_ring v) n s \<and>
    tx_token_alloc_n v n s = take_ids (tx_token_alloc v) n s \<and>
    buf_id_return_n v ids s = fold (buf_id_return v) ids s \<and>
    tx_token_free_n v ids s = fold (tx_token_free v) ids s"
  using assms by (simp_all add: buf_id_alloc_ring_n_eq tx_token_alloc_n_eq buf_id_return_n_eq
      tx_token_free_n_eq)

lemma init_pools_ok:
  "rx_pool_ok an7583_mt7993 an7583_pools"
  "tx_pool_ok an7583_mt7993 an7583_pools"
  using bufid_pool_init_an7583 bufid_pool_init_ok(1,3) [of an7583_mt7993 _ bufids_reset]
  by (auto simp: bufids_reset_def an7583_mt7993_def)

theorem id_batches_iterate_witness:
  "\<exists>s. tx_token_alloc_n an7583_mt7993 32 s = take_ids (tx_token_alloc an7583_mt7993) 32 s \<and>
     buf_id_return_n an7583_mt7993 [7, 3] s = fold (buf_id_return an7583_mt7993) [7, 3] s"
  using id_batches_iterate [OF init_pools_ok, of "[7, 3]"] by (auto simp: id_valid_def)

text \<open>
  C7. After \<open>tx_jumbo_reset\<close>, whatever is allocated and returned, the jumbo tokens in use are
  distinct even ids from \<open>TX_JUMBO_FIRST\<close>, so the 4 KB a token covers are its own pair's and
  never a token of the ring.
\<close>

theorem jumbo_tokens_paired:
  assumes "id_client tx_jumbo_alloc tx_jumbo_free es ([], tx_jumbo_reset s) = (out, s')"
  shows "distinct out \<and>
    (\<forall>t \<in> set out. even (unat t) \<and> TX_JUMBO_FIRST \<le> unat t \<and> unat t + 1 < TX_FREE_RING_ENTRIES)"
proof -
  let ?js = "map (\<lambda>i. of_nat (TX_JUMBO_FIRST + 2 * i) :: u16) [0..<TX_JUMBO_PAIRS]"
  have init: "jumbo_ok (tx_jumbo_reset s)" "jumbo_free (tx_jumbo_reset s) = ?js"
    by (simp_all add: jumbo_ok_def jumbo_free_def tx_jumbo_reset_def TX_JUMBO_PAIRS_def)
  have "mset (jumbo_free s' @ out) = mset ?js"
    using jumbo_run [OF init(1) _ assms] init(2) by simp
  then have m: "distinct ?js \<Longrightarrow> distinct out" "set out \<subseteq> set ?js"
    using mset_eq_imp_distinct_iff [of "jumbo_free s' @ out" ?js]
      mset_eq_setD [of "jumbo_free s' @ out" ?js] by auto
  have "distinct ?js"
    by (auto simp: distinct_map inj_on_def of_nat_u16_eq bufid_consts
        simp del: of_nat_add of_nat_mult)
  then have "distinct out" using m by blast
  moreover have "\<forall>t \<in> set out. even (unat t) \<and> TX_JUMBO_FIRST \<le> unat t \<and> unat t + 1 < TX_FREE_RING_ENTRIES"
    using m(2) by (auto simp: unat_of_nat bufid_consts simp del: of_nat_add of_nat_mult)
  ultimately show ?thesis by blast
qed

theorem jumbo_tokens_paired_witness:
  "\<exists>out s'. id_client tx_jumbo_alloc tx_jumbo_free [None, None, Some 0, None]
     ([], tx_jumbo_reset bufids_reset) = (out, s') \<and> distinct out"
proof -
  obtain out s' where "id_client tx_jumbo_alloc tx_jumbo_free [None, None, Some 0, None]
      ([], tx_jumbo_reset bufids_reset) = (out, s')"
    by fastforce
  then show ?thesis using jumbo_tokens_paired by blast
qed

text \<open>
  C8. \<open>np_skb_tx_force_reset\<close>, when the TDMA rx descriptors hold different tokens of the
  ring's range: no store leaves its array, and afterwards the ring holds exactly the other tokens,
  each once and in order, with both mutexes released.
\<close>

theorem force_reset_tokens:
  assumes "tx_pool_ok v s" "distinct (parked token)"
    "\<forall>i \<in> set (parked token). unat i < TX_TOKEN_IDS v"
  shows "\<exists>s'. np_skb_tx_force_reset v token s = Inr s' \<and> tx_pool_ok v s' \<and> id_mtx s' = id_mtx s \<and>
    ring_ids (tx_ring s') =
      map of_nat (filter (\<lambda>j. j \<notin> unat ` set (parked token)) [0..<TX_TOKEN_IDS v])"
  using force_reset_state [OF assms] .

theorem force_reset_tokens_witness:
  "\<exists>s'. np_skb_tx_force_reset an7583_mt7993 (\<lambda>ring i. of_nat (1024 * ring + i))
     an7583_pools = Inr s' \<and>
     tx_pool_ok an7583_mt7993 s'"
proof -
  let ?t = "\<lambda>ring i. of_nat (1024 * ring + i) :: u16"
  have p: "parked ?t = map of_nat [0..<2048]"
  proof (rule nth_equalityI)
    show "length (parked ?t) = length (map of_nat [0..<2048] :: u16 list)"
      by (simp add: length_parked bufid_consts)
  next
    fix i assume "i < length (parked ?t)"
    then show "parked ?t ! i = map of_nat [0..<2048] ! i"
      by (auto simp: length_parked bufid_consts parked_def TDMA_RX_RINGS_def
          TDMA_RX_RING_DESCS_def numeral_2_eq_2 nth_append)
  qed
  have "\<forall>i \<in> set (parked ?t). unat i < TX_TOKEN_IDS an7583_mt7993"
    using TX_TOKEN_IDS_bounds(1) [of an7583_mt7993] unfolding p by (auto simp: unat_of_nat)
  then show ?thesis
    using force_reset_tokens [OF init_pools_ok(2), of ?t] distinct_of_nat_u16 [of 2048] p by auto
qed

end
