(* ===== verification/Staq.thy ===== *)
theory Staq
  imports Sram Util
begin

text \<open>
  \<open>npu_sta_q.c\<close> and its inline hooks of \<open>npu_internal.h\<close>: the frames each station has in
  the WiFi chip, counted by the tokens that carry them, one timed frame per station, and the drop
  decision against a hard limit and against a standing queue.

  The tables live in SRAM block 41; here they are lists, and the map is \<open>None\<close> while its pointer
  is NULL. An empty \<open>sta_q_sent_host\<close> is its NULL pointer (builds without
  \<open>USE_CLANKER_DRIVER\<close> have none).
\<close>

section \<open>State\<close>

record sta_q_aqm =
  above :: u32
  next_drop :: u32
  drop_count :: u16
  last_count :: u8
  flags :: u8

record sta_q_probe =
  tokts :: u32
  probe_delay :: u16

record wifi_sta_q =
  limit :: u32
  target :: u32
  interval :: u32
  limit_drops :: u32
  aqm_drops :: u32
  delay :: u32
  min_q :: u32
  small :: u32

record sta_qs =
  wifi_sta_q :: wifi_sta_q
  sta_q_tok :: "u16 list option"
  sta_q_sent :: "u16 list"
  sta_q_sent_host :: "u16 list"
  sta_q_done :: "u16 list"
  sta_q_aqm :: "sta_q_aqm list"
  sta_q_aqm_host :: "sta_q_aqm list"
  sta_q_probe :: "sta_q_probe list"

text \<open>
  A snapshot. Its table pointers are the shared tables themselves; \<open>host\<close> says which of the two
  senders' tables \<open>sent\<close>, \<open>other\<close> and \<open>aqm\<close> point to, \<open>has_map\<close> that \<open>map\<close> is
  not NULL.
\<close>

record sta_q_cfg =
  on :: bool
  c_limit :: u32
  c_target :: u32
  c_interval :: u32
  c_delay :: u32
  c_min_q :: u32
  c_small :: u32
  has_map :: bool
  host :: bool

definition STA_Q_TOKENS :: nat where "STA_Q_TOKENS = 13312"
definition STA_Q_STAS :: nat where "STA_Q_STAS = 1024"
definition STA_Q_NONE :: u32 where "STA_Q_NONE = 0xFFFF"
definition STA_Q_TICK :: nat where "STA_Q_TICK = 16"
definition STA_Q_LIMIT :: u32 where "STA_Q_LIMIT = 8192"
definition STA_Q_TARGET :: u32 where "STA_Q_TARGET = 0"
definition STA_Q_INTERVAL_MS :: u32 where "STA_Q_INTERVAL_MS = 100"
definition STA_Q_DELAY_MS :: u32 where "STA_Q_DELAY_MS = 10"
definition STA_Q_MIN_Q :: u32 where "STA_Q_MIN_Q = 64"
definition STA_Q_SMALL :: u32 where "STA_Q_SMALL = 256"
definition STA_Q_PROBE_LOST :: u32 where "STA_Q_PROBE_LOST = 11000"
definition AQM_ABOVE :: u8 where "AQM_ABOVE = 1"
definition AQM_DROPPING :: u8 where "AQM_DROPPING = 2"

lemmas sta_q_consts = STA_Q_TOKENS_def STA_Q_STAS_def STA_Q_NONE_def STA_Q_TICK_def
  STA_Q_LIMIT_def STA_Q_TARGET_def STA_Q_INTERVAL_MS_def STA_Q_DELAY_MS_def STA_Q_MIN_Q_def
  STA_Q_SMALL_def STA_Q_PROBE_LOST_def AQM_ABOVE_def AQM_DROPPING_def

section \<open>Initialisation and snapshots\<close>

definition sta_q_tables :: "variant \<Rightarrow> u32 \<Rightarrow> sta_qs \<Rightarrow> sta_qs" where
  "sta_q_tables v mhz s =
     (let a0 = \<lparr>above = 0, next_drop = 0, drop_count = 0, last_count = 0, flags = 0\<rparr>
      in s\<lparr>wifi_sta_q := (wifi_sta_q s)\<lparr>limit := STA_Q_LIMIT, target := STA_Q_TARGET,
             interval := STA_Q_INTERVAL_MS * 1000 * mhz, delay := STA_Q_DELAY_MS * 1000 * mhz,
             min_q := STA_Q_MIN_Q, small := STA_Q_SMALL\<rparr>,
           sta_q_sent_host := (if v_clanker v then replicate STA_Q_STAS 0 else []),
           sta_q_aqm_host := (if v_clanker v then replicate STA_Q_STAS a0 else []),
           sta_q_sent := replicate STA_Q_STAS 0,
           sta_q_done := replicate STA_Q_STAS 0,
           sta_q_aqm := replicate STA_Q_STAS a0,
           sta_q_probe := replicate STA_Q_STAS \<lparr>tokts = STA_Q_NONE, probe_delay = 0\<rparr>,
           sta_q_tok := Some (replicate STA_Q_TOKENS (c16 STA_Q_NONE))\<rparr>)"

definition sta_q_init :: "variant \<Rightarrow> u32 \<Rightarrow> sram \<times> sta_qs \<Rightarrow> sram_fault + (sram \<times> sta_qs)" where
  "sta_q_init v mhz ms =
     (case sram_buf_alloc v 41 (fst ms) of
        Inl f \<Rightarrow> Inl f
      | Inr (base, m) \<Rightarrow> Inr (m, if base = 0 then snd ms else sta_q_tables v mhz (snd ms)))"

definition sta_q_snap :: "sta_qs \<Rightarrow> sta_q_cfg" where
  "sta_q_snap s =
     (let q = wifi_sta_q s; m = (sta_q_tok s \<noteq> None)
      in \<lparr>on = (m \<and> (limit q OR target q OR delay q) \<noteq> 0), c_limit = limit q,
          c_target = target q, c_interval = interval q, c_delay = delay q, c_min_q = min_q q,
          c_small = small q, has_map = m, host = False\<rparr>)"

definition sta_q_snap_host :: "sta_qs \<Rightarrow> sta_q_cfg" where
  "sta_q_snap_host s =
     (let c = sta_q_snap s in c\<lparr>host := True, on := on c \<and> sta_q_sent_host s \<noteq> []\<rparr>)"

section \<open>The decision\<close>

definition sta_q_delay :: "sta_q_probe \<Rightarrow> u32 \<Rightarrow> u32 \<times> sta_q_probe" where
  "sta_q_delay p now =
     (let w = tokts p; d = c32 (probe_delay p)
      in if w AND 0xFFFF \<noteq> STA_Q_NONE then
           (let age = c32 (c16 (drop_bit STA_Q_TICK now - drop_bit 16 w))
            in if STA_Q_PROBE_LOST < age then (d, p\<lparr>tokts := STA_Q_NONE\<rparr>)
               else if d < age then (age, p) else (d, p))
         else (d, p))"

definition sta_q_depth :: "variant \<Rightarrow> nat \<Rightarrow> sta_qs \<Rightarrow> s16" where
  "sta_q_depth v sta s =
     (if v_clanker v then sta_q_sent s ! sta + sta_q_sent_host s ! sta - sta_q_done s ! sta
      else sta_q_sent s ! sta - sta_q_done s ! sta)"

definition get_aqm :: "variant \<Rightarrow> sta_q_cfg \<Rightarrow> nat \<Rightarrow> sta_qs \<Rightarrow> sta_q_aqm" where
  "get_aqm v c sta s =
     (if v_clanker v \<and> host c then sta_q_aqm_host s ! sta else sta_q_aqm s ! sta)"

definition set_aqm :: "variant \<Rightarrow> sta_q_cfg \<Rightarrow> nat \<Rightarrow> sta_q_aqm \<Rightarrow> sta_qs \<Rightarrow> sta_qs" where
  "set_aqm v c sta a s =
     (if v_clanker v \<and> host c then s\<lparr>sta_q_aqm_host := (sta_q_aqm_host s)[sta := a]\<rparr>
      else s\<lparr>sta_q_aqm := (sta_q_aqm s)[sta := a]\<rparr>)"

definition count_limit_drop :: "sta_qs \<Rightarrow> sta_qs" where
  "count_limit_drop s =
     s\<lparr>wifi_sta_q := (wifi_sta_q s)\<lparr>limit_drops := limit_drops (wifi_sta_q s) + 1\<rparr>\<rparr>"

definition count_aqm_drop :: "sta_qs \<Rightarrow> sta_qs" where
  "count_aqm_drop s =
     s\<lparr>wifi_sta_q := (wifi_sta_q s)\<lparr>aqm_drops := aqm_drops (wifi_sta_q s) + 1\<rparr>\<rparr>"

text \<open>
  Whether the queue is above target, in frames or in time; the time test may retire a lost probe.
\<close>

definition queue_above :: "sta_q_cfg \<Rightarrow> nat \<Rightarrow> u32 \<Rightarrow> u32 \<Rightarrow> sta_qs \<Rightarrow> bool \<times> sta_qs" where
  "queue_above c sta q now s =
     (if c_target c \<noteq> 0 \<and> c_target c \<le> q then (True, s)
      else if c_delay c \<noteq> 0 \<and> c_min_q c \<le> q then
        (let (d, p) = sta_q_delay (sta_q_probe s ! sta) now
         in (c_delay c \<le> push_bit STA_Q_TICK d, s\<lparr>sta_q_probe := (sta_q_probe s)[sta := p]\<rparr>))
      else (False, s))"

text \<open>One more drop while dropping, and the first of a new dropping state.\<close>

definition aqm_next_drop :: "u32 \<Rightarrow> u32 \<Rightarrow> sta_q_aqm \<Rightarrow> sta_q_aqm" where
  "aqm_next_drop ivl now a =
     (let a = (if drop_count a \<noteq> 0xFFFF then a\<lparr>drop_count := drop_count a + 1\<rparr> else a)
      in if ivl <s now - next_drop a then a\<lparr>next_drop := now\<rparr> else a)"

definition aqm_first_drop :: "u32 \<Rightarrow> u32 \<Rightarrow> sta_q_aqm \<Rightarrow> sta_q_aqm" where
  "aqm_first_drop ivl now a =
     (let n = c32 (drop_count a - c16 (last_count a));
          a = a\<lparr>drop_count := (if 1 < n \<and> now - next_drop a <s 16 * ivl then c16 n else 1)\<rparr>;
          a = a\<lparr>last_count := (if 255 < drop_count a then 255 else c8 (drop_count a))\<rparr>;
          a = a\<lparr>flags := flags a OR AQM_DROPPING\<rparr>
      in a\<lparr>next_drop := now\<rparr>)"

definition aqm_decide :: "u32 \<Rightarrow> u32 \<Rightarrow> u32 \<Rightarrow> u32 \<Rightarrow> bool \<Rightarrow> sta_q_aqm \<Rightarrow> bool \<times> sta_q_aqm" where
  "aqm_decide ivl sm now len is_above a =
     (if \<not> is_above then (False, a\<lparr>flags := 0\<rparr>)
      else if flags a AND AQM_ABOVE = 0 then
        (False, a\<lparr>flags := AQM_ABOVE, above := now + ivl\<rparr>)
      else if now - above a <s 0 then (False, a)
      else if len \<le> sm then (False, a)
      else if flags a AND AQM_DROPPING \<noteq> 0 \<and> now - next_drop a <s 0 then (False, a)
      else
        (let a = (if flags a AND AQM_DROPPING \<noteq> 0 then aqm_next_drop ivl now a
                  else aqm_first_drop ivl now a)
         in (True, a\<lparr>next_drop := next_drop a + ivl div npu_isqrt (c32 (drop_count a))\<rparr>)))"

definition sta_q_decide ::
  "variant \<Rightarrow> sta_q_cfg \<Rightarrow> nat \<Rightarrow> u32 \<Rightarrow> u32 \<Rightarrow> sta_qs \<Rightarrow> bool \<times> sta_qs" where
  "sta_q_decide v c sta now len s =
     (let d = sta_q_depth v sta s;
          q = (if 0 <s d then c32 d else 0)
      in if c_limit c \<noteq> 0 \<and> c_limit c \<le> q then (True, count_limit_drop s)
         else
           (let (is_above, s) = queue_above c sta q now s;
                (drop, a) = aqm_decide (c_interval c) (c_small c) now len is_above (get_aqm v c sta s);
                s = set_aqm v c sta a s
            in (drop, if drop then count_aqm_drop s else s)))"

definition sta_q_drop ::
  "variant \<Rightarrow> sta_q_cfg \<Rightarrow> u32 \<Rightarrow> u32 \<Rightarrow> u32 \<Rightarrow> sta_qs \<Rightarrow> bool \<times> sta_qs" where
  "sta_q_drop v c sta now len s =
     (if \<not> on c \<or> of_nat STA_Q_STAS \<le> sta then (False, s)
      else sta_q_decide v c (unat sta) now len s)"

section \<open>The hooks\<close>

definition sent_add :: "sta_q_cfg \<Rightarrow> nat \<Rightarrow> u16 \<Rightarrow> sta_qs \<Rightarrow> sta_qs" where
  "sent_add c sta n s =
     (if host c then s\<lparr>sta_q_sent_host := (sta_q_sent_host s)[sta := sta_q_sent_host s ! sta + n]\<rparr>
      else s\<lparr>sta_q_sent := (sta_q_sent s)[sta := sta_q_sent s ! sta + n]\<rparr>)"

definition map_set :: "nat \<Rightarrow> u16 \<Rightarrow> sta_qs \<Rightarrow> sta_qs" where
  "map_set tok sta s = s\<lparr>sta_q_tok := map_option (\<lambda>m. m[tok := sta]) (sta_q_tok s)\<rparr>"

definition probe_set :: "nat \<Rightarrow> sta_q_probe \<Rightarrow> sta_qs \<Rightarrow> sta_qs" where
  "probe_set sta p s = s\<lparr>sta_q_probe := (sta_q_probe s)[sta := p]\<rparr>"

definition sta_q_sent_tok :: "sta_q_cfg \<Rightarrow> u32 \<Rightarrow> u32 \<Rightarrow> u32 \<Rightarrow> sta_qs \<Rightarrow> sta_qs" where
  "sta_q_sent_tok c tok sta now s =
     (if sta < of_nat STA_Q_STAS \<and> tok < of_nat STA_Q_TOKENS \<and> has_map c then
        (let s = map_set (unat tok) (c16 sta) s;
             s = sent_add c (unat sta) 1 s;
             p = sta_q_probe s ! unat sta
         in if tokts p AND 0xFFFF = STA_Q_NONE
            then probe_set (unat sta) (p\<lparr>tokts := tok OR push_bit 16 (drop_bit STA_Q_TICK now)\<rparr>) s
            else s)
      else s)"

definition sta_q_unsent_tok :: "sta_q_cfg \<Rightarrow> u32 \<Rightarrow> u32 \<Rightarrow> sta_qs \<Rightarrow> sta_qs" where
  "sta_q_unsent_tok c tok sta s =
     (if sta < of_nat STA_Q_STAS \<and> tok < of_nat STA_Q_TOKENS \<and> has_map c then
        (let s = map_set (unat tok) (c16 STA_Q_NONE) s;
             s = sent_add c (unat sta) (- 1) s;
             p = sta_q_probe s ! unat sta
         in if tokts p AND 0xFFFF = tok then probe_set (unat sta) (p\<lparr>tokts := STA_Q_NONE\<rparr>) s else s)
      else s)"

text \<open>\<open>sta_q_done[sta]\<close> with the station the map holds; outside the table it is a fault.\<close>

datatype sta_q_fault = sta_q_done_overrun

definition sta_q_done_tok :: "u32 \<Rightarrow> u32 \<Rightarrow> sta_qs \<Rightarrow> sta_q_fault + sta_qs" where
  "sta_q_done_tok tok tick s =
     (case sta_q_tok s of
        None \<Rightarrow> Inr s
      | Some m \<Rightarrow>
          (if of_nat STA_Q_TOKENS \<le> tok then Inr s
           else
             (let sta = m ! unat tok
              in if c32 sta \<noteq> STA_Q_NONE then
                   (if length (sta_q_done s) \<le> unat sta then Inl sta_q_done_overrun
                    else
                      (let s = map_set (unat tok) (c16 STA_Q_NONE) s;
                           s = s\<lparr>sta_q_done := (sta_q_done s)[unat sta := sta_q_done s ! unat sta + 1]\<rparr>;
                           p = sta_q_probe s ! unat sta;
                           w = tokts p
                       in Inr (if w AND 0xFFFF = tok
                               then probe_set (unat sta)
                                 (p\<lparr>probe_delay := c16 (tick - drop_bit 16 w), tokts := STA_Q_NONE\<rparr>) s
                               else s)))
                 else Inr s)))"

end
