(* ===== verification/Staq_Limit.thy ===== *)
theory Staq_Limit
  imports Staq "HOL-Library.Multiset"
begin

text \<open>
  What the per-station queue limit promises: the counts are the tokens in the chip, the limit acts on
  that number, the standing-queue drops need a whole interval above target, and the arithmetic of the
  drop spacing never divides by zero.
\<close>

section \<open>Steps of the three harts\<close>

text \<open>
  A token is sent only while the map has no station for it (it comes from the free ring), and a frame
  is taken back only for the station it was counted for. \<open>c\<close> is any snapshot with the map there:
  its settings may be stale, its tables are the shared ones.
\<close>

inductive sta_step :: "variant \<Rightarrow> sta_qs \<Rightarrow> sta_qs \<Rightarrow> bool" for v where
  sent: "has_map c \<Longrightarrow> host c \<longrightarrow> v_clanker v \<Longrightarrow> sta_q_tok s = Some m \<Longrightarrow>
    unat tok < STA_Q_TOKENS \<longrightarrow> c32 (m ! unat tok) = STA_Q_NONE \<Longrightarrow>
    sta_step v s (sta_q_sent_tok c tok sta now s)"
| unsent: "has_map c \<Longrightarrow> host c \<longrightarrow> v_clanker v \<Longrightarrow> sta_q_tok s = Some m \<Longrightarrow>
    unat tok < STA_Q_TOKENS \<longrightarrow> c32 (m ! unat tok) = sta \<Longrightarrow>
    sta_step v s (sta_q_unsent_tok c tok sta s)"
| reported: "sta_q_done_tok tok tick s = Inr s' \<Longrightarrow> sta_step v s s'"
| decided: "sta_q_drop v c sta now len s = (d, s') \<Longrightarrow> sta_step v s s'"

inductive sta_reach :: "variant \<Rightarrow> sta_qs \<Rightarrow> bool" for v where
  init: "sta_reach v (sta_q_tables v mhz s)"
| step: "sta_reach v s \<Longrightarrow> sta_step v s s' \<Longrightarrow> sta_reach v s'"

text \<open>The frames of a station in the chip: the tokens the map gives to it.\<close>

definition in_chip :: "sta_qs \<Rightarrow> nat \<Rightarrow> nat" where
  "in_chip s sta = (case sta_q_tok s of None \<Rightarrow> 0 | Some m \<Rightarrow> count (mset m) (of_nat sta))"

definition aqm_ok :: "sta_q_aqm \<Rightarrow> bool" where
  "aqm_ok a \<longleftrightarrow> (flags a AND AQM_DROPPING \<noteq> 0 \<longrightarrow> drop_count a \<noteq> 0)"

definition sta_ok :: "variant \<Rightarrow> sta_qs \<Rightarrow> bool" where
  "sta_ok v s \<longleftrightarrow>
     (\<exists>m. sta_q_tok s = Some m \<and> length m = STA_Q_TOKENS \<and>
        (\<forall>x \<in> set m. c32 x = STA_Q_NONE \<or> unat x < STA_Q_STAS)) \<and>
     length (sta_q_sent s) = STA_Q_STAS \<and> length (sta_q_done s) = STA_Q_STAS \<and>
     length (sta_q_probe s) = STA_Q_STAS \<and> length (sta_q_aqm s) = STA_Q_STAS \<and>
     (v_clanker v \<longrightarrow> length (sta_q_sent_host s) = STA_Q_STAS \<and>
        length (sta_q_aqm_host s) = STA_Q_STAS) \<and>
     (\<forall>sta<STA_Q_STAS. sta_q_depth v sta s = of_nat (in_chip s sta)) \<and>
     (\<forall>a \<in> set (sta_q_aqm s) \<union> set (sta_q_aqm_host s). aqm_ok a)"

section \<open>The invariant\<close>

lemma sta_ok_tables: "sta_ok v (sta_q_tables v mhz s)"
proof -
  have "(of_nat sta :: u16) \<noteq> c16 STA_Q_NONE" if "sta < STA_Q_STAS" for sta
    using that by (auto simp: word_unat_eq_iff unat_of_nat sta_q_consts)
  then show ?thesis
    by (auto simp: sta_ok_def sta_q_tables_def Let_def sta_q_depth_def in_chip_def aqm_ok_def
        sta_q_consts)
qed

lemma count_mset_update:
  "i < length m \<Longrightarrow> count (mset (m[i := x])) y =
     count (mset m) y - (if m ! i = y then 1 else 0) + (if x = y then 1 else 0)"
  by (simp add: mset_update)

lemma count_mset_nth: "i < length m \<Longrightarrow> 1 \<le> count (mset m) (m ! i)"
  by (simp add: Suc_le_eq)

lemma of_nat_sta_eq:
  "i < STA_Q_STAS \<Longrightarrow> j < STA_Q_STAS \<Longrightarrow> (of_nat i :: u16) = of_nat j \<longleftrightarrow> i = j"
  by (simp add: word_unat_eq_iff unat_of_nat STA_Q_STAS_def)

lemma of_nat_none: "i < STA_Q_STAS \<Longrightarrow> (of_nat i :: u16) \<noteq> 0xFFFF"
  by (auto simp: word_unat_eq_iff unat_of_nat STA_Q_STAS_def)

lemma c16_sta: "sta < of_nat STA_Q_STAS \<Longrightarrow> c16 (sta :: u32) = of_nat (unat sta) \<and> unat sta < STA_Q_STAS"
  by (auto simp: word_unat_eq_iff unat_of_nat unat_c16_c32 word_less_nat_alt STA_Q_STAS_def)

text \<open>The probe and the settings do not matter to the counts.\<close>

lemma probe_set_sel [simp]:
  "sta_q_tok (probe_set i p s) = sta_q_tok s" "sta_q_sent (probe_set i p s) = sta_q_sent s"
  "sta_q_sent_host (probe_set i p s) = sta_q_sent_host s"
  "sta_q_done (probe_set i p s) = sta_q_done s" "sta_q_aqm (probe_set i p s) = sta_q_aqm s"
  "sta_q_aqm_host (probe_set i p s) = sta_q_aqm_host s"
  "length (sta_q_probe (probe_set i p s)) = length (sta_q_probe s)"
  "sta_q_depth v j (probe_set i p s) = sta_q_depth v j s"
  "in_chip (probe_set i p s) j = in_chip s j"
  by (simp_all add: probe_set_def sta_q_depth_def in_chip_def)

lemma sta_ok_probe_set [simp]: "sta_ok v (probe_set i p s) = sta_ok v s"
  by (simp add: sta_ok_def)

lemma map_set_sel [simp]:
  "sta_q_sent (map_set i x s) = sta_q_sent s" "sta_q_sent_host (map_set i x s) = sta_q_sent_host s"
  "sta_q_done (map_set i x s) = sta_q_done s" "sta_q_aqm (map_set i x s) = sta_q_aqm s"
  "sta_q_aqm_host (map_set i x s) = sta_q_aqm_host s" "sta_q_probe (map_set i x s) = sta_q_probe s"
  "sta_q_tok (map_set i x s) = map_option (\<lambda>m. m[i := x]) (sta_q_tok s)"
  "sta_q_depth v k (map_set i x s) = sta_q_depth v k s"
  by (simp_all add: map_set_def sta_q_depth_def)

lemma sent_add_sel [simp]:
  "length (sta_q_sent (sent_add c i n s)) = length (sta_q_sent s)"
  "length (sta_q_sent_host (sent_add c i n s)) = length (sta_q_sent_host s)"
  "sta_q_done (sent_add c i n s) = sta_q_done s" "sta_q_aqm (sent_add c i n s) = sta_q_aqm s"
  "sta_q_aqm_host (sent_add c i n s) = sta_q_aqm_host s"
  "sta_q_probe (sent_add c i n s) = sta_q_probe s" "sta_q_tok (sent_add c i n s) = sta_q_tok s"
  "in_chip (sent_add c i n s) k = in_chip s k"
  by (simp_all add: sent_add_def in_chip_def)

definition tables_ok :: "variant \<Rightarrow> sta_qs \<Rightarrow> bool" where
  "tables_ok v s \<longleftrightarrow>
     length (sta_q_sent s) = STA_Q_STAS \<and> length (sta_q_done s) = STA_Q_STAS \<and>
     length (sta_q_probe s) = STA_Q_STAS \<and> length (sta_q_aqm s) = STA_Q_STAS \<and>
     (v_clanker v \<longrightarrow> length (sta_q_sent_host s) = STA_Q_STAS \<and>
        length (sta_q_aqm_host s) = STA_Q_STAS)"

definition entry_ok :: "u16 \<Rightarrow> bool" where
  "entry_ok x \<longleftrightarrow> c32 x = STA_Q_NONE \<or> unat x < STA_Q_STAS"

definition map_ok :: "sta_qs \<Rightarrow> bool" where
  "map_ok s \<longleftrightarrow>
     (\<exists>m. sta_q_tok s = Some m \<and> length m = STA_Q_TOKENS \<and> (\<forall>x \<in> set m. entry_ok x))"

lemma sta_ok_split:
  "sta_ok v s \<longleftrightarrow> map_ok s \<and> tables_ok v s \<and>
     (\<forall>sta<STA_Q_STAS. sta_q_depth v sta s = of_nat (in_chip s sta)) \<and>
     (\<forall>a \<in> set (sta_q_aqm s) \<union> set (sta_q_aqm_host s). aqm_ok a)"
  by (auto simp: sta_ok_def map_ok_def tables_ok_def entry_ok_def)

lemma map_ok_set: "map_ok s \<Longrightarrow> entry_ok x \<Longrightarrow> map_ok (map_set i x s)"
  by (auto simp: map_ok_def dest!: set_update_subset_insert [THEN subsetD])

lemma map_ok_sent_add [simp]: "map_ok (sent_add c i n s) = map_ok s"
  by (simp add: map_ok_def)

lemma tables_ok_sel [simp]:
  "tables_ok v (map_set i x s) = tables_ok v s" "tables_ok v (sent_add c i n s) = tables_ok v s"
  by (auto simp: tables_ok_def)

lemma depth_sent_add:
  "tables_ok v s \<Longrightarrow> host c \<longrightarrow> v_clanker v \<Longrightarrow> i < STA_Q_STAS \<Longrightarrow>
   sta_q_depth v k (sent_add c i n s) = sta_q_depth v k s + (if k = i then n else 0)"
  by (cases "k = i") (simp_all add: sta_q_depth_def sent_add_def tables_ok_def)

lemma in_chip_set:
  assumes "sta_q_tok s = Some m" "i < length m"
  shows "in_chip (map_set i x s) k = in_chip s k - (if m ! i = of_nat k then 1 else 0) +
    (if x = of_nat k then 1 else 0)"
  using assms by (simp add: in_chip_def count_mset_update)

lemma in_chip_pos:
  "sta_q_tok s = Some m \<Longrightarrow> i < length m \<Longrightarrow> m ! i = of_nat k \<Longrightarrow> 1 \<le> in_chip s k"
  using count_mset_nth [of i m] by (simp add: in_chip_def)

lemma entry_ok_sta: "j < STA_Q_STAS \<Longrightarrow> entry_ok (of_nat j)"
  by (simp add: entry_ok_def unat_of_nat STA_Q_STAS_def)

lemma entry_ok_none: "entry_ok 0xFFFF"
  by (simp add: entry_ok_def STA_Q_NONE_def)

lemma c32_none: "c32 (x :: u16) = STA_Q_NONE \<longleftrightarrow> x = 0xFFFF"
  by (auto simp: STA_Q_NONE_def word_unat_eq_iff)

lemma sta_ok_sent:
  assumes ok: "sta_ok v s" and m: "sta_q_tok s = Some m" "i < STA_Q_TOKENS" "c32 (m ! i) = STA_Q_NONE"
    and sta: "j < STA_Q_STAS" and h: "host c \<longrightarrow> v_clanker v"
  shows "sta_ok v (sent_add c j 1 (map_set i (of_nat j) s))"
proof -
  have len: "length m = STA_Q_TOKENS" using ok m(1) by (auto simp: sta_ok_def)
  have "in_chip (map_set i (of_nat j) s) k = in_chip s k + (if k = j then 1 else 0)"
    if "k < STA_Q_STAS" for k
    using that sta m len of_nat_none [of k] of_nat_sta_eq [of j k] by (auto simp: in_chip_set c32_none)
  then show ?thesis
    using ok h sta map_ok_set entry_ok_sta by (simp add: sta_ok_split depth_sent_add)
qed

text \<open>A frame leaving the chip, taken back by its sender or reported done.\<close>

lemma in_chip_leave:
  assumes ok: "sta_ok v s" and m: "sta_q_tok s = Some m" "i < STA_Q_TOKENS" "m ! i = of_nat j"
    and j: "j < STA_Q_STAS" and k: "k < STA_Q_STAS"
  shows "(of_nat (in_chip (map_set i 0xFFFF s) k) :: u16) = of_nat (in_chip s k) - (if k = j then 1 else 0)"
proof -
  have len: "length m = STA_Q_TOKENS" using ok m(1) by (auto simp: sta_ok_def)
  show ?thesis
    using m len k j of_nat_none [of k] of_nat_sta_eq [of j k] in_chip_pos [OF m(1) _ m(3)]
    by (auto simp: in_chip_set of_nat_diff eq_commute [of "0xFFFF"])
qed

lemma sta_ok_unsent:
  assumes ok: "sta_ok v s" and m: "sta_q_tok s = Some m" "i < STA_Q_TOKENS" "m ! i = of_nat j"
    and j: "j < STA_Q_STAS" and h: "host c \<longrightarrow> v_clanker v"
  shows "sta_ok v (sent_add c j (- 1) (map_set i 0xFFFF s))"
  using ok h j map_ok_set [OF _ entry_ok_none] in_chip_leave [OF ok m j]
  by (simp add: sta_ok_split depth_sent_add)

lemma sta_ok_done:
  assumes ok: "sta_ok v s" and m: "sta_q_tok s = Some m" "i < STA_Q_TOKENS" "m ! i = of_nat j"
    and j: "j < STA_Q_STAS"
  shows "sta_ok v ((map_set i 0xFFFF s)\<lparr>sta_q_done := (sta_q_done s)[j := sta_q_done s ! j + 1]\<rparr>)"
proof -
  let ?s = "(map_set i 0xFFFF s)\<lparr>sta_q_done := (sta_q_done s)[j := sta_q_done s ! j + 1]\<rparr>"
  have t: "tables_ok v s" using ok by (simp add: sta_ok_split)
  have "sta_q_depth v k ?s = sta_q_depth v k s - (if k = j then 1 else 0)" if "k < STA_Q_STAS" for k
    using t j by (cases "k = j") (simp_all add: sta_q_depth_def tables_ok_def)
  moreover have "in_chip ?s k = in_chip (map_set i 0xFFFF s) k" for k by (simp add: in_chip_def)
  moreover have "map_ok ?s = map_ok (map_set i 0xFFFF s)" by (simp add: map_ok_def)
  moreover have "tables_ok v ?s = tables_ok v s" by (auto simp: tables_ok_def)
  ultimately show ?thesis
    using ok j map_ok_set [OF _ entry_ok_none] in_chip_leave [OF ok m j] by (simp add: sta_ok_split)
qed

section \<open>The decision\<close>

lemma npu_isqrt_nonzero: "x \<noteq> 0 \<Longrightarrow> npu_isqrt x \<noteq> 0"
  using npu_isqrt_pos [of x] by auto

lemma c32_c16_zero: "c32 (x :: u16) = 0 \<longleftrightarrow> x = 0"
  by (simp add: word_unat_eq_iff)

lemma aqm_decide_ok:
  assumes "aqm_ok a" "aqm_decide ivl sm now len ab a = (d, a')"
  shows "aqm_ok a' \<and> (d \<longrightarrow> drop_count a' \<noteq> 0)"
proof -
  have nx: "drop_count (aqm_next_drop ivl now a) \<noteq> 0" if "drop_count a \<noteq> 0"
  proof -
    have "drop_count a + 1 \<noteq> 0" if "drop_count a \<noteq> 0xFFFF"
    proof
      assume "drop_count a + 1 = 0"
      then have "drop_count a = - 1" by (simp add: eq_neg_iff_add_eq_0)
      then show False using that by simp
    qed
    then show ?thesis using that by (simp add: aqm_next_drop_def Let_def)
  qed
  have first: "drop_count (aqm_first_drop ivl now a) \<noteq> 0"
  proof -
    have "c16 (c32 (drop_count a - c16 (last_count a))) \<noteq> 0"
      if "1 < c32 (drop_count a - c16 (last_count a))"
      using that by (auto simp: c32_c16_zero)
    then show ?thesis by (simp add: aqm_first_drop_def Let_def)
  qed
  show ?thesis
    using assms nx first
    by (auto simp: aqm_decide_def aqm_ok_def Let_def AQM_ABOVE_def AQM_DROPPING_def split: if_splits)
qed

lemma queue_above_sel:
  assumes "queue_above c sta q now s = (ab, s')"
  shows "\<exists>ps. s' = s\<lparr>sta_q_probe := ps\<rparr> \<and> length ps = length (sta_q_probe s)"
proof -
  have "s' = s \<or> (\<exists>p. s' = s\<lparr>sta_q_probe := (sta_q_probe s)[sta := p]\<rparr>)"
    using assms unfolding queue_above_def by (auto split: if_splits prod.splits)
  then show ?thesis
  proof
    assume "s' = s"
    then show ?thesis by (intro exI [of _ "sta_q_probe s"]) simp
  next
    assume "\<exists>p. s' = s\<lparr>sta_q_probe := (sta_q_probe s)[sta := p]\<rparr>"
    then show ?thesis by auto
  qed
qed

lemma sta_ok_probes [simp]:
  "length ps = length (sta_q_probe s) \<Longrightarrow> sta_ok v (s\<lparr>sta_q_probe := ps\<rparr>) = sta_ok v s"
  by (simp add: sta_ok_def sta_q_depth_def in_chip_def)

lemma sta_ok_wifi_sta_q [simp]:
  "sta_ok v (count_limit_drop s) = sta_ok v s" "sta_ok v (count_aqm_drop s) = sta_ok v s"
  by (simp_all add: sta_ok_def sta_q_depth_def in_chip_def count_limit_drop_def count_aqm_drop_def)

lemma sta_ok_set_aqm:
  assumes "sta_ok v s" "aqm_ok a"
  shows "sta_ok v (set_aqm v c i a s)"
proof -
  have "\<forall>b \<in> set (xs[i := a]). aqm_ok b" if "\<forall>b \<in> set xs. aqm_ok b" for xs
    using that assms(2) set_update_subset_insert [of xs i a] by auto
  then show ?thesis
    using assms(1) by (auto simp: sta_ok_def set_aqm_def sta_q_depth_def in_chip_def)
qed

lemma aqm_ok_get:
  assumes "sta_ok v s" "i < STA_Q_STAS"
  shows "aqm_ok (get_aqm v c i s)"
  using assms by (auto simp: sta_ok_def get_aqm_def)

lemma sta_ok_decide:
  assumes ok: "sta_ok v s" and i: "i < STA_Q_STAS" and d: "sta_q_decide v c i now len s = (d, s')"
  shows "sta_ok v s'"
proof -
  let ?q = "if 0 <s sta_q_depth v i s then c32 (sta_q_depth v i s) else 0"
  obtain ab s1 where ab: "queue_above c i ?q now s = (ab, s1)" by fastforce
  obtain dr a where a: "aqm_decide (c_interval c) (c_small c) now len ab (get_aqm v c i s1) = (dr, a)"
    by fastforce
  have s1: "sta_ok v s1" using queue_above_sel [OF ab] ok by auto
  have "sta_ok v (set_aqm v c i a s1)"
    using sta_ok_set_aqm [OF s1] aqm_decide_ok [OF aqm_ok_get [OF s1 i] a] by blast
  then show ?thesis
    using d ok ab a by (auto simp: sta_q_decide_def Let_def split: if_splits)
qed

section \<open>Every reachable state\<close>

lemma tok_index: "\<not> of_nat STA_Q_TOKENS \<le> (tok :: u32) \<longleftrightarrow> unat tok < STA_Q_TOKENS"
  by (auto simp: word_le_nat_alt STA_Q_TOKENS_def)

lemma c16_none [simp]: "c16 STA_Q_NONE = 0xFFFF"
  by (simp add: STA_Q_NONE_def)

lemma sta_ok_step:
  assumes "sta_step v s s'" "sta_ok v s"
  shows "sta_ok v s'"
  using assms
proof cases
  case (sent c m tok sta now)
  show ?thesis
  proof (cases "sta < of_nat STA_Q_STAS \<and> tok < of_nat STA_Q_TOKENS")
    case True
    then have t: "unat tok < STA_Q_TOKENS" "unat sta < STA_Q_STAS" "c16 sta = of_nat (unat sta)"
      using tok_index [of tok] c16_sta [of sta] by (auto simp: not_le)
    have "sta_ok v (sent_add c (unat sta) 1 (map_set (unat tok) (c16 sta) s))"
      unfolding t(3) using sta_ok_sent [OF assms(2) sent(4) t(1) _ t(2) sent(3)] sent(5) t(1) by blast
    then show ?thesis using True sent(1,2) by (simp add: sta_q_sent_tok_def Let_def)
  next
    case False
    then have "s' = s" using sent(1) by (auto simp: sta_q_sent_tok_def)
    then show ?thesis using assms(2) by simp
  qed
next
  case (unsent c m tok sta)
  show ?thesis
  proof (cases "sta < of_nat STA_Q_STAS \<and> tok < of_nat STA_Q_TOKENS")
    case True
    then have t: "unat tok < STA_Q_TOKENS" "unat sta < STA_Q_STAS" "c16 sta = of_nat (unat sta)"
      using tok_index [of tok] c16_sta [of sta] by (auto simp: not_le)
    then have "m ! unat tok = of_nat (unat sta)" using unsent(5) by (metis c16_c32)
    then have "sta_ok v (sent_add c (unat sta) (- 1) (map_set (unat tok) 0xFFFF s))"
      using sta_ok_unsent [OF assms(2) unsent(4) t(1) _ t(2) unsent(3)] by blast
    then show ?thesis using True unsent(1,2) by (simp add: sta_q_unsent_tok_def Let_def)
  next
    case False
    then have "s' = s" using unsent(1) by (auto simp: sta_q_unsent_tok_def)
    then show ?thesis using assms(2) by simp
  qed
next
  case (reported tok tick)
  then show ?thesis
  proof (cases "sta_q_tok s")
    case None
    then show ?thesis using reported assms(2) by (simp add: sta_q_done_tok_def)
  next
    case (Some m)
    let ?j = "unat (m ! unat tok)"
    have "sta_ok v ((map_set (unat tok) 0xFFFF s)\<lparr>sta_q_done := (sta_q_done s)[?j := sta_q_done s ! ?j + 1]\<rparr>)"
      if "unat tok < STA_Q_TOKENS" "?j < STA_Q_STAS"
      using sta_ok_done [OF assms(2) Some that(1) _ that(2)] by simp
    moreover have "length (sta_q_done s) = STA_Q_STAS" using assms(2) by (simp add: sta_ok_def)
    ultimately show ?thesis
      using Some reported assms(2)
      by (auto simp: sta_q_done_tok_def Let_def tok_index [symmetric] not_le split: if_splits)
  qed
next
  case (decided c sta now len d)
  then show ?thesis
    using sta_ok_decide [OF assms(2)] assms(2)
    by (auto simp: sta_q_drop_def word_le_nat_alt STA_Q_STAS_def not_le split: if_splits)
qed

lemma sta_ok_reach: "sta_reach v s \<Longrightarrow> sta_ok v s"
  by (induction rule: sta_reach.induct) (auto intro: sta_ok_tables sta_ok_step)

lemma in_chip_le: "sta_ok v s \<Longrightarrow> in_chip s k \<le> STA_Q_TOKENS"
  unfolding in_chip_def sta_ok_def by (metis (mono_tags, lifting) count_le_size option.simps(5) size_mset)

lemma sint_of_nat16: "n < 32768 \<Longrightarrow> sint (of_nat n :: 16 word) = int n"
  by (simp add: sint_uint uint_nat unat_of_nat signed_take_bit_int_eq_self)

lemma depth_sint:
  assumes "sta_ok v s" "i < STA_Q_STAS"
  shows "sint (sta_q_depth v i s) = int (in_chip s i)"
proof -
  have "sta_q_depth v i s = of_nat (in_chip s i)" using assms by (simp add: sta_ok_def)
  moreover have "in_chip s i < 32768" using in_chip_le [OF assms(1), of i] by (simp add: STA_Q_TOKENS_def)
  ultimately show ?thesis by (simp only: sint_of_nat16)
qed

text \<open>The number the decision compares: exactly the frames in the chip.\<close>

lemma depth_queue:
  assumes "sta_ok v s" "i < STA_Q_STAS"
  shows "unat (if 0 <s sta_q_depth v i s then c32 (sta_q_depth v i s) else 0) = in_chip s i"
proof -
  have b: "in_chip s i < 32768" using in_chip_le [OF assms(1), of i] by (simp add: STA_Q_TOKENS_def)
  have d: "sta_q_depth v i s = of_nat (in_chip s i)" using assms by (simp add: sta_ok_def)
  have "0 <s sta_q_depth v i s \<longleftrightarrow> 0 < in_chip s i"
    using depth_sint [OF assms] by (simp add: word_sless_alt)
  moreover have "unat (c32 (sta_q_depth v i s)) = in_chip s i"
    unfolding d unat_c32_c16 using b by (simp add: unat_of_nat)
  ultimately show ?thesis by auto
qed

lemma aqm_decide_small: "len \<le> sm \<Longrightarrow> fst (aqm_decide ivl sm now len ab a) = False"
  by (simp add: aqm_decide_def Let_def)

lemma get_set_aqm: "sta_ok v s \<Longrightarrow> i < STA_Q_STAS \<Longrightarrow> get_aqm v c i (set_aqm v c i a s) = a"
  by (simp add: get_aqm_def set_aqm_def sta_ok_def)

lemma get_aqm_count [simp]:
  "get_aqm v c i (count_aqm_drop s) = get_aqm v c i s"
  by (simp add: get_aqm_def count_aqm_drop_def)

lemma decide_cases:
  assumes ok: "sta_ok v s" and i: "i < STA_Q_STAS" and d: "sta_q_decide v c i now len s = (d, s')"
  shows "(c_limit c \<noteq> 0 \<and> unat (c_limit c) \<le> in_chip s i \<longrightarrow> d) \<and>
    (\<not> (c_limit c \<noteq> 0 \<and> unat (c_limit c) \<le> in_chip s i) \<longrightarrow>
      (len \<le> c_small c \<longrightarrow> \<not> d) \<and> (d \<longrightarrow> npu_isqrt (c32 (drop_count (get_aqm v c i s'))) \<noteq> 0))"
proof -
  let ?q = "if 0 <s sta_q_depth v i s then c32 (sta_q_depth v i s) else 0"
  have lim: "c_limit c \<le> ?q \<longleftrightarrow> unat (c_limit c) \<le> in_chip s i"
    using depth_queue [OF ok i] by (simp add: word_le_nat_alt)
  obtain ab s1 where ab: "queue_above c i ?q now s = (ab, s1)" by fastforce
  obtain dr a where a: "aqm_decide (c_interval c) (c_small c) now len ab (get_aqm v c i s1) = (dr, a)"
    by fastforce
  have s1: "sta_ok v s1" using queue_above_sel [OF ab] ok by auto
  have "dr \<longrightarrow> drop_count a \<noteq> 0" using aqm_decide_ok [OF aqm_ok_get [OF s1 i] a] by blast
  then have div: "dr \<longrightarrow> npu_isqrt (c32 (drop_count a)) \<noteq> 0"
    by (simp add: npu_isqrt_nonzero c32_c16_zero)
  have sm: "len \<le> c_small c \<longrightarrow> \<not> dr"
    using aqm_decide_small [of len "c_small c" "c_interval c" now ab "get_aqm v c i s1"] a by auto
  show ?thesis
  proof (cases "c_limit c \<noteq> 0 \<and> unat (c_limit c) \<le> in_chip s i")
    case True
    then show ?thesis using d lim by (simp add: sta_q_decide_def Let_def)
  next
    case False
    then have "d = dr \<and> s' = (if dr then count_aqm_drop (set_aqm v c i a s1) else set_aqm v c i a s1)"
      using d lim ab a by (auto simp: sta_q_decide_def Let_def)
    then show ?thesis using False div sm get_set_aqm [OF s1 i] by auto
  qed
qed

section \<open>Runs of the standing-queue rule\<close>

text \<open>
  The decisions of one station below its limit: at each the time, the frame's length and whether the
  queue is above target.
\<close>

fun aqm_run :: "u32 \<Rightarrow> u32 \<Rightarrow> (nat \<times> u32 \<times> bool) list \<Rightarrow> sta_q_aqm \<Rightarrow> bool list \<times> sta_q_aqm" where
  "aqm_run ivl sm [] a = ([], a)"
| "aqm_run ivl sm ((t, len, ab) # xs) a =
     (let (d, a') = aqm_decide ivl sm (of_nat t) len ab a;
          (ds, a'') = aqm_run ivl sm xs a'
      in (d # ds, a''))"

lemma aqm_run_append:
  "aqm_run ivl sm (xs @ ys) a =
     (let (ds, a') = aqm_run ivl sm xs a; (es, a'') = aqm_run ivl sm ys a' in (ds @ es, a''))"
proof (induction xs arbitrary: a)
  case Nil
  then show ?case by simp
next
  case (Cons x xs)
  then show ?case by (cases x) (simp add: Let_def split: prod.split)
qed

lemma length_aqm_run: "length (fst (aqm_run ivl sm xs a)) = length xs"
proof (induction xs arbitrary: a)
  case Nil
  then show ?case by simp
next
  case (Cons x xs)
  obtain t len ab where x: "x = (t, len, ab)" by (cases x)
  obtain d a' where "aqm_decide ivl sm (of_nat t) len ab a = (d, a')" by fastforce
  moreover obtain ds a'' where "aqm_run ivl sm xs a' = (ds, a'')" by fastforce
  ultimately show ?case using Cons [of a'] x by simp
qed

text \<open>After a run: either not above, or above since some call, whose time set the deadline.\<close>

definition above_since :: "u32 \<Rightarrow> (nat \<times> u32 \<times> bool) list \<Rightarrow> sta_q_aqm \<Rightarrow> nat \<Rightarrow> bool" where
  "above_since ivl xs a j \<longleftrightarrow>
     j < length xs \<and> (\<forall>k. j \<le> k \<and> k < length xs \<longrightarrow> snd (snd (xs ! k))) \<and>
     above a = of_nat (fst (xs ! j)) + ivl"

lemma aqm_keeps_above:
  assumes "aqm_decide ivl sm now len True a = (d, a')" "flags a AND AQM_ABOVE \<noteq> 0"
  shows "above a' = above a \<and> flags a' AND AQM_ABOVE \<noteq> 0"
proof -
  have "(x OR 2) AND 1 = x AND 1" for x :: u8
    by (rule bit_word_eqI) (auto simp: bit_simps bit_numeral_word_iff simp flip: One_nat_def)
  then show ?thesis
    using assms
    by (auto simp: aqm_decide_def aqm_next_drop_def aqm_first_drop_def Let_def AQM_ABOVE_def
        AQM_DROPPING_def split: if_splits)
qed

lemma aqm_starts_above:
  "aqm_decide ivl sm now len True a = (d, a') \<Longrightarrow> flags a AND AQM_ABOVE = 0 \<Longrightarrow>
   \<not> d \<and> above a' = now + ivl"
  by (auto simp: aqm_decide_def)

lemma aqm_run_above:
  assumes "flags a = 0" "aqm_run ivl sm xs a = (ds, a')" "flags a' AND AQM_ABOVE \<noteq> 0"
  shows "\<exists>j. above_since ivl xs a' j"
  using assms
proof (induction xs arbitrary: ds a' rule: rev_induct)
  case Nil
  then show ?case by (simp add: AQM_ABOVE_def)
next
  case (snoc x xs)
  obtain t len ab where x: "x = (t, len, ab)" by (cases x)
  obtain es a1 where r: "aqm_run ivl sm xs a = (es, a1)" by fastforce
  obtain d where d: "aqm_decide ivl sm (of_nat t) len ab a1 = (d, a')"
    using snoc.prems(2) r x by (auto simp: aqm_run_append split: prod.splits)
  have ab: ab
  proof (rule ccontr)
    assume "\<not> ab"
    then show False using d snoc.prems(3) by (auto simp: aqm_decide_def)
  qed
  show ?case
  proof (cases "flags a1 AND AQM_ABOVE = 0")
    case True
    then have "above_since ivl (xs @ [x]) a' (length xs)"
      using aqm_starts_above d ab x by (auto simp: above_since_def nth_append)
    then show ?thesis by blast
  next
    case False
    then obtain j where "above_since ivl xs a1 j" using snoc.IH [OF snoc.prems(1) r] by blast
    moreover have "above a' = above a1" using aqm_keeps_above [OF _ False] d ab by simp
    ultimately have "above_since ivl (xs @ [x]) a' j"
      using ab x by (auto simp: above_since_def nth_append less_Suc_eq)
    then show ?thesis by blast
  qed
qed

section \<open>Properties\<close>

text \<open>
  C9. In every reachable state of the three harts' interleaved hooks, the 16-bit difference of a
  station's counts, read as signed, is exactly the number of tokens the map gives to the station, so
  it is never negative and never wraps; and a done report never indexes outside the tables.
\<close>

theorem sta_counts_exact:
  assumes "sta_reach v s" "sta < STA_Q_STAS"
  shows "sint (sta_q_depth v sta s) = int (in_chip s sta) \<and>
    (\<exists>s'. sta_q_done_tok tok tick s = Inr s' \<and> in_chip s' sta \<le> in_chip s sta)"
proof -
  have ok: "sta_ok v s" using sta_ok_reach assms(1) by blast
  then obtain m where m: "sta_q_tok s = Some m" "length m = STA_Q_TOKENS" "\<forall>x \<in> set m. entry_ok x"
      "length (sta_q_done s) = STA_Q_STAS"
    by (auto simp: sta_ok_split map_ok_def tables_ok_def)
  have chip: "in_chip (map_set i 0xFFFF s) sta \<le> in_chip s sta" if "i < STA_Q_TOKENS" for i
    using in_chip_set [OF m(1), of i "0xFFFF" sta] m(2) that of_nat_none [OF assms(2)] by auto
  have ch: "in_chip (t\<lparr>sta_q_done := x\<rparr>) k = in_chip t k" for t x k by (simp add: in_chip_def)
  have "\<exists>s'. sta_q_done_tok tok tick s = Inr s' \<and> in_chip s' sta \<le> in_chip s sta"
  proof (cases "unat tok < STA_Q_TOKENS \<and> c32 (m ! unat tok) \<noteq> STA_Q_NONE")
    case True
    then have "unat (m ! unat tok) < STA_Q_STAS" using m(2,3) by (auto simp: entry_ok_def)
    then show ?thesis using True m chip [of "unat tok"] tok_index [of tok]
      by (simp add: sta_q_done_tok_def Let_def ch)
  next
    case False
    then have "sta_q_done_tok tok tick s = Inr s"
      using m(1) tok_index [of tok] by (auto simp: sta_q_done_tok_def Let_def)
    then show ?thesis by simp
  qed
  then show ?thesis using depth_sint [OF ok assms(2)] by blast
qed

definition sta_qs_reset :: sta_qs where
  "sta_qs_reset =
     \<lparr>wifi_sta_q = \<lparr>limit = 0, target = 0, interval = 0, limit_drops = 0, aqm_drops = 0, delay = 0,
        min_q = 0, small = 0\<rparr>, sta_q_tok = None, sta_q_sent = [], sta_q_sent_host = [],
      sta_q_done = [], sta_q_aqm = [], sta_q_aqm_host = [], sta_q_probe = []\<rparr>"

definition sta_qs_an7583 :: sta_qs where
  "sta_qs_an7583 = sta_q_tables an7583_mt7993 720 sta_qs_reset"

lemma sta_one_sent:
  "sta_reach an7583_mt7993 (sta_q_sent_tok (sta_q_snap sta_qs_an7583) 5 7 0 sta_qs_an7583)"
proof (rule sta_reach.step)
  show "sta_reach an7583_mt7993 sta_qs_an7583"
    unfolding sta_qs_an7583_def by (rule sta_reach.init)
  show "sta_step an7583_mt7993 sta_qs_an7583
      (sta_q_sent_tok (sta_q_snap sta_qs_an7583) 5 7 0 sta_qs_an7583)"
    by (rule sta_step.sent [where m = "replicate STA_Q_TOKENS 0xFFFF"])
      (auto simp: sta_q_snap_def sta_qs_an7583_def sta_q_tables_def Let_def STA_Q_NONE_def)
qed

theorem sta_counts_exact_witness:
  "sint (sta_q_depth an7583_mt7993 7
     (sta_q_sent_tok (sta_q_snap sta_qs_an7583) 5 7 0 sta_qs_an7583)) =
   int (in_chip (sta_q_sent_tok (sta_q_snap sta_qs_an7583) 5 7 0 sta_qs_an7583) 7)"
  using sta_counts_exact [OF sta_one_sent, of 7] by (simp add: STA_Q_STAS_def)

text \<open>
  C10. The decision in a reachable state. With a limit set, a frame of a station that has at least
  that many frames in the chip is always dropped. Otherwise a frame of at most \<open>small\<close> bytes never
  is, and a drop of the standing-queue rule has divided by a nonzero root.
\<close>

theorem sta_limit_decides:
  assumes "sta_reach v s" "sta < STA_Q_STAS" "sta_q_decide v c sta now len s = (d, s')"
  shows "(c_limit c \<noteq> 0 \<and> unat (c_limit c) \<le> in_chip s sta \<longrightarrow> d) \<and>
    (\<not> (c_limit c \<noteq> 0 \<and> unat (c_limit c) \<le> in_chip s sta) \<longrightarrow>
      (len \<le> c_small c \<longrightarrow> \<not> d) \<and> (d \<longrightarrow> npu_isqrt (c32 (drop_count (get_aqm v c sta s'))) \<noteq> 0))"
  by (rule decide_cases [OF sta_ok_reach [OF assms(1)] assms(2,3)])

theorem sta_limit_decides_witness:
  "\<exists>d s'. sta_q_decide an7583_mt7993 (sta_q_snap sta_qs_an7583) 7 0 100
     (sta_q_sent_tok (sta_q_snap sta_qs_an7583) 5 7 0 sta_qs_an7583) = (d, s') \<and> (d \<longrightarrow> 8192 \<le> in_chip
     (sta_q_sent_tok (sta_q_snap sta_qs_an7583) 5 7 0 sta_qs_an7583) 7)"
proof -
  let ?s = "sta_q_sent_tok (sta_q_snap sta_qs_an7583) 5 7 0 sta_qs_an7583"
  obtain d s' where d: "sta_q_decide an7583_mt7993 (sta_q_snap sta_qs_an7583) 7 0 100 ?s = (d, s')"
    by fastforce
  have c: "c_limit (sta_q_snap sta_qs_an7583) = 8192" "c_small (sta_q_snap sta_qs_an7583) = 256"
    by (simp_all add: sta_q_snap_def sta_qs_an7583_def sta_q_tables_def Let_def sta_q_consts)
  have "7 < STA_Q_STAS" by (simp add: STA_Q_STAS_def)
  then show ?thesis using sta_limit_decides [OF sta_one_sent _ d] c d by auto
qed

lemma elapsed_interval:
  assumes "\<not> (of_nat t - (of_nat t0 + ivl) :: u32) <s 0" "t0 \<le> t" "unat ivl < 2 ^ 31"
  shows "unat ivl \<le> t - t0"
proof (rule ccontr)
  assume n: "\<not> unat ivl \<le> t - t0"
  define k where "k = unat ivl - (t - t0)"
  have k: "0 < k" "k < 2 ^ 31" "t + k = t0 + unat ivl" using n assms(2,3) by (auto simp: k_def)
  have "(of_nat t + of_nat k :: u32) = of_nat t0 + ivl"
    using arg_cong [OF k(3), of "of_nat :: nat \<Rightarrow> u32"] by simp
  then have "of_nat t - (of_nat t0 + ivl) = - (of_nat k :: u32)" by (simp add: algebra_simps)
  moreover have "sint (- (of_nat k :: u32)) = - int k"
  proof -
    have "sint (- (of_nat k :: u32)) = sint (word_of_int (- int k) :: u32)" by simp
    also have "\<dots> = - int k"
      using k(2) by (simp only: signed_of_int) (simp add: signed_take_bit_int_eq_self)
    finally show ?thesis .
  qed
  ultimately show False using assms(1) k(1) by (simp add: word_sless_alt)
qed

text \<open>
  C11. A standing-queue drop needs a whole interval above target: in any run of decisions of a station
  that starts below target, with times that never go back, a dropped frame is longer than
  \<open>small\<close>, and the queue was above target at every decision since one made at least an interval
  before.
\<close>

theorem aqm_drop_needs_interval:
  assumes "flags a = 0" "unat ivl < 2 ^ 31" "sorted (map fst xs)" "i < length xs"
    "fst (aqm_run ivl sm xs a) ! i"
  shows "sm < fst (snd (xs ! i)) \<and>
    (\<exists>j\<le>i. unat ivl \<le> fst (xs ! i) - fst (xs ! j) \<and> (\<forall>k. j \<le> k \<and> k \<le> i \<longrightarrow> snd (snd (xs ! k))))"
proof -
  obtain t len ab where x: "xs ! i = (t, len, ab)" by (cases "xs ! i")
  have xs: "xs = take i xs @ (t, len, ab) # drop (Suc i) xs"
    using id_take_nth_drop [OF assms(4)] x by simp
  obtain es a1 where r: "aqm_run ivl sm (take i xs) a = (es, a1)" by fastforce
  obtain d a2 where d: "aqm_decide ivl sm (of_nat t) len ab a1 = (d, a2)" by fastforce
  obtain fs a3 where f: "aqm_run ivl sm (drop (Suc i) xs) a2 = (fs, a3)" by fastforce
  have "length es = i" using length_aqm_run [of ivl sm "take i xs" a] r assms(4) by simp
  then have dd: d using assms(5) xs r d f
    by (metis aqm_run.simps(2) aqm_run_append case_prod_conv fst_conv nth_append_length)
  then have c: "ab" "flags a1 AND AQM_ABOVE \<noteq> 0" "\<not> of_nat t - above a1 <s 0" "sm < len"
    using d by (auto simp: aqm_decide_def split: if_splits)
  obtain j where j: "above_since ivl (take i xs) a1 j"
    using aqm_run_above [OF assms(1) r c(2)] by blast
  have t: "fst (xs ! j) \<le> t"
    using sorted_nth_mono [OF assms(3), of j i] j assms(4) x by (simp add: above_since_def)
  have "unat ivl \<le> t - fst (xs ! j)"
    using elapsed_interval [OF _ t assms(2)] c(3) j by (simp add: above_since_def)
  moreover have "\<forall>k. j \<le> k \<and> k \<le> i \<longrightarrow> snd (snd (xs ! k))"
    using j c(1) x assms(4) by (auto simp: above_since_def le_less)
  moreover have "j \<le> i" using j by (simp add: above_since_def)
  ultimately show ?thesis using c(4) x by auto
qed

definition aqm_idle :: sta_q_aqm where
  "aqm_idle = \<lparr>above = 0, next_drop = 0, drop_count = 0, last_count = 0, flags = 0\<rparr>"

theorem aqm_drop_needs_interval_witness:
  "fst (aqm_run 100 64 [(0, 1500, True), (60, 1500, True), (120, 1500, True)] aqm_idle) ! 2 \<and>
   (\<exists>j\<le>2. (100 :: nat) \<le> 120 - fst ([(0, 1500 :: u32, True), (60, 1500, True), (120, 1500, True)] ! j))"
proof -
  have "fst (aqm_run 100 64 [(0, 1500, True), (60, 1500, True), (120, 1500, True)] aqm_idle) ! 2"
    by (simp add: aqm_idle_def aqm_decide_def AQM_ABOVE_def AQM_DROPPING_def word_sless_alt Let_def)
  then show ?thesis
    using aqm_drop_needs_interval [of aqm_idle 100 "[(0, 1500, True), (60, 1500, True), (120, 1500, True)]" 2 64]
    by (auto simp: aqm_idle_def)
qed

text \<open>
  C12. The deadline is compared modulo \<open>2 ^ 32\<close> and is not moved while drops go on: a queue that
  stands above target without a break is not controlled from \<open>2 ^ 31\<close> to \<open>2 ^ 32\<close> cycles after
  the deadline. In that window no decision drops, whatever the frame, and the state stays as it is.
\<close>

theorem aqm_blind_window:
  assumes "flags a AND AQM_ABOVE \<noteq> 0"
    "\<forall>(t, len, ab) \<in> set xs. ab \<and> 2 ^ 31 \<le> unat (of_nat t - above a)"
  shows "aqm_run ivl sm xs a = (replicate (length xs) False, a)"
  using assms(2)
proof (induction xs)
  case Nil
  then show ?case by simp
next
  case (Cons x xs)
  obtain t len ab where x: "x = (t, len, ab)" by (cases x)
  have neg: "of_nat t - above a <s 0"
  proof -
    let ?w = "of_nat t - above a :: u32"
    have "2 ^ 31 \<le> unat ?w" using Cons.prems x by simp
    then have "unat ?w div 2 ^ 31 = 1" using unat_lt32 [of ?w] by (intro div_nat_eqI) auto
    then have "odd (unat ?w div 2 ^ 31)" by simp
    then have "bit ?w 31" by (metis bit_iff_odd bit_unsigned_iff)
    then have "sint ?w < 0" by (simp add: bit_last_iff [symmetric])
    then show ?thesis by (simp add: word_sless_alt)
  qed
  then have "aqm_decide ivl sm (of_nat t) len ab a = (False, a)"
    using Cons.prems x assms(1) by (simp add: aqm_decide_def)
  then show ?case using Cons x by simp
qed

theorem aqm_blind_window_witness:
  "aqm_run 72000000 256 [(2147483748, 1500, True), (4294967395, 1500, True)]
     (aqm_idle\<lparr>flags := 3, above := 100\<rparr>) = ([False, False], aqm_idle\<lparr>flags := 3, above := 100\<rparr>)"
  using aqm_blind_window [of "aqm_idle\<lparr>flags := 3, above := 100\<rparr>"
      "[(2147483748, 1500, True), (4294967395, 1500, True)]" 72000000 256]
  by (simp add: AQM_ABOVE_def)

end
