(* ===== verification/Reorder.thy ===== *)
theory Reorder
  imports Bufid
begin

text \<open>
  The block ack reorder engine of the kite chips: \<open>npu_wifi_ba.c\<close>, the entry set-up of
  \<open>npu_wifi_init.c\<close> and the window classifier of \<open>npu_wifi_rx.c\<close>.

  Entries (28 bytes) and nodes (36 bytes) are records in two heaps indexed by address; field names
  follow the offset comment of \<open>npu_wifi_ba.c\<close>. \<open>next\<close> pointers are addresses and 0 is the
  end, as in the code, so a loop over a list is a partial function: \<open>None\<close> is a loop that does
  not end. The two functions a released frame goes to, \<open>pkt_forward\<close> and \<open>tdma_tx_submit\<close>,
  are represented by what they return (\<open>ret\<close>, a function of the calls so far); \<open>calls\<close> is
  the list of these calls and \<open>enq\<close> the list of frames handed to \<open>pkt_enqueue_bridge\<close>.
\<close>

section \<open>State\<close>

record ba_node =
  n_next :: u32
  n_msdu_head :: u32
  n_msdu_tail :: u32
  n_msdus :: u16
  n_hdr :: u8
  n_tid :: u8
  n_wcid :: u8
  n_bss :: u8
  n_buf :: u16
  n_idx :: u16
  n_sn :: u16
  n_len :: u16
  n_amsdu :: u8
  n_pool :: u8
  n_tick :: u32

record ba_entry =
  e_head :: u32
  e_tail :: u32
  e_count :: u16
  e_chain :: u32
  e_win :: u16
  e_last :: u16
  e_ref :: u16
  e_amsdu :: u8
  e_flag :: u8
  e_state :: u8
  e_band :: u8

datatype ba_call =
    PktForward u16 u32 u32 s32   \<comment> \<open>buffer, length, band, classify result\<close>
  | TdmaSubmit u32 u32 u32 u32   \<comment> \<open>buffer, length, address, band\<close>

text \<open>A frame for the bridge: buffer, length, header offset, band, BSS.\<close>

type_synonym ba_frame = "u32 \<times> u32 \<times> u32 \<times> u32 \<times> u32"

record ba =
  nodes :: "u32 \<Rightarrow> ba_node"
  ents :: "u32 \<Rightarrow> ba_entry"
  pri_idx :: "u16 list"
  sec_idx :: "u16 list"
  pri_widx :: u16
  pri_ridx :: u16
  sec_widx :: u16
  sec_ridx :: u16
  ba_node_pool_base :: u32
  wifi_dram_ba_node_addr :: u32
  ba_table_a :: u32
  ba_table_b :: u32
  wifi_dbdc_mode :: u8
  wifi_force_to_cpu :: u8
  wifi_wait_band_2g :: u8
  wifi_wait_band_5g :: u8
  wifi_band_cap :: u8
  wifi_flushone_timeout :: u16
  wifi_pkt_buf_addr :: u32
  ratelimit_table :: "u32 \<Rightarrow> u32"
  reorder_alloc_mutex :: u32
  reorder_free_mutex :: u32
  ba_mutex_5g :: u32
  ba_mutex_2g :: u32
  queue_mutex_2g :: u32
  queue_mutex_5g :: u32
  ba_mtx :: mutexes
  bufs :: "bufids \<times> access list"
  calls :: "ba_call list"
  enq :: "ba_frame list"

definition REORDER_PRI_POOL_SIZE :: nat where "REORDER_PRI_POOL_SIZE = 2000"
definition REORDER_SEC_POOL_SIZE :: nat where "REORDER_SEC_POOL_SIZE = 5000"
definition REORDER_NODE_SIZE :: u32 where "REORDER_NODE_SIZE = 36"

lemmas reorder_consts = REORDER_PRI_POOL_SIZE_def REORDER_SEC_POOL_SIZE_def REORDER_NODE_SIZE_def

text \<open>A field update of the node or entry at an address.\<close>

definition upd_node :: "u32 \<Rightarrow> (ba_node \<Rightarrow> ba_node) \<Rightarrow> ba \<Rightarrow> ba" where
  "upd_node a f s = s\<lparr>nodes := (nodes s)(a := f (nodes s a))\<rparr>"

definition upd_ent :: "u32 \<Rightarrow> (ba_entry \<Rightarrow> ba_entry) \<Rightarrow> ba \<Rightarrow> ba" where
  "upd_ent a f s = s\<lparr>ents := (ents s)(a := f (ents s a))\<rparr>"

definition ba_mutex_take :: "variant \<Rightarrow> u32 \<Rightarrow> ba \<Rightarrow> ba" where
  "ba_mutex_take v i s = s\<lparr>ba_mtx := mutex_lock v i (ba_mtx s)\<rparr>"

definition ba_mutex_give :: "variant \<Rightarrow> u32 \<Rightarrow> ba \<Rightarrow> ba" where
  "ba_mutex_give v i s = s\<lparr>ba_mtx := mutex_unlock v i (ba_mtx s)\<rparr>"

definition wifi_cnt_inc :: "u32 \<Rightarrow> u32 \<Rightarrow> ba \<Rightarrow> ba" where
  "wifi_cnt_inc band off s =
     (if wifi_debug_flags (fst (bufs s)) AND 4 = 0 then s
      else s\<lparr>bufs := (wifi_cnt_add band off (fst (bufs s)), snd (bufs s))\<rparr>)"

section \<open>Initialisation\<close>

definition wifi_queue_mutex_init :: "ba \<Rightarrow> ba" where
  "wifi_queue_mutex_init s =
     s\<lparr>queue_mutex_2g := 10, queue_mutex_5g := 11, ba_mutex_5g := 5, ba_mutex_2g := 6\<rparr>"

definition node_pools_init :: "u32 \<Rightarrow> u32 \<Rightarrow> u32 \<Rightarrow> ba \<Rightarrow> ba" where
  "node_pools_init base pri sec s =
     s\<lparr>ba_node_pool_base := base, reorder_alloc_mutex := 8, reorder_free_mutex := 9,
       pri_idx := (if pri \<noteq> 0 then map of_nat [0..<REORDER_PRI_POOL_SIZE] else pri_idx s),
       pri_widx := 0, pri_ridx := 0,
       sec_idx := (if sec \<noteq> 0 then map of_nat [0..<REORDER_SEC_POOL_SIZE] else sec_idx s),
       sec_widx := 0, sec_ridx := 0\<rparr>"

definition wifi_ba_node_init :: "variant \<Rightarrow> sram \<times> ba \<Rightarrow> sram_fault + (sram \<times> ba)" where
  "wifi_ba_node_init v ms =
     (case sram_allocs v [4, 12, 13] (fst ms) of
        Inl f \<Rightarrow> Inl f
      | Inr (bs, m) \<Rightarrow> Inr (m, node_pools_init (bs ! 0) (bs ! 1) (bs ! 2) (snd ms)))"

section \<open>Nodes\<close>

definition reorder_node_free :: "variant \<Rightarrow> u16 \<Rightarrow> u8 \<Rightarrow> u32 \<Rightarrow> ba \<Rightarrow> ba" where
  "reorder_node_free v node_idx node_type band s =
     (let s = ba_mutex_take v (reorder_free_mutex s) s;
          s = (if node_type \<noteq> 0
               then s\<lparr>pri_idx := (pri_idx s)[unat (pri_ridx s) := node_idx], pri_ridx := pri_ridx s + 1\<rparr>
               else s\<lparr>sec_idx := (sec_idx s)[unat (sec_ridx s) := node_idx], sec_ridx := sec_ridx s + 1\<rparr>);
          s = wifi_cnt_inc band 212 s;
          s = (if pri_ridx s = of_nat REORDER_PRI_POOL_SIZE then s\<lparr>pri_ridx := 0\<rparr> else s);
          s = (if sec_ridx s = of_nat REORDER_SEC_POOL_SIZE then s\<lparr>sec_ridx := 0\<rparr> else s)
      in ba_mutex_give v (reorder_free_mutex s) s)"

text \<open>The node's address (0 when there is none), the pool type and the index.\<close>

definition reorder_node_alloc :: "variant \<Rightarrow> u32 \<Rightarrow> u32 \<Rightarrow> u16 \<Rightarrow> ba \<Rightarrow> (u32 \<times> u32 \<times> u16) \<times> ba" where
  "reorder_node_alloc v band pool_type idx s =
     (let s = ba_mutex_take v (reorder_alloc_mutex s) s;
          w = pri_widx s;
          next = (if c32 w = of_nat REORDER_PRI_POOL_SIZE - 1 then 0 else w + 1)
      in if pri_ridx s \<noteq> next then
           (let s = s\<lparr>pri_widx := w + 1\<rparr>;
                idx = pri_idx s ! unat w;
                s = (if pri_widx s = of_nat REORDER_PRI_POOL_SIZE then s\<lparr>pri_widx := 0\<rparr> else s);
                s = wifi_cnt_inc band 220 s;
                s = ba_mutex_give v (reorder_alloc_mutex s) s
            in ((ba_node_pool_base s + REORDER_NODE_SIZE * c32 idx, pool_type, idx), s))
         else
           (let w = sec_widx s;
                next = (if c32 w = of_nat REORDER_SEC_POOL_SIZE - 1 then 0 else w + 1)
            in if sec_ridx s \<noteq> next then
                 (let s = s\<lparr>sec_widx := w + 1\<rparr>;
                      idx = sec_idx s ! unat w;
                      s = (if sec_widx s = of_nat REORDER_SEC_POOL_SIZE then s\<lparr>sec_widx := 0\<rparr> else s);
                      s = wifi_cnt_inc band 224 s;
                      s = ba_mutex_give v (reorder_alloc_mutex s) s
                  in ((wifi_dram_ba_node_addr s + REORDER_NODE_SIZE * c32 idx, 0, idx), s))
               else
                 (let s = wifi_cnt_inc band 216 s
                  in ((0, pool_type, idx), ba_mutex_give v (reorder_alloc_mutex s) s))))"

section \<open>Frames out of the engine\<close>

definition wifi_pkt_va :: "u32 \<Rightarrow> ba \<Rightarrow> u32" where
  "wifi_pkt_va buf_id s = ((wifi_pkt_buf_addr s AND 0x3FFFFFFF) OR 0x40000000) + push_bit 12 buf_id"

definition ba_buf_free :: "variant \<Rightarrow> u32 \<Rightarrow> u32 \<Rightarrow> ba \<Rightarrow> ba" where
  "ba_buf_free v band buf_id s = s\<lparr>bufs := buf_id_free v 0 band buf_id (bufs s)\<rparr>"

text \<open>A call of another module: its result, and the buffer given back when it refuses the frame.\<close>

definition ba_call_out :: "variant \<Rightarrow> (ba_call list \<Rightarrow> s32) \<Rightarrow> ba_call \<Rightarrow> u32 \<Rightarrow> u32 \<Rightarrow> ba \<Rightarrow> s32 \<times> ba" where
  "ba_call_out v ret call band buf_id s =
     (let s = s\<lparr>calls := calls s @ [call]\<rparr>;
          r = ret (calls s)
      in (r, if r \<noteq> 0 then ba_buf_free v band buf_id s else s))"

text \<open>The byte count is two words, the low one first, with the carry of \<open>wifi_u64_add\<close>.\<close>

definition wifi_u64_add :: "u32 \<Rightarrow> u32 \<Rightarrow> u32 \<Rightarrow> bufids \<Rightarrow> bufids" where
  "wifi_u64_add t off n s =
     (let lo = cnt_block s t off;
          s = block_add t off n s
      in if lo + n < lo then block_add t (off + 4) 1 s else s)"

definition ba_tx_bytes :: "u32 \<Rightarrow> u32 \<Rightarrow> ba \<Rightarrow> ba" where
  "ba_tx_bytes band tx_len s =
     (if wifi_debug_flags (fst (bufs s)) AND 4 \<noteq> 0 \<and> band \<le> 1
      then s\<lparr>bufs := (wifi_u64_add (if band \<noteq> 0 then 9 else 10) 100 tx_len (fst (bufs s)), snd (bufs s))\<rparr>
      else s)"

definition pkt_enqueue_bridge ::
  "variant \<Rightarrow> (ba_call list \<Rightarrow> s32) \<Rightarrow> u32 \<Rightarrow> u32 \<Rightarrow> u32 \<Rightarrow> u32 \<Rightarrow> u32 \<Rightarrow> ba \<Rightarrow> s32 \<times> ba" where
  "pkt_enqueue_bridge v ret buf_id pkt_len hdr band bss s =
     (let s = s\<lparr>enq := enq s @ [(buf_id, pkt_len, hdr, band, bss)]\<rparr>
      in if ratelimit_table s (band * 16 + bss) \<noteq> 0 then
           ba_call_out v ret (PktForward (c16 buf_id) pkt_len band (- 2)) band buf_id s
         else if wifi_force_to_cpu s \<noteq> 0 \<and>
                 (band = 1 \<and> wifi_wait_band_5g s = 1 \<or> band = 0 \<and> wifi_wait_band_2g s = 1) \<or>
                 wifi_band_cap s = 0 then
           ba_call_out v ret (PktForward (c16 buf_id) pkt_len band 0) band buf_id s
         else
           (let size = (pkt_len - hdr) AND 0xFFFF;
                tx_len = (size - 2) AND 0xFFFF;
                s = ba_tx_bytes band tx_len s;
                s = wifi_cnt_inc band 84 s;
                s = (if size - 506 \<le> 16 then wifi_cnt_inc band 92 s
                     else if size - 86 \<le> 8 then wifi_cnt_inc band 88 s
                     else if size - 1512 \<le> 16 then wifi_cnt_inc band 96 s else s)
            in ba_call_out v ret (TdmaSubmit buf_id tx_len (wifi_pkt_va buf_id s + 2 + hdr) band)
                 band buf_id s))"

section \<open>Entries\<close>

definition ba_lock_id :: "u32 \<Rightarrow> ba \<Rightarrow> u32" where
  "ba_lock_id entry s =
     (if e_band (ents s entry) OR wifi_dbdc_mode s \<noteq> 0 then ba_mutex_5g s else ba_mutex_2g s)"

definition ba_lock :: "variant \<Rightarrow> u32 \<Rightarrow> ba \<Rightarrow> ba" where
  "ba_lock v entry s = ba_mutex_take v (ba_lock_id entry s) s"

definition ba_unlock :: "variant \<Rightarrow> u32 \<Rightarrow> ba \<Rightarrow> ba" where
  "ba_unlock v entry s = ba_mutex_give v (ba_lock_id entry s) s"

definition ba_pop_mpdu :: "u32 \<Rightarrow> ba \<Rightarrow> u32 \<times> ba" where
  "ba_pop_mpdu entry s =
     (let mpdu = e_head (ents s entry);
          s = upd_ent entry (\<lambda>e. e\<lparr>e_count := e_count e - 1\<rparr>) s;
          s = upd_ent entry (\<lambda>e. e\<lparr>e_head := n_next (nodes s mpdu)\<rparr>) s;
          s = (if n_next (nodes s mpdu) = 0
               then upd_ent entry (\<lambda>e. e\<lparr>e_tail := 0\<rparr>) (upd_node mpdu (\<lambda>n. n\<lparr>n_next := 0\<rparr>) s)
               else s)
      in (mpdu, s))"

text \<open>A node's frame to the bridge; \<open>mpdu\<close> gives the BSS, \<open>mode\<close> 0 counts nothing.\<close>

definition ba_send_node ::
  "variant \<Rightarrow> (ba_call list \<Rightarrow> s32) \<Rightarrow> u32 \<Rightarrow> u32 \<Rightarrow> u32 \<Rightarrow> nat \<Rightarrow> ba \<Rightarrow> ba" where
  "ba_send_node v ret node mpdu band mode s =
     (let n = nodes s node;
          s = snd (pkt_enqueue_bridge v ret (c32 (n_buf n)) (c32 (n_len n)) (c32 (n_hdr n)) band
                     (c32 (n_bss (nodes s mpdu))) s)
      in if mode \<noteq> 0 then wifi_cnt_inc band 68 s else s)"

text \<open>One turn of the MSDU loop: unlink the first MSDU, send it, free its node.\<close>

definition ba_release_msdu ::
  "variant \<Rightarrow> (ba_call list \<Rightarrow> s32) \<Rightarrow> u32 \<Rightarrow> u32 \<Rightarrow> nat \<Rightarrow> ba \<Rightarrow> ba" where
  "ba_release_msdu v ret mpdu band mode s =
     (let msdu = n_msdu_head (nodes s mpdu);
          s = upd_node mpdu (\<lambda>n. n\<lparr>n_msdus := n_msdus n - 1\<rparr>) s;
          s = upd_node mpdu (\<lambda>n. n\<lparr>n_msdu_head := n_next (nodes s msdu)\<rparr>) s;
          s = (if n_next (nodes s msdu) = 0
               then upd_node mpdu (\<lambda>n. n\<lparr>n_msdu_tail := 0\<rparr>) (upd_node msdu (\<lambda>n. n\<lparr>n_next := 0\<rparr>) s)
               else s);
          s = ba_send_node v ret msdu mpdu band mode s
      in reorder_node_free v (n_idx (nodes s msdu)) (n_pool (nodes s msdu)) band s)"

partial_function (option) ba_release_msdus ::
  "variant \<Rightarrow> (ba_call list \<Rightarrow> s32) \<Rightarrow> u32 \<Rightarrow> u32 \<Rightarrow> nat \<Rightarrow> ba \<Rightarrow> ba option" where
  "ba_release_msdus v ret mpdu band mode s =
     (if n_msdu_head (nodes s mpdu) \<noteq> 0
      then ba_release_msdus v ret mpdu band mode (ba_release_msdu v ret mpdu band mode s)
      else Some s)"

text \<open>Modes 0 (flush), 1 (in order) and 2; mode 2 also prints bad nodes, which changes nothing.\<close>

definition ba_release_mpdu ::
  "variant \<Rightarrow> (ba_call list \<Rightarrow> s32) \<Rightarrow> u32 \<Rightarrow> u32 \<Rightarrow> nat \<Rightarrow> ba \<Rightarrow> ba option" where
  "ba_release_mpdu v ret mpdu band mode s =
     (case ba_release_msdus v ret mpdu band mode (ba_send_node v ret mpdu mpdu band mode s) of
        None \<Rightarrow> None
      | Some s \<Rightarrow> Some (reorder_node_free v (n_idx (nodes s mpdu)) (n_pool (nodes s mpdu)) band s))"

partial_function (option) ba_flush_loop ::
  "variant \<Rightarrow> (ba_call list \<Rightarrow> s32) \<Rightarrow> u32 \<Rightarrow> u32 \<Rightarrow> ba \<Rightarrow> ba option" where
  "ba_flush_loop v ret entry band s =
     (if e_head (ents s entry) \<noteq> 0
      then (let (mpdu, s) = ba_pop_mpdu entry s;
                s = upd_ent entry (\<lambda>e. e\<lparr>e_last := n_sn (nodes s mpdu)\<rparr>) s
            in case ba_release_mpdu v ret mpdu band 0 s of
                 None \<Rightarrow> None
               | Some s \<Rightarrow> ba_flush_loop v ret entry band s)
      else Some s)"

definition ba_flush_entry :: "variant \<Rightarrow> (ba_call list \<Rightarrow> s32) \<Rightarrow> u32 \<Rightarrow> ba \<Rightarrow> ba option" where
  "ba_flush_entry v ret entry s =
     (let band = c32 (e_band (ents s entry))
      in case ba_flush_loop v ret entry band (ba_lock v entry s) of
           None \<Rightarrow> None
         | Some s \<Rightarrow> Some (ba_unlock v entry (upd_ent entry (\<lambda>e. e\<lparr>e_chain := 0\<rparr>) s)))"

text \<open>\<open>sn\<close> is \<open>seq\<close> or behind it, in the code's modular test.\<close>

definition sn_le :: "u16 \<Rightarrow> u32 \<Rightarrow> bool" where
  "sn_le sn seq \<longleftrightarrow> sn = c16 seq \<or> c16 (c32 sn - seq) AND 0x800 \<noteq> 0"

partial_function (option) ba_le_loop ::
  "variant \<Rightarrow> (ba_call list \<Rightarrow> s32) \<Rightarrow> u32 \<Rightarrow> u32 \<Rightarrow> u32 \<Rightarrow> ba \<Rightarrow> ba option" where
  "ba_le_loop v ret entry band seq s =
     (if e_head (ents s entry) \<noteq> 0 \<and> sn_le (n_sn (nodes s (e_head (ents s entry)))) seq
      then (let (mpdu, s) = ba_pop_mpdu entry s
            in case ba_release_mpdu v ret mpdu band 2 s of
                 None \<Rightarrow> None
               | Some s \<Rightarrow> ba_le_loop v ret entry band seq s)
      else Some s)"

definition ba_indicate_le_seq :: "variant \<Rightarrow> (ba_call list \<Rightarrow> s32) \<Rightarrow> u32 \<Rightarrow> u32 \<Rightarrow> ba \<Rightarrow> ba option" where
  "ba_indicate_le_seq v ret entry seq s =
     (let band = c32 (e_band (ents s entry))
      in case ba_le_loop v ret entry band seq (ba_lock v entry s) of
           None \<Rightarrow> None
         | Some s \<Rightarrow> Some (ba_unlock v entry s))"

text \<open>
  The scan: \<open>sn\<close> is the sequence number whose successor is looked for, \<open>found\<close> the last one
  released.
\<close>

partial_function (option) ba_scan_loop ::
  "variant \<Rightarrow> (ba_call list \<Rightarrow> s32) \<Rightarrow> u32 \<Rightarrow> u32 \<Rightarrow> u32 \<Rightarrow> u32 \<Rightarrow> ba \<Rightarrow> (u32 \<times> ba) option" where
  "ba_scan_loop v ret entry band sn found s =
     (if e_head (ents s entry) \<noteq> 0 \<and>
         c32 (n_sn (nodes s (e_head (ents s entry)))) = (sn + 1) AND 0xFFF
      then (let (mpdu, s) = ba_pop_mpdu entry s;
                sn = c32 (n_sn (nodes s mpdu))
            in case ba_release_mpdu v ret mpdu band 1 s of
                 None \<Rightarrow> None
               | Some s \<Rightarrow> ba_scan_loop v ret entry band sn sn s)
      else Some (found, s))"

definition ba_seq_scan :: "variant \<Rightarrow> (ba_call list \<Rightarrow> s32) \<Rightarrow> u32 \<Rightarrow> u32 \<Rightarrow> ba \<Rightarrow> (u32 \<times> ba) option" where
  "ba_seq_scan v ret entry seq s =
     (let band = c32 (e_band (ents s entry))
      in case ba_scan_loop v ret entry band seq 0xFFFF (ba_lock v entry s) of
           None \<Rightarrow> None
         | Some (r, s) \<Rightarrow> Some (r, ba_unlock v entry s))"

text \<open>\<open>last = r\<close> unless the scan found nothing.\<close>

definition set_last_found :: "u32 \<Rightarrow> u32 \<Rightarrow> ba \<Rightarrow> ba" where
  "set_last_found entry r s =
     (if r \<noteq> 0xFFFF then upd_ent entry (\<lambda>e. e\<lparr>e_last := c16 r\<rparr>) s else s)"

definition ba_state_update ::
  "variant \<Rightarrow> (ba_call list \<Rightarrow> s32) \<Rightarrow> u32 \<Rightarrow> u32 \<Rightarrow> u32 \<Rightarrow> ba \<Rightarrow> (u32 \<times> ba) option" where
  "ba_state_update v ret sn check_type entry s =
     (let ref_sn = e_ref (ents s entry);
          state_adj = e_amsdu (ents s entry) - 2
      in if ref_sn = c16 sn \<and> (1 < state_adj \<or> check_type \<noteq> 3) then Some (0, s)
         else if ref_sn \<noteq> c16 sn \<and> 1 < state_adj then Some (0, s)
         else
           (let s = wifi_cnt_inc (c32 (e_band (ents s entry))) 196 s;
                s = upd_ent entry (\<lambda>e. e\<lparr>e_chain := 0\<rparr>) s
            in if e_flag (ents s entry) \<noteq> 0 then Some (1, s)
               else
                 (let s = upd_ent entry (\<lambda>e. e\<lparr>e_last := ref_sn\<rparr>) s
                  in case ba_seq_scan v ret entry (c32 ref_sn) s of
                       None \<Rightarrow> None
                     | Some (r, s) \<Rightarrow> Some (1, set_last_found entry r s))))"

partial_function (option) ba_timeout_entry ::
  "variant \<Rightarrow> (ba_call list \<Rightarrow> s32) \<Rightarrow> u32 \<Rightarrow> u32 \<Rightarrow> ba \<Rightarrow> ba option" where
  "ba_timeout_entry v ret entry now s =
     (if e_head (ents s entry) \<noteq> 0 \<and>
         c32 (wifi_flushone_timeout s) < now - n_tick (nodes s (e_head (ents s entry)))
      then (let sn = n_sn (nodes s (e_head (ents s entry)))
            in case ba_indicate_le_seq v ret entry (c32 sn) s of
                 None \<Rightarrow> None
               | Some s \<Rightarrow>
                   (let s = upd_ent entry (\<lambda>e. e\<lparr>e_last := sn\<rparr>) s
                    in case ba_seq_scan v ret entry (c32 sn) s of
                         None \<Rightarrow> None
                       | Some (r, s) \<Rightarrow>
                           (let s = set_last_found entry (c32 (c16 r)) s;
                                s = wifi_cnt_inc (c32 (e_band (ents s entry))) 200 s
                            in ba_timeout_entry v ret entry now s)))
      else Some s)"

text \<open>The entry of (wcid, tid): one table per band, or both bands split by wcid with DBDC.\<close>

definition ba_entry_of :: "u32 \<Rightarrow> u32 \<Rightarrow> u32 \<Rightarrow> ba \<Rightarrow> u32" where
  "ba_entry_of band wcid tid s =
     (if wifi_dbdc_mode s \<noteq> 0 then
        (if 150 < wcid then ba_table_a s + 28 * (8 * (wcid - 151) + tid)
         else ba_table_b s + 28 * (8 * (wcid - 1) + tid))
      else (if band \<noteq> 0 then ba_table_b s else ba_table_a s) + 28 * (8 * (wcid - 1) + tid))"

definition ba_band_entry :: "u32 \<Rightarrow> u32 \<Rightarrow> u32 \<Rightarrow> ba \<Rightarrow> u32 option" where
  "ba_band_entry band wcid tid s =
     (let off = (wcid - 1) * 224 + tid * 28
      in if wifi_dbdc_mode s = 0 then
           (let e = (if band \<noteq> 0 then ba_table_b s else ba_table_a s) + off
            in if e = 0 \<or> e_state (ents s e) \<noteq> 4 then None else Some e)
         else
           (let e = (if 150 < wcid then ba_table_a s + off - 150 * 224 else ba_table_b s + off)
            in if c32 (e_band (ents s e)) \<noteq> band \<or> e_state (ents s e) \<noteq> 4 then None else Some e))"

text \<open>The pairs (wcid, tid) of the two sweeps, in their order.\<close>

definition ba_sweep :: "ba \<Rightarrow> (u32 \<times> u32) list" where
  "ba_sweep s =
     concat (map (\<lambda>w. map (\<lambda>t. (of_nat w, of_nat t)) [0..<8])
       [1..<Suc (if wifi_dbdc_mode s \<noteq> 0 then 300 else 150)])"

fun ba_timeout_sweep ::
  "variant \<Rightarrow> (ba_call list \<Rightarrow> s32) \<Rightarrow> u32 \<Rightarrow> u32 \<Rightarrow> (u32 \<times> u32) list \<Rightarrow> ba \<Rightarrow> ba option" where
  "ba_timeout_sweep v ret band now [] s = Some s"
| "ba_timeout_sweep v ret band now ((wcid, tid) # ws) s =
     (case ba_band_entry band wcid tid s of
        Some e \<Rightarrow>
          (if e_count (ents s e) \<noteq> 0 then
             (case ba_timeout_entry v ret e now s of
                None \<Rightarrow> None
              | Some s \<Rightarrow> ba_timeout_sweep v ret band now ws s)
           else ba_timeout_sweep v ret band now ws s)
      | None \<Rightarrow> ba_timeout_sweep v ret band now ws s)"

definition ba_timeout_scan :: "variant \<Rightarrow> (ba_call list \<Rightarrow> s32) \<Rightarrow> u32 \<Rightarrow> u32 \<Rightarrow> ba \<Rightarrow> ba option" where
  "ba_timeout_scan v ret band now s = ba_timeout_sweep v ret band now (ba_sweep s) s"

fun ba_flush_sweep ::
  "variant \<Rightarrow> (ba_call list \<Rightarrow> s32) \<Rightarrow> u32 \<Rightarrow> (u32 \<times> u32) list \<Rightarrow> ba \<Rightarrow> ba option" where
  "ba_flush_sweep v ret band [] s = Some s"
| "ba_flush_sweep v ret band ((wcid, tid) # ws) s =
     (case ba_band_entry band wcid tid s of
        None \<Rightarrow> ba_flush_sweep v ret band ws s
      | Some e \<Rightarrow>
          (case ba_flush_entry v ret e s of
             None \<Rightarrow> None
           | Some s \<Rightarrow>
               ba_flush_sweep v ret band ws (wifi_cnt_inc (c32 (e_band (ents s e))) 200 s)))"

definition ba_flush_all :: "variant \<Rightarrow> (ba_call list \<Rightarrow> s32) \<Rightarrow> u32 \<Rightarrow> ba \<Rightarrow> ba option" where
  "ba_flush_all v ret band s = ba_flush_sweep v ret band (ba_sweep s) s"

end
