(* ===== verification/Reorder_Rx.thy ===== *)
theory Reorder_Rx
  imports Reorder
begin

text \<open>
  The users of the reorder engine: the window classifier of \<open>npu_wifi_rx.c\<close> for a parsed frame
  (\<open>kite_classify_pn\<close>; on parts with more than two cores the same code is the second half of
  \<open>kite_classify\<close>) and the entry set-up of \<open>npu_wifi_init.c\<close>. A parsed frame is laid out as a
  node, as \<open>struct kite_node\<close> is.
\<close>

section \<open>The window\<close>

datatype window = InOrder | Duplicate | Behind | Inside | Past

definition window_class :: "u32 \<Rightarrow> u32 \<Rightarrow> u32 \<Rightarrow> window" where
  "window_class lst win sn =
     (if (lst + 1) AND 0xFFF = sn then InOrder
      else if lst = sn then Duplicate
      else if (sn - lst) AND 0x800 \<noteq> 0 then Behind
      else if (sn - ((lst + win + 1) AND 0xFFF)) AND 0x800 \<noteq> 0 then Inside
      else Past)"

text \<open>Far enough behind to take it that the peer restarted.\<close>

definition window_restart :: "u32 \<Rightarrow> u32 \<Rightarrow> u32 \<Rightarrow> bool" where
  "window_restart lst win sn \<longleftrightarrow>
     win <s lst - sn \<or>
     (smodc (drop_bit 1 win + sn + 1) 4095 - lst) AND 0x800 \<noteq> 0 \<or>
     win <s sn - lst \<and> sn + win <s 4096"

text \<open>The new last sequence number of a window slid so that \<open>sn\<close> is its last slot.\<close>

definition window_slide :: "u32 \<Rightarrow> u32 \<Rightarrow> u32" where
  "window_slide win sn =
     (let fs = sn - win + 1;
          fs = (if fs <s 0 then sn - win + 0x1001 else fs)
      in (fs - 1) AND 0xFFF)"

partial_function (option) kite_window ::
  "variant \<Rightarrow> (ba_call list \<Rightarrow> s32) \<Rightarrow> u32 \<Rightarrow> u32 \<Rightarrow> u32 \<Rightarrow> ba \<Rightarrow> (window \<times> u32 \<times> ba) option" where
  "kite_window v ret e sn lst s =
     (let win = c32 (e_win (ents s e))
      in if window_class lst win sn = Past then
           (let fs = window_slide win sn
            in case ba_indicate_le_seq v ret e fs s of
                 None \<Rightarrow> None
               | Some s \<Rightarrow>
                   (let s = upd_ent e (\<lambda>x. x\<lparr>e_last := c16 fs\<rparr>) s
                    in case ba_seq_scan v ret e fs s of
                         None \<Rightarrow> None
                       | Some (r, s) \<Rightarrow>
                           (let lst = (if r = 0xFFFF then c32 (e_last (ents s e)) else r);
                                s = set_last_found e r s;
                                s = upd_ent e (\<lambda>x. x\<lparr>e_flag := 4\<rparr>) s
                            in kite_window v ret e sn lst s)))
         else Some (window_class lst win sn, lst, s))"

section \<open>What happens to the frame\<close>

definition kite_duplicate :: "variant \<Rightarrow> (ba_call list \<Rightarrow> s32) \<Rightarrow> ba_node \<Rightarrow> u32 \<Rightarrow> u32 \<Rightarrow> ba \<Rightarrow> ba" where
  "kite_duplicate v ret pn band e s =
     (let s = wifi_cnt_inc band 56 s;
          s = (if wifi_debug_flags (fst (bufs s)) AND 1 \<noteq> 0
               then snd (pkt_enqueue_bridge v ret (c32 (n_buf pn)) (c32 (n_len pn)) (c32 (n_hdr pn))
                           band (c32 (n_bss pn)) s)
               else ba_buf_free v band (c32 (n_buf pn)) s);
          s = (if n_amsdu pn \<le> 1 then upd_ent e (\<lambda>x. x\<lparr>e_chain := 0\<rparr>) s else s)
      in upd_ent e (\<lambda>x. x\<lparr>e_flag := 1, e_amsdu := n_amsdu pn, e_ref := n_sn pn\<rparr>) s)"

definition kite_behind ::
  "variant \<Rightarrow> (ba_call list \<Rightarrow> s32) \<Rightarrow> ba_node \<Rightarrow> u32 \<Rightarrow> u32 \<Rightarrow> u32 \<Rightarrow> ba \<Rightarrow> ba" where
  "kite_behind v ret pn band e lst s =
     (let sn = c32 (n_sn pn);
          win = c32 (e_win (ents s e));
          s = (if n_amsdu pn \<le> 1 then upd_ent e (\<lambda>x. x\<lparr>e_chain := 0\<rparr>) s else s);
          s = upd_ent e (\<lambda>x. x\<lparr>e_amsdu := n_amsdu pn, e_flag := 2, e_ref := n_sn pn\<rparr>) s;
          up = snd (pkt_enqueue_bridge v ret (c32 (n_buf pn)) (c32 (n_len pn)) (c32 (n_hdr pn)) band
                      (c32 (n_bss pn)) s)
      in if window_restart lst win sn then upd_ent e (\<lambda>x. x\<lparr>e_last := n_sn pn\<rparr>) up
         else if wifi_debug_flags (fst (bufs s)) AND 1 \<noteq> 0 then up
         else wifi_cnt_inc band 60 (ba_buf_free v band (c32 (n_buf pn)) s))"

text \<open>The place of a sequence number in the held list: the node before it, if any, and after it.\<close>

partial_function (option) find_slot ::
  "(u32 \<Rightarrow> ba_node) \<Rightarrow> u32 \<Rightarrow> u32 option \<Rightarrow> u32 \<Rightarrow> (u32 option \<times> u32) option" where
  "find_slot h sn prev cur =
     (if cur \<noteq> 0 \<and> (c32 (n_sn (h cur)) - sn) AND 0x800 \<noteq> 0
      then find_slot h sn (Some cur) (n_next (h cur)) else Some (prev, cur))"

definition fill_node :: "ba_node \<Rightarrow> u32 \<Rightarrow> u16 \<Rightarrow> u32 \<Rightarrow> ba_node \<Rightarrow> ba_node" where
  "fill_node pn pool idx tick n =
     n\<lparr>n_hdr := n_hdr pn, n_buf := n_buf pn, n_sn := n_sn pn, n_idx := idx, n_len := n_len pn,
       n_tid := n_tid pn, n_amsdu := n_amsdu pn, n_wcid := n_wcid pn, n_pool := c8 pool,
       n_next := 0, n_bss := n_bss pn, n_msdu_head := 0, n_msdu_tail := 0, n_tick := tick\<rparr>"

text \<open>The next MSDU of the A-MSDU being held.\<close>

definition chain_msdu :: "u32 \<Rightarrow> u32 \<Rightarrow> ba \<Rightarrow> ba" where
  "chain_msdu sub node s =
     (let tail = n_msdu_tail (nodes s sub);
          s = upd_node sub (\<lambda>n. n\<lparr>n_msdus := n_msdus n + 1\<rparr>) s;
          s = upd_node node (\<lambda>n. n\<lparr>n_next := 0\<rparr>) s;
          s = (if tail \<noteq> 0 then upd_node tail (\<lambda>n. n\<lparr>n_next := node\<rparr>) s
               else upd_node sub (\<lambda>n. n\<lparr>n_msdu_head := node\<rparr>) s)
      in upd_node sub (\<lambda>n. n\<lparr>n_msdu_tail := node\<rparr>) s)"

text \<open>A node into the held list, unless its sequence number is held already.\<close>

definition insert_held ::
  "variant \<Rightarrow> ba_node \<Rightarrow> u32 \<Rightarrow> u32 \<Rightarrow> u32 \<Rightarrow> u16 \<Rightarrow> ba \<Rightarrow> ba option" where
  "insert_held v pn e node pool idx s =
     (case find_slot (nodes s) (c32 (n_sn pn)) None (e_head (ents s e)) of
        None \<Rightarrow> None
      | Some (prev, cur) \<Rightarrow>
          Some (if cur \<noteq> 0 \<and> n_sn (nodes s cur) = n_sn pn then
                  (let band = c32 (e_band (ents s e));
                       s = reorder_node_free v idx (c8 pool) band s;
                       s = ba_buf_free v band (c32 (n_buf pn)) s
                   in wifi_cnt_inc band 208 s)
                else
                  (let s = upd_node node (\<lambda>n. n\<lparr>n_next := cur\<rparr>) s;
                       s = (case prev of
                              None \<Rightarrow> upd_ent e (\<lambda>x. x\<lparr>e_head := node\<rparr>) s
                            | Some p \<Rightarrow> upd_node p (\<lambda>n. n\<lparr>n_next := node\<rparr>) s)
                   in upd_ent e (\<lambda>x. x\<lparr>e_count := e_count x + 1,
                                   e_chain := (if n_amsdu pn \<le> 1 then 0 else node)\<rparr>) s)))"

definition kite_hold ::
  "variant \<Rightarrow> ba_node \<Rightarrow> u32 \<Rightarrow> u32 \<Rightarrow> u32 \<Rightarrow> ba \<Rightarrow> ba option" where
  "kite_hold v pn band tick e s =
     (let s = wifi_cnt_inc band 64 s;
          ((node, pool, idx), s) = reorder_node_alloc v band 1 0xFFFF s
      in if node = 0 then Some (wifi_cnt_inc band 80 s)
         else
           (let s = upd_node node (fill_node pn pool idx tick) s;
                s = ba_lock v e s
            in case (if e_chain (ents s e) \<noteq> 0 then Some (chain_msdu (e_chain (ents s e)) node s)
                     else insert_held v pn e node pool idx s) of
                 None \<Rightarrow> None
               | Some s \<Rightarrow>
                   (let s = (if e_win (ents s e) < e_count (ents s e)
                             then wifi_cnt_inc (c32 (e_band (ents s e))) 228 s else s);
                        s = ba_unlock v e s;
                        s = upd_ent e (\<lambda>x. x\<lparr>e_amsdu := n_amsdu pn, e_ref := n_sn pn\<rparr>) s;
                        s = (if n_amsdu pn \<le> 1 then upd_ent e (\<lambda>x. x\<lparr>e_chain := 0\<rparr>) s else s)
                    in Some (upd_ent e (\<lambda>x. x\<lparr>e_flag := 3\<rparr>) s))))"

definition kite_in_order ::
  "variant \<Rightarrow> (ba_call list \<Rightarrow> s32) \<Rightarrow> ba_node \<Rightarrow> u32 \<Rightarrow> u32 \<Rightarrow> ba \<Rightarrow> ba option" where
  "kite_in_order v ret pn band e s =
     (let s = wifi_cnt_inc band 52 s;
          s = snd (pkt_enqueue_bridge v ret (c32 (n_buf pn)) (c32 (n_len pn)) (c32 (n_hdr pn))
                     (c32 (e_band (ents s e))) (c32 (n_bss pn)) s);
          fin = upd_ent e (\<lambda>x. x\<lparr>e_amsdu := n_amsdu pn, e_ref := n_sn pn, e_flag := 0\<rparr>)
      in if n_amsdu pn \<le> 1 then
           (let s = upd_ent e (\<lambda>x. x\<lparr>e_last := n_sn pn\<rparr>) s
            in case ba_seq_scan v ret e (c32 (n_sn pn)) s of
                 None \<Rightarrow> None
               | Some (r, s) \<Rightarrow>
                   Some (fin (upd_ent e (\<lambda>x. x\<lparr>e_chain := 0\<rparr>) (set_last_found e r s))))
         else Some (fin s))"

text \<open>The window step of a frame whose entry is active.\<close>

definition kite_step ::
  "variant \<Rightarrow> (ba_call list \<Rightarrow> s32) \<Rightarrow> ba_node \<Rightarrow> u32 \<Rightarrow> u32 \<Rightarrow> u32 \<Rightarrow> ba \<Rightarrow> ba option" where
  "kite_step v ret pn band tick e s =
     (case ba_state_update v ret (c32 (n_sn pn)) (c32 (n_amsdu pn)) e s of
        None \<Rightarrow> None
      | Some (r, s) \<Rightarrow>
          (case kite_window v ret e (c32 (n_sn pn)) (c32 (e_last (ents s e))) s of
             None \<Rightarrow> None
           | Some (w, lst, s) \<Rightarrow>
               (case w of
                  InOrder \<Rightarrow> kite_in_order v ret pn band e s
                | Duplicate \<Rightarrow> Some (kite_duplicate v ret pn band e s)
                | Behind \<Rightarrow> Some (kite_behind v ret pn band e lst s)
                | _ \<Rightarrow> kite_hold v pn band tick e s)))"

text \<open>The first frame after an ADDBA starts the window at its own sequence number.\<close>

definition ba_window_start :: "ba_node \<Rightarrow> u32 \<Rightarrow> ba \<Rightarrow> ba" where
  "ba_window_start pn e s =
     upd_ent e (\<lambda>x. x\<lparr>e_last := (n_sn pn - 1) AND 0xFFF, e_ref := n_sn pn, e_state := 4,
       e_amsdu := n_amsdu pn\<rparr>) s"

text \<open>\<open>- 1\<close>: the window took the frame; else the caller sends \<open>buf_id\<close> up.\<close>

definition kite_classify_pn ::
  "variant \<Rightarrow> (ba_call list \<Rightarrow> s32) \<Rightarrow> ba_node \<Rightarrow> s32 \<Rightarrow> u32 \<Rightarrow> u32 \<Rightarrow> ba \<Rightarrow> (s32 \<times> ba) option" where
  "kite_classify_pn v ret pn buf_id band tick s =
     (if n_wcid pn = 0 then
        Some (- 1, wifi_cnt_inc band 232 (ba_buf_free v band (c32 (n_buf pn)) s))
      else
        (let e = ba_entry_of band (c32 (n_wcid pn)) (c32 (n_tid pn)) s
         in if e_state (ents s e) = 0 then
              (case ba_flush_entry v ret e s of None \<Rightarrow> None | Some s \<Rightarrow> Some (buf_id, s))
            else
              (case (if e_state (ents s e) = 3
                     then map_option (ba_window_start pn e) (ba_flush_entry v ret e s)
                     else Some s) of
                 None \<Rightarrow> None
               | Some s \<Rightarrow>
                   (let s = upd_ent e (\<lambda>x. x\<lparr>e_band := c8 band\<rparr>) s;
                        s = (if n_amsdu pn \<noteq> 0 then wifi_cnt_inc band 72 s else s)
                    in map_option (Pair (- 1)) (kite_step v ret pn band tick e s)))))"

section \<open>Entry set-up by the host\<close>

definition ba_entry_clear :: "ba_entry \<Rightarrow> ba_entry" where
  "ba_entry_clear x =
     x\<lparr>e_win := 8, e_last := 0, e_ref := 0, e_amsdu := 0, e_flag := 0, e_state := 0\<rparr>"

definition dir_mutex :: "u32 \<Rightarrow> ba \<Rightarrow> u32" where
  "dir_mutex dir s = (if dir \<noteq> 0 \<or> wifi_dbdc_mode s \<noteq> 0 then ba_mutex_5g s else ba_mutex_2g s)"

fun reset_tids :: "variant \<Rightarrow> (ba_call list \<Rightarrow> s32) \<Rightarrow> u32 \<Rightarrow> u32 \<Rightarrow> u32 list \<Rightarrow> ba \<Rightarrow> ba option" where
  "reset_tids v ret dir wcid [] s = Some s"
| "reset_tids v ret dir wcid (tid # tids) s =
     (let e = ba_entry_of dir wcid tid s
      in case ba_flush_entry v ret e s of
           None \<Rightarrow> None
         | Some s \<Rightarrow>
             (let s = ba_mutex_take v (dir_mutex dir s) s;
                  s = upd_ent e (\<lambda>x. (ba_entry_clear x)\<lparr>e_band := c8 dir\<rparr>) s;
                  s = ba_mutex_give v (dir_mutex dir s) s
              in reset_tids v ret dir wcid tids s))"

definition wifi_reset_ba_entry ::
  "variant \<Rightarrow> (ba_call list \<Rightarrow> s32) \<Rightarrow> u32 \<Rightarrow> u32 \<Rightarrow> ba \<Rightarrow> ba option" where
  "wifi_reset_ba_entry v ret dir wcid s =
     (if wcid = 0 then Some s else reset_tids v ret dir wcid (map of_nat [0..<8]) s)"

text \<open>The second band-0 store of the state is 16 bits wide and clears the band.\<close>

definition npu_set_ba_entry ::
  "variant \<Rightarrow> (ba_call list \<Rightarrow> s32) \<Rightarrow> u32 \<Rightarrow> u32 \<Rightarrow> ba \<Rightarrow> ba option" where
  "npu_set_ba_entry v ret band packed s =
     (let tid = packed AND 7;
          win_size = drop_bit 11 packed AND 0x1FF;
          ssn = drop_bit 20 packed;
          wcid = c32 (c8 (drop_bit 3 packed))
      in if wcid = 0 then Some s
         else
           (let e = ba_entry_of band wcid tid s
            in case ba_flush_entry v ret e s of
                 None \<Rightarrow> None
               | Some s \<Rightarrow>
                   (let s = ba_mutex_take v (dir_mutex band s) s;
                        b = (if band \<noteq> 0 then c8 band else 0);
                        s = (if win_size OR ssn = 0
                             then upd_ent e (\<lambda>x. (ba_entry_clear x)\<lparr>e_band := b\<rparr>) s
                             else upd_ent e (\<lambda>x. x\<lparr>e_win := c16 win_size, e_last := c16 ssn,
                                    e_band := b, e_state := 3\<rparr>) s)
                    in Some (ba_mutex_give v (dir_mutex band s) s))))"

text \<open>A block ack request: release what lies before its starting sequence number.\<close>

definition locked_last :: "variant \<Rightarrow> u32 \<Rightarrow> u32 \<Rightarrow> u16 \<Rightarrow> ba \<Rightarrow> ba" where
  "locked_last v band e sn s =
     (let s = ba_mutex_take v (dir_mutex band s) s;
          s = upd_ent e (\<lambda>x. x\<lparr>e_last := sn\<rparr>) s
      in ba_mutex_give v (dir_mutex band s) s)"

definition bar_wcid_zero :: "u32 \<Rightarrow> ba \<Rightarrow> ba" where
  "bar_wcid_zero band s =
     (if wifi_debug_flags (fst (bufs s)) AND 4 \<noteq> 0
      then s\<lparr>bufs := (block_add (if band = 1 then 9 else if band \<noteq> 0 then 11 else 10) 268 1
                      (fst (bufs s)), snd (bufs s))\<rparr>
      else s)"

definition npu_set_bar_info ::
  "variant \<Rightarrow> (ba_call list \<Rightarrow> s32) \<Rightarrow> u32 \<Rightarrow> u32 \<Rightarrow> ba \<Rightarrow> ba option" where
  "npu_set_bar_info v ret band packed s =
     (let tid = packed AND 7;
          ssn = drop_bit 19 (push_bit 8 packed);
          wcid = c32 (c8 (drop_bit 3 packed))
      in if wcid = 0 then Some (bar_wcid_zero band s)
         else
           (let e = ba_entry_of band wcid tid s
            in case ba_state_update v ret (ssn AND 0xFFFF) 3 e s of
                 None \<Rightarrow> None
               | Some (r, s) \<Rightarrow>
                   (if (c32 (e_last (ents s e)) - ssn) AND 0x800 \<noteq> 0 then
                      (let new_ssn = c16 (if ssn \<noteq> 0 then ssn - 1 else 4095)
                       in case ba_indicate_le_seq v ret e (c32 new_ssn) s of
                            None \<Rightarrow> None
                          | Some s \<Rightarrow>
                              (let s = locked_last v band e new_ssn s
                               in case ba_seq_scan v ret e (c32 (e_last (ents s e))) s of
                                    None \<Rightarrow> None
                                  | Some (r, s) \<Rightarrow>
                                      Some (if c16 r \<noteq> 0xFFFF then locked_last v band e (c16 r) s
                                            else s)))
                    else Some s)))"

end
