(* ===== verification/Reorder_Lists.thy ===== *)
theory Reorder_Lists
  imports Reorder_Rx
begin

text \<open>
  The reorder engine on lists: an entry's held frames as a list of MPDUs, each with its MSDUs, and
  what the release loops do to that list. Every loop is shown to end.
\<close>

section \<open>Lists in the node heap\<close>

fun lseg :: "(u32 \<Rightarrow> ba_node) \<Rightarrow> u32 \<Rightarrow> u32 list \<Rightarrow> bool" where
  "lseg h p [] \<longleftrightarrow> p = 0"
| "lseg h p (x # xs) \<longleftrightarrow> p = x \<and> x \<noteq> 0 \<and> lseg h (n_next (h x)) xs"

text \<open>An MPDU and its MSDUs; the nodes of a held list.\<close>

type_synonym mpdu = "u32 \<times> u32 list"

definition mpdu_nodes :: "mpdu list \<Rightarrow> u32 list" where
  "mpdu_nodes ms = concat (map (\<lambda>(m, ds). m # ds) ms)"

definition held :: "(u32 \<Rightarrow> ba_node) \<Rightarrow> u32 \<Rightarrow> mpdu list \<Rightarrow> bool" where
  "held h p ms \<longleftrightarrow> lseg h p (map fst ms) \<and>
     (\<forall>(m, ds) \<in> set ms. lseg h (n_msdu_head (h m)) ds) \<and> distinct (mpdu_nodes ms)"

lemma lseg_cong: "(\<And>a. a \<in> set xs \<Longrightarrow> n_next (h' a) = n_next (h a)) \<Longrightarrow> lseg h' p xs = lseg h p xs"
  by (induction xs arbitrary: p) auto

lemma mpdu_nodes_simps [simp]:
  "mpdu_nodes [] = []" "mpdu_nodes ((m, ds) # ms) = m # ds @ mpdu_nodes ms"
  by (simp_all add: mpdu_nodes_def)

lemma mpdu_nodes_mem: "(m, ds) \<in> set ms \<Longrightarrow> m \<in> set (mpdu_nodes ms) \<and> set ds \<subseteq> set (mpdu_nodes ms)"
  by (auto simp: mpdu_nodes_def)

lemma held_Nil [simp]: "held h p [] \<longleftrightarrow> p = 0"
  by (simp add: held_def)

lemma held_Cons:
  "held h p ((m, ds) # ms) \<longleftrightarrow> p = m \<and> m \<noteq> 0 \<and> lseg h (n_msdu_head (h m)) ds \<and>
     distinct (m # ds) \<and> set (m # ds) \<inter> set (mpdu_nodes ms) = {} \<and> held h (n_next (h m)) ms"
  by (auto simp: held_def)

text \<open>A change of nodes outside the list keeps it.\<close>

lemma held_cong:
  assumes "\<And>a. a \<in> set (mpdu_nodes ms) \<Longrightarrow> h' a = h a"
  shows "held h' p ms = held h p ms"
proof -
  have "lseg h' p (map fst ms) = lseg h p (map fst ms)"
    using assms mpdu_nodes_mem by (intro lseg_cong) force
  moreover have "lseg h' (n_msdu_head (h' m)) ds = lseg h (n_msdu_head (h m)) ds"
    if "(m, ds) \<in> set ms" for m ds
    using assms mpdu_nodes_mem [OF that] by (subst lseg_cong [where h = h]) auto
  ultimately show ?thesis by (auto simp: held_def)
qed

section \<open>What the calls leave alone\<close>

definition ctl :: "ba \<Rightarrow> (u32 \<Rightarrow> ba_entry) \<times> mutexes \<times> u8 \<times> u32 \<times> u32 \<times> u32 \<times> u16" where
  "ctl s = (ents s, ba_mtx s, wifi_dbdc_mode s, ba_mutex_5g s, ba_mutex_2g s, reorder_free_mutex s,
     wifi_flushone_timeout s)"

text \<open>The free side of the two index pools, and one return to it.\<close>

type_synonym pools = "u16 list \<times> u16 \<times> u16 list \<times> u16"

definition pools_of :: "ba \<Rightarrow> pools" where
  "pools_of s = (pri_idx s, pri_ridx s, sec_idx s, sec_ridx s)"

definition wrap_at :: "nat \<Rightarrow> u16 \<Rightarrow> u16" where
  "wrap_at n i = (if i = of_nat n then 0 else i)"

fun pool_put :: "u16 \<times> u8 \<Rightarrow> pools \<Rightarrow> pools" where
  "pool_put (i, t) (p, pr, q, qr) =
     (if t \<noteq> 0
      then (p[unat pr := i], wrap_at REORDER_PRI_POOL_SIZE (pr + 1), q, wrap_at REORDER_SEC_POOL_SIZE qr)
      else (p, wrap_at REORDER_PRI_POOL_SIZE pr, q[unat qr := i],
        wrap_at REORDER_SEC_POOL_SIZE (qr + 1)))"

text \<open>The frame of node \<open>a\<close> and its pool slot.\<close>

definition frame_of :: "(u32 \<Rightarrow> ba_node) \<Rightarrow> u32 \<Rightarrow> u32 \<Rightarrow> u32 \<Rightarrow> ba_frame" where
  "frame_of h band m a =
     (c32 (n_buf (h a)), c32 (n_len (h a)), c32 (n_hdr (h a)), band, c32 (n_bss (h m)))"

definition slot_of :: "(u32 \<Rightarrow> ba_node) \<Rightarrow> u32 \<Rightarrow> u16 \<times> u8" where
  "slot_of h a = (n_idx (h a), n_pool (h a))"

lemma wifi_cnt_inc_sel [simp]:
  "nodes (wifi_cnt_inc b off s) = nodes s" "ents (wifi_cnt_inc b off s) = ents s"
  "enq (wifi_cnt_inc b off s) = enq s" "ctl (wifi_cnt_inc b off s) = ctl s"
  "pools_of (wifi_cnt_inc b off s) = pools_of s" "ba_mtx (wifi_cnt_inc b off s) = ba_mtx s"
  "pri_idx (wifi_cnt_inc b off s) = pri_idx s" "pri_ridx (wifi_cnt_inc b off s) = pri_ridx s"
  "sec_idx (wifi_cnt_inc b off s) = sec_idx s" "sec_ridx (wifi_cnt_inc b off s) = sec_ridx s"
  "reorder_free_mutex (wifi_cnt_inc b off s) = reorder_free_mutex s"
  by (simp_all add: wifi_cnt_inc_def ctl_def pools_of_def)

lemma ctl_simps [simp]:
  "ctl (s\<lparr>nodes := a\<rparr>) = ctl s" "ctl (s\<lparr>pri_idx := b\<rparr>) = ctl s" "ctl (s\<lparr>sec_idx := b\<rparr>) = ctl s"
  "ctl (s\<lparr>pri_ridx := i\<rparr>) = ctl s" "ctl (s\<lparr>sec_ridx := i\<rparr>) = ctl s" "ctl (s\<lparr>bufs := c\<rparr>) = ctl s"
  "ctl (s\<lparr>calls := d\<rparr>) = ctl s" "ctl (s\<lparr>enq := f\<rparr>) = ctl s"
  by (simp_all add: ctl_def)

lemma ba_tx_bytes_sel [simp]:
  "nodes (ba_tx_bytes b n s) = nodes s" "enq (ba_tx_bytes b n s) = enq s"
  "ctl (ba_tx_bytes b n s) = ctl s" "pools_of (ba_tx_bytes b n s) = pools_of s"
  by (simp_all add: ba_tx_bytes_def ctl_def pools_of_def)

lemma ba_buf_free_sel [simp]:
  "nodes (ba_buf_free v b i s) = nodes s" "enq (ba_buf_free v b i s) = enq s"
  "ctl (ba_buf_free v b i s) = ctl s" "pools_of (ba_buf_free v b i s) = pools_of s"
  "ents (ba_buf_free v b i s) = ents s"
  by (simp_all add: ba_buf_free_def ctl_def pools_of_def)

lemma ba_call_out_sel [simp]:
  "nodes (snd (ba_call_out v ret c b i s)) = nodes s" "enq (snd (ba_call_out v ret c b i s)) = enq s"
  "ctl (snd (ba_call_out v ret c b i s)) = ctl s"
  "pools_of (snd (ba_call_out v ret c b i s)) = pools_of s"
  by (simp_all add: ba_call_out_def Let_def) (simp_all add: pools_of_def)

lemma pkt_enqueue_bridge_sel [simp]:
  "nodes (snd (pkt_enqueue_bridge v ret buf len hdr band bss s)) = nodes s"
  "ctl (snd (pkt_enqueue_bridge v ret buf len hdr band bss s)) = ctl s"
  "pools_of (snd (pkt_enqueue_bridge v ret buf len hdr band bss s)) = pools_of s"
  "enq (snd (pkt_enqueue_bridge v ret buf len hdr band bss s)) = enq s @ [(buf, len, hdr, band, bss)]"
  by (simp_all add: pkt_enqueue_bridge_def Let_def) (simp add: pools_of_def)

lemma ba_send_node_sel:
  "nodes (ba_send_node v ret a m band mode s) = nodes s \<and>
   ctl (ba_send_node v ret a m band mode s) = ctl s \<and>
   pools_of (ba_send_node v ret a m band mode s) = pools_of s \<and>
   enq (ba_send_node v ret a m band mode s) = enq s @ [frame_of (nodes s) band m a]"
  by (simp add: ba_send_node_def Let_def frame_of_def)

lemma reorder_node_free_sel:
  assumes "mutex_avail v (reorder_free_mutex s) (ba_mtx s)"
  shows "nodes (reorder_node_free v i t band s) = nodes s \<and>
    ctl (reorder_node_free v i t band s) = ctl s \<and> enq (reorder_node_free v i t band s) = enq s \<and>
    pools_of (reorder_node_free v i t band s) = pool_put (i, t) (pools_of s)"
  using assms
  by (auto simp: reorder_node_free_def Let_def ba_mutex_take_def ba_mutex_give_def ctl_def
      pools_of_def wrap_at_def wifi_cnt_inc_def)

section \<open>Releasing an MPDU\<close>

text \<open>
  Node fields a release leaves: all of every node but the MSDU list head, tail and count of the MPDU.
\<close>

definition node_rest :: "ba_node \<Rightarrow> ba_node" where
  "node_rest n = n\<lparr>n_msdu_head := 0, n_msdu_tail := 0, n_msdus := 0\<rparr>"

definition nodes_but :: "u32 \<Rightarrow> ba \<Rightarrow> ba \<Rightarrow> bool" where
  "nodes_but m s s' \<longleftrightarrow> (\<forall>a. a \<noteq> m \<longrightarrow> nodes s' a = nodes s a) \<and>
     node_rest (nodes s' m) = node_rest (nodes s m)"

lemma node_restD:
  assumes "node_rest n' = node_rest n"
  shows "n_next n' = n_next n \<and> n_hdr n' = n_hdr n \<and> n_bss n' = n_bss n \<and> n_buf n' = n_buf n \<and>
    n_idx n' = n_idx n \<and> n_sn n' = n_sn n \<and> n_len n' = n_len n \<and> n_pool n' = n_pool n \<and>
    n_tick n' = n_tick n"
  using assms by (cases n; cases n') (simp add: node_rest_def)

lemma nodes_but_refl [simp]: "nodes_but m s s"
  by (simp add: nodes_but_def)

lemma nodes_but_trans: "nodes_but m s t \<Longrightarrow> nodes_but m t u \<Longrightarrow> nodes_but m s u"
  by (simp add: nodes_but_def)

lemma nodes_but_frame: "nodes_but m s s' \<Longrightarrow> frame_of (nodes s') band m a = frame_of (nodes s) band m a"
  using node_restD [of "nodes s' m" "nodes s m"] by (cases "a = m") (auto simp: nodes_but_def frame_of_def)

lemma nodes_but_slot: "nodes_but m s s' \<Longrightarrow> slot_of (nodes s') a = slot_of (nodes s) a"
  using node_restD [of "nodes s' m" "nodes s m"] by (cases "a = m") (auto simp: nodes_but_def slot_of_def)

text \<open>What a run of releases does: the frames out, the slots back, the rest untouched.\<close>

definition freed :: "variant \<Rightarrow> ba \<Rightarrow> bool" where
  "freed v s \<longleftrightarrow> mutex_avail v (reorder_free_mutex s) (ba_mtx s)"

definition released :: "u32 \<Rightarrow> ba_frame list \<Rightarrow> (u16 \<times> u8) list \<Rightarrow> ba \<Rightarrow> ba \<Rightarrow> bool" where
  "released m fs is s s' \<longleftrightarrow> nodes_but m s s' \<and> ctl s' = ctl s \<and> enq s' = enq s @ fs \<and>
     pools_of s' = fold pool_put is (pools_of s)"

lemma released_trans:
  "released m fs is s t \<Longrightarrow> released m gs js t u \<Longrightarrow> released m (fs @ gs) (is @ js) s u"
  using nodes_but_trans by (auto simp: released_def)

lemma freed_ctl: "ctl s' = ctl s \<Longrightarrow> freed v s' = freed v s"
  by (simp add: freed_def ctl_def)

lemma freed_released: "released m fs is s s' \<Longrightarrow> freed v s \<Longrightarrow> freed v s'"
  by (simp add: released_def freed_def ctl_def)

lemma release_msdu_one:
  assumes f: "freed v s" and ne: "a \<noteq> m" and hd: "n_msdu_head (nodes s m) = a"
  shows "released m [frame_of (nodes s) band m a] [slot_of (nodes s) a] s
      (ba_release_msdu v ret m band mode s)"
    "n_msdu_head (nodes (ba_release_msdu v ret m band mode s) m) = n_next (nodes s a)"
proof -
  define t where "t = (let t = upd_node m (\<lambda>n. n\<lparr>n_msdus := n_msdus n - 1\<rparr>) s;
      t = upd_node m (\<lambda>n. n\<lparr>n_msdu_head := n_next (nodes t a)\<rparr>) t
    in if n_next (nodes t a) = 0
       then upd_node m (\<lambda>n. n\<lparr>n_msdu_tail := 0\<rparr>) (upd_node a (\<lambda>n. n\<lparr>n_next := 0\<rparr>) t) else t)"
  have other: "nodes t b = nodes s b" if "b \<noteq> m" for b
    using that ne by (auto simp: t_def Let_def upd_node_def)
  have rest: "node_rest (nodes t m) = node_rest (nodes s m)" "n_msdu_head (nodes t m) = n_next (nodes s a)"
    using ne by (auto simp: t_def Let_def upd_node_def node_rest_def)
  have ctl: "ctl t = ctl s" "enq t = enq s" "pools_of t = pools_of s"
    by (simp_all add: t_def Let_def upd_node_def pools_of_def)
  have tb: "nodes_but m s t" using other rest(1) by (simp add: nodes_but_def)
  define u where "u = ba_send_node v ret a m band mode t"
  have u: "nodes u = nodes t" "ctl u = ctl s" "pools_of u = pools_of s"
      "enq u = enq s @ [frame_of (nodes s) band m a]"
    using ba_send_node_sel [of v ret a m band mode t] ctl nodes_but_frame [OF tb] by (simp_all add: u_def)
  have eq: "ba_release_msdu v ret m band mode s =
      reorder_node_free v (n_idx (nodes u a)) (n_pool (nodes u a)) band u"
    by (simp add: ba_release_msdu_def Let_def hd t_def u_def)
  have fu: "mutex_avail v (reorder_free_mutex u) (ba_mtx u)"
    using f freed_ctl [OF u(2)] by (simp add: freed_def)
  note fr = reorder_node_free_sel [OF fu, of "n_idx (nodes u a)" "n_pool (nodes u a)" band]
  show "released m [frame_of (nodes s) band m a] [slot_of (nodes s) a] s
      (ba_release_msdu v ret m band mode s)"
    unfolding eq using fr u tb other [OF ne] by (simp add: released_def nodes_but_def slot_of_def)
  show "n_msdu_head (nodes (ba_release_msdu v ret m band mode s) m) = n_next (nodes s a)"
    unfolding eq using fr u rest by simp
qed

lemma release_msdus_all:
  assumes "lseg (nodes s) (n_msdu_head (nodes s m)) ds" "distinct (m # ds)" "freed v s"
  shows "\<exists>s'. ba_release_msdus v ret m band mode s = Some s' \<and>
    released m (map (frame_of (nodes s) band m) ds) (map (slot_of (nodes s)) ds) s s'"
  using assms
proof (induction ds arbitrary: s)
  case Nil
  then show ?case by (subst ba_release_msdus.simps) (simp add: released_def)
next
  case (Cons a ds)
  let ?t = "ba_release_msdu v ret m band mode s"
  have a: "a \<noteq> m" "n_msdu_head (nodes s m) = a" "a \<noteq> 0" "lseg (nodes s) (n_next (nodes s a)) ds"
    using Cons.prems by auto
  note one = release_msdu_one [OF Cons.prems(3) a(1,2), where band = band and ret = ret and mode = mode]
  have tb: "nodes_but m s ?t" using one(1) by (simp add: released_def)
  have "lseg (nodes ?t) (n_msdu_head (nodes ?t m)) ds = lseg (nodes s) (n_next (nodes s a)) ds"
    unfolding one(2) using tb Cons.prems(2) by (intro lseg_cong) (auto simp: nodes_but_def)
  moreover have "freed v ?t" by (rule freed_released [OF one(1) Cons.prems(3)])
  ultimately obtain u where u: "ba_release_msdus v ret m band mode ?t = Some u"
      "released m (map (frame_of (nodes ?t) band m) ds) (map (slot_of (nodes ?t)) ds) ?t u"
    using Cons.IH [of ?t] a(4) Cons.prems(2) by auto
  have "ba_release_msdus v ret m band mode s = Some u"
    using u(1) a(2,3) by (subst ba_release_msdus.simps) simp
  moreover have eq: "map (frame_of (nodes ?t) band m) ds = map (frame_of (nodes s) band m) ds"
      "map (slot_of (nodes ?t)) ds = map (slot_of (nodes s)) ds"
    by (auto intro!: map_cong nodes_but_frame [OF tb] nodes_but_slot [OF tb])
  moreover have "released m ([frame_of (nodes s) band m a] @ map (frame_of (nodes s) band m) ds)
      ([slot_of (nodes s) a] @ map (slot_of (nodes s)) ds) s u"
    by (rule released_trans [OF one(1) u(2) [unfolded eq]])
  ultimately show ?case by auto
qed

definition mpdu_frames :: "(u32 \<Rightarrow> ba_node) \<Rightarrow> u32 \<Rightarrow> mpdu \<Rightarrow> ba_frame list" where
  "mpdu_frames h band = (\<lambda>(m, ds). map (frame_of h band m) (m # ds))"

definition mpdu_slots :: "(u32 \<Rightarrow> ba_node) \<Rightarrow> mpdu \<Rightarrow> (u16 \<times> u8) list" where
  "mpdu_slots h = (\<lambda>(m, ds). map (slot_of h) (ds @ [m]))"

lemma release_mpdu_all:
  assumes "lseg (nodes s) (n_msdu_head (nodes s m)) ds" "distinct (m # ds)" "freed v s"
  shows "\<exists>s'. ba_release_mpdu v ret m band mode s = Some s' \<and>
    released m (mpdu_frames (nodes s) band (m, ds)) (mpdu_slots (nodes s) (m, ds)) s s'"
proof -
  let ?t = "ba_send_node v ret m m band mode s"
  note t = ba_send_node_sel [of v ret m m band mode s]
  have ft: "freed v ?t" using assms(3) t freed_ctl [of ?t s v] by blast
  then obtain u where u: "ba_release_msdus v ret m band mode ?t = Some u"
      "released m (map (frame_of (nodes s) band m) ds) (map (slot_of (nodes s)) ds) ?t u"
    using release_msdus_all [of ?t m ds v ret band mode] assms(1,2) t by auto
  have fu: "mutex_avail v (reorder_free_mutex u) (ba_mtx u)"
    using freed_released [OF u(2) ft] by (simp add: freed_def)
  have st: "released m [frame_of (nodes s) band m m] [] s ?t"
    using t by (simp add: released_def nodes_but_def)
  let ?w = "reorder_node_free v (n_idx (nodes u m)) (n_pool (nodes u m)) band u"
  have w: "released m [] [slot_of (nodes s) m] u ?w"
    using reorder_node_free_sel [OF fu] nodes_but_slot [of m s u m] released_trans [OF st u(2)]
    by (simp add: released_def slot_of_def nodes_but_def)
  then have "released m (mpdu_frames (nodes s) band (m, ds)) (mpdu_slots (nodes s) (m, ds)) s ?w"
    using released_trans [OF released_trans [OF st u(2)] w] by (simp add: mpdu_frames_def mpdu_slots_def)
  then show ?thesis using u(1) by (simp add: ba_release_mpdu_def)
qed

section \<open>Taking the head MPDU off\<close>

text \<open>
  One turn of a release loop: the head leaves the list, its frames go out, its slots come back.
  \<open>unlinked\<close> is the entry without its first \<open>k\<close> MPDUs.
\<close>

definition unlinked :: "u32 \<Rightarrow> nat \<Rightarrow> ba_entry \<Rightarrow> ba_entry" where
  "unlinked p k x =
     x\<lparr>e_head := p, e_count := e_count x - of_nat k, e_tail := (if p = 0 \<and> k \<noteq> 0 then 0 else e_tail x)\<rparr>"

text \<open>\<open>lst\<close> is what the turns left in the last sequence number, if they set it.\<close>

definition with_last :: "u16 option \<Rightarrow> ba_entry \<Rightarrow> ba_entry" where
  "with_last lst x = (case lst of None \<Rightarrow> x | Some sn \<Rightarrow> x\<lparr>e_last := sn\<rparr>)"

definition later :: "u16 option \<Rightarrow> u16 option \<Rightarrow> u16 option" where
  "later a b = (case b of None \<Rightarrow> a | Some sn \<Rightarrow> Some sn)"

definition dropped ::
  "u32 \<Rightarrow> u16 option \<Rightarrow> ba_frame list \<Rightarrow> (u16 \<times> u8) list \<Rightarrow> nat \<Rightarrow> u32 list \<Rightarrow> ba \<Rightarrow> ba \<Rightarrow> bool" where
  "dropped entry lst fs is k ds s s' \<longleftrightarrow>
     ents s' = (ents s)(entry := with_last lst (unlinked (e_head (ents s' entry)) k (ents s entry))) \<and>
     (k = 0 \<longrightarrow> e_head (ents s' entry) = e_head (ents s entry)) \<and>
     (e_head (ents s entry) = 0 \<longrightarrow> k = 0) \<and>
     (\<forall>a. a \<notin> set ds \<longrightarrow> nodes s' a = nodes s a) \<and>
     (\<forall>a. node_rest (nodes s' a) = node_rest (nodes s a)) \<and>
     snd (ctl s') = snd (ctl s) \<and> enq s' = enq s @ fs \<and> pools_of s' = fold pool_put is (pools_of s)"

lemma dropped_refl: "dropped entry None [] [] 0 [] s s"
  by (simp add: dropped_def unlinked_def with_last_def)

lemma unlinked_unlinked:
  "p = 0 \<longrightarrow> l = 0 \<Longrightarrow> l = 0 \<longrightarrow> r = p \<Longrightarrow>
   with_last b (unlinked r l (with_last a (unlinked p k x))) = with_last (later a b) (unlinked r (k + l) x)"
  by (cases l; cases a; cases b) (auto simp: unlinked_def with_last_def later_def algebra_simps)

lemma dropped_trans:
  assumes a: "dropped entry la fs is k ds s t" and b: "dropped entry lb gs js l es t u"
  shows "dropped entry (later la lb) (fs @ gs) (is @ js) (k + l) (ds @ es) s u"
proof -
  let ?p = "e_head (ents t entry)" and ?r = "e_head (ents u entry)"
  have t: "ents t = (ents s)(entry := with_last la (unlinked ?p k (ents s entry)))"
    and u: "ents u = (ents t)(entry := with_last lb (unlinked ?r l (ents t entry)))"
    using a b by (simp_all only: dropped_def)
  have "with_last lb (unlinked ?r l (ents t entry)) =
      with_last lb (unlinked ?r l (with_last la (unlinked ?p k (ents s entry))))"
    using fun_cong [OF t, of entry] by (simp only: fun_upd_same)
  also have "\<dots> = with_last (later la lb) (unlinked ?r (k + l) (ents s entry))"
    using b by (intro unlinked_unlinked) (auto simp only: dropped_def)
  finally have "ents u = (ents s)(entry := with_last (later la lb) (unlinked ?r (k + l) (ents s entry)))"
    using t u by (metis fun_upd_upd)
  then show ?thesis using a b by (auto simp: dropped_def)
qed

lemma snd_ctl_freed: "snd (ctl s') = snd (ctl s) \<Longrightarrow> freed v s' = freed v s"
  by (simp add: ctl_def freed_def)

lemma ctl_ents: "ctl s' = ctl s \<Longrightarrow> ents s' = ents s"
  by (simp add: ctl_def)

lemma pop_mpdu:
  assumes "e_head (ents s entry) = m" "ba_pop_mpdu entry s = (a, t)"
  shows "a = m" "nodes t = nodes s"
    "ents t = (ents s)(entry := unlinked (n_next (nodes s m)) 1 (ents s entry))"
    "snd (ctl t) = snd (ctl s)" "enq t = enq s" "pools_of t = pools_of s"
  using assms
  by (auto simp: ba_pop_mpdu_def Let_def upd_ent_def upd_node_def unlinked_def ctl_def pools_of_def
      fun_eq_iff)

lemma drop_one:
  assumes h: "held (nodes s) (e_head (ents s entry)) ((m, ds) # ms)" and f: "freed v s"
    and pop: "ba_pop_mpdu entry s = (a, t)"
    and t': "t' = upd_ent entry (with_last lst) t"
  shows "\<exists>u. ba_release_mpdu v ret a band mode t' = Some u \<and>
    dropped entry lst (mpdu_frames (nodes s) band (m, ds)) (mpdu_slots (nodes s) (m, ds)) 1 [m] s u \<and>
    held (nodes u) (e_head (ents u entry)) ms \<and> freed v u"
proof -
  have m: "e_head (ents s entry) = m" "m \<noteq> 0" "lseg (nodes s) (n_msdu_head (nodes s m)) ds"
      "distinct (m # ds)" "set (m # ds) \<inter> set (mpdu_nodes ms) = {}"
      "held (nodes s) (n_next (nodes s m)) ms"
    using h by (simp_all add: held_Cons)
  note p = pop_mpdu [OF m(1) pop]
  have q: "nodes t' = nodes s" "snd (ctl t') = snd (ctl s)" "enq t' = enq s" "pools_of t' = pools_of s"
      "ents t' = (ents s)(entry := with_last lst (unlinked (n_next (nodes s m)) 1 (ents s entry)))"
    using p by (simp_all add: t' upd_ent_def ctl_def pools_of_def)
  have ft: "freed v t'" using f snd_ctl_freed [OF q(2)] by blast
  obtain u where u: "ba_release_mpdu v ret a band mode t' = Some u"
      "released m (mpdu_frames (nodes s) band (m, ds)) (mpdu_slots (nodes s) (m, ds)) t' u"
    using release_mpdu_all [of t' m ds v ret band mode] m(3,4) ft q(1) p(1) by auto
  have nb: "nodes_but m t' u" "ctl u = ctl t'" "enq u = enq s @ mpdu_frames (nodes s) band (m, ds)"
      "pools_of u = fold pool_put (mpdu_slots (nodes s) (m, ds)) (pools_of s)"
    using u(2) q by (simp_all add: released_def)
  have e: "ents u = (ents s)(entry := with_last lst (unlinked (n_next (nodes s m)) 1 (ents s entry)))"
    using ctl_ents [OF nb(2)] q(5) by simp
  then have hd: "e_head (ents u entry) = n_next (nodes s m)"
    by (simp add: with_last_def unlinked_def split: option.split)
  have "\<forall>a. node_rest (nodes u a) = node_rest (nodes s a)" using nb(1) q(1) by (metis nodes_but_def)
  moreover have "snd (ctl u) = snd (ctl s)" using nb(2) q(2) by simp
  ultimately have d: "dropped entry lst (mpdu_frames (nodes s) band (m, ds)) (mpdu_slots (nodes s) (m, ds)) 1 [m] s u"
    using e hd nb q m(1,2) by (auto simp: dropped_def nodes_but_def)
  have "held (nodes u) (e_head (ents u entry)) ms"
    unfolding hd using m(5,6) nb(1) q(1) by (subst held_cong [where h = "nodes s"]) (auto simp: nodes_but_def)
  then show ?thesis using u(1) d freed_released [OF u(2) ft] by blast
qed

text \<open>A turn changes nothing the rest of the list is read by.\<close>

lemma dropped_node:
  assumes "dropped entry lst fs is k ds s s'"
  shows "n_sn (nodes s' a) = n_sn (nodes s a)" "n_tick (nodes s' a) = n_tick (nodes s a)"
    "frame_of (nodes s') band m a = frame_of (nodes s) band m a"
    "slot_of (nodes s') a = slot_of (nodes s) a"
  using assms node_restD [of "nodes s' a" "nodes s a"] node_restD [of "nodes s' m" "nodes s m"]
  by (auto simp: dropped_def frame_of_def slot_of_def)

lemma dropped_mpdu:
  assumes "dropped entry lst fs is k ds s s'"
  shows "mpdu_frames (nodes s') band = mpdu_frames (nodes s) band"
    "mpdu_slots (nodes s') = mpdu_slots (nodes s)"
  using dropped_node [OF assms] by (auto simp: mpdu_frames_def mpdu_slots_def fun_eq_iff)

section \<open>The release loops\<close>

definition frames_of :: "(u32 \<Rightarrow> ba_node) \<Rightarrow> u32 \<Rightarrow> mpdu list \<Rightarrow> ba_frame list" where
  "frames_of h band ms = concat (map (mpdu_frames h band) ms)"

definition slots_of :: "(u32 \<Rightarrow> ba_node) \<Rightarrow> mpdu list \<Rightarrow> (u16 \<times> u8) list" where
  "slots_of h ms = concat (map (mpdu_slots h) ms)"

text \<open>\<open>released_list\<close>: the MPDUs \<open>ps\<close> are out, \<open>rest\<close> is still held.\<close>

definition released_list ::
  "variant \<Rightarrow> u32 \<Rightarrow> u32 \<Rightarrow> u16 option \<Rightarrow> mpdu list \<Rightarrow> mpdu list \<Rightarrow> ba \<Rightarrow> ba \<Rightarrow> bool" where
  "released_list v band entry lst ps rest s s' \<longleftrightarrow>
     dropped entry lst (frames_of (nodes s) band ps) (slots_of (nodes s) ps) (length ps) (map fst ps) s s' \<and>
     held (nodes s') (e_head (ents s' entry)) rest \<and> freed v s'"

lemma released_list_Nil:
  "held (nodes s) (e_head (ents s entry)) ms \<Longrightarrow> freed v s \<Longrightarrow> released_list v band entry None [] ms s s"
  by (simp add: released_list_def frames_of_def slots_of_def dropped_refl)

lemma released_list_Cons:
  assumes d: "dropped entry a (mpdu_frames (nodes s) band (m, ds)) (mpdu_slots (nodes s) (m, ds)) 1 [m] s t"
    and r: "released_list v band entry b ps rest t u"
  shows "released_list v band entry (later a b) ((m, ds) # ps) rest s u"
  using r dropped_trans [OF d, of b _ _ "length ps" "map fst ps" u]
  by (simp add: released_list_def frames_of_def slots_of_def dropped_mpdu [OF d])

definition last_sn :: "(u32 \<Rightarrow> ba_node) \<Rightarrow> mpdu list \<Rightarrow> u16 option" where
  "last_sn h ms = (if ms = [] then None else Some (n_sn (h (fst (last ms)))))"

lemma flush_loop_all:
  "held (nodes s) (e_head (ents s entry)) ms \<Longrightarrow> freed v s \<Longrightarrow>
   \<exists>s'. ba_flush_loop v ret entry band s = Some s' \<and>
     released_list v band entry (last_sn (nodes s) ms) ms [] s s'"
proof (induction ms arbitrary: s)
  case Nil
  then show ?case using released_list_Nil [of s entry "[]"]
    by (subst ba_flush_loop.simps) (simp add: last_sn_def)
next
  case (Cons md ms)
  obtain m ds where md: "md = (m, ds)" by (cases md)
  obtain a t where pop: "ba_pop_mpdu entry s = (a, t)" by fastforce
  have m: "e_head (ents s entry) = m" "m \<noteq> 0" using Cons.prems(1) md by (simp_all add: held_Cons)
  let ?sn = "n_sn (nodes s m)"
  have t': "upd_ent entry (\<lambda>e. e\<lparr>e_last := n_sn (nodes t a)\<rparr>) t = upd_ent entry (with_last (Some ?sn)) t"
    using pop_mpdu(1,2) [OF m(1) pop] by (simp add: with_last_def [abs_def])
  obtain u where u: "ba_release_mpdu v ret a band 0 (upd_ent entry (with_last (Some ?sn)) t) = Some u"
      "dropped entry (Some ?sn) (mpdu_frames (nodes s) band (m, ds)) (mpdu_slots (nodes s) (m, ds)) 1 [m] s u"
      "held (nodes u) (e_head (ents u entry)) ms" "freed v u"
    using drop_one [OF Cons.prems(1) [unfolded md] Cons.prems(2) pop refl] by blast
  obtain w where w: "ba_flush_loop v ret entry band u = Some w"
      "released_list v band entry (last_sn (nodes u) ms) ms [] u w"
    using Cons.IH [OF u(3,4)] by blast
  have "ba_flush_loop v ret entry band s = Some w"
    using w(1) u(1) m pop t' by (subst ba_flush_loop.simps) (simp add: Let_def)
  moreover have "later (Some ?sn) (last_sn (nodes u) ms) = last_sn (nodes s) (md # ms)"
    using md dropped_node(1) [OF u(2)] by (simp add: later_def last_sn_def)
  ultimately show ?case using released_list_Cons [OF u(2) w(2)] md by auto
qed

lemma le_loop_all:
  "held (nodes s) (e_head (ents s entry)) ms \<Longrightarrow> freed v s \<Longrightarrow>
   \<exists>s'. ba_le_loop v ret entry band seq s = Some s' \<and>
     released_list v band entry None (takeWhile (\<lambda>(m, _). sn_le (n_sn (nodes s m)) seq) ms)
       (dropWhile (\<lambda>(m, _). sn_le (n_sn (nodes s m)) seq) ms) s s'"
proof (induction ms arbitrary: s)
  case Nil
  then show ?case using released_list_Nil [of s entry "[]"] by (subst ba_le_loop.simps) simp
next
  case (Cons md ms)
  obtain m ds where md: "md = (m, ds)" by (cases md)
  have m: "e_head (ents s entry) = m" "m \<noteq> 0" using Cons.prems(1) md by (simp_all add: held_Cons)
  show ?case
  proof (cases "sn_le (n_sn (nodes s m)) seq")
    case False
    then show ?thesis using released_list_Nil [OF Cons.prems] m md by (subst ba_le_loop.simps) simp
  next
    case True
    obtain a t where pop: "ba_pop_mpdu entry s = (a, t)" by fastforce
    have t: "t = upd_ent entry (with_last None) t" by (simp add: upd_ent_def with_last_def)
    obtain u where u: "ba_release_mpdu v ret a band 2 t = Some u"
        "dropped entry None (mpdu_frames (nodes s) band (m, ds)) (mpdu_slots (nodes s) (m, ds)) 1 [m] s u"
        "held (nodes u) (e_head (ents u entry)) ms" "freed v u"
      using drop_one [OF Cons.prems(1) [unfolded md] Cons.prems(2) pop t] by blast
    obtain w where w: "ba_le_loop v ret entry band seq u = Some w"
        "released_list v band entry None (takeWhile (\<lambda>(m, _). sn_le (n_sn (nodes s m)) seq) ms)
          (dropWhile (\<lambda>(m, _). sn_le (n_sn (nodes s m)) seq) ms) u w"
      using Cons.IH [OF u(3,4)] unfolding dropped_node(1) [OF u(2)] by blast
    have "ba_le_loop v ret entry band seq s = Some w"
      using w(1) u(1) m pop True by (subst ba_le_loop.simps) (simp add: Let_def)
    then show ?thesis using released_list_Cons [OF u(2) w(2)] md True by (simp add: later_def)
  qed
qed

text \<open>The run of consecutive sequence numbers after \<open>sn\<close> at the front of a list.\<close>

fun sn_run :: "(u32 \<Rightarrow> u16) \<Rightarrow> u32 \<Rightarrow> mpdu list \<Rightarrow> mpdu list" where
  "sn_run f sn [] = []"
| "sn_run f sn (md # ms) =
     (if c32 (f (fst md)) = (sn + 1) AND 0xFFF then md # sn_run f (c32 (f (fst md))) ms else [])"

definition run_last :: "(u32 \<Rightarrow> u16) \<Rightarrow> u32 \<Rightarrow> mpdu list \<Rightarrow> u32" where
  "run_last f found ms = (if ms = [] then found else c32 (f (fst (last ms))))"

lemma scan_loop_all:
  "held (nodes s) (e_head (ents s entry)) ms \<Longrightarrow> freed v s \<Longrightarrow>
   \<exists>s'. ba_scan_loop v ret entry band sn found s =
       Some (run_last (\<lambda>m. n_sn (nodes s m)) found (sn_run (\<lambda>m. n_sn (nodes s m)) sn ms), s') \<and>
     released_list v band entry None (sn_run (\<lambda>m. n_sn (nodes s m)) sn ms)
       (drop (length (sn_run (\<lambda>m. n_sn (nodes s m)) sn ms)) ms) s s'"
proof (induction ms arbitrary: s sn found)
  case Nil
  then show ?case using released_list_Nil [of s entry "[]"]
    by (subst ba_scan_loop.simps) (simp add: run_last_def)
next
  case (Cons md ms)
  obtain m ds where md: "md = (m, ds)" by (cases md)
  have m: "e_head (ents s entry) = m" "m \<noteq> 0" using Cons.prems(1) md by (simp_all add: held_Cons)
  let ?f = "\<lambda>m. n_sn (nodes s m)"
  show ?case
  proof (cases "c32 (?f m) = (sn + 1) AND 0xFFF")
    case False
    then show ?thesis using released_list_Nil [OF Cons.prems] m md
      by (subst ba_scan_loop.simps) (simp add: run_last_def)
  next
    case True
    obtain a t where pop: "ba_pop_mpdu entry s = (a, t)" by fastforce
    have t: "t = upd_ent entry (with_last None) t" by (simp add: upd_ent_def with_last_def)
    have at: "n_sn (nodes t a) = ?f m" using pop_mpdu(1,2) [OF m(1) pop] by simp
    obtain u where u: "ba_release_mpdu v ret a band 1 t = Some u"
        "dropped entry None (mpdu_frames (nodes s) band (m, ds)) (mpdu_slots (nodes s) (m, ds)) 1 [m] s u"
        "held (nodes u) (e_head (ents u entry)) ms" "freed v u"
      using drop_one [OF Cons.prems(1) [unfolded md] Cons.prems(2) pop t] by blast
    let ?r = "sn_run ?f (c32 (?f m)) ms"
    obtain w where w: "ba_scan_loop v ret entry band (c32 (?f m)) (c32 (?f m)) u =
        Some (run_last ?f (c32 (?f m)) ?r, w)"
        "released_list v band entry None ?r (drop (length ?r) ms) u w"
      using Cons.IH [OF u(3,4), of "c32 (?f m)" "c32 (?f m)"] unfolding dropped_node(1) [OF u(2)] by blast
    have "ba_scan_loop v ret entry band sn found s = Some (run_last ?f (c32 (?f m)) ?r, w)"
      using w(1) u(1) m pop True at by (subst ba_scan_loop.simps) (simp add: Let_def)
    moreover have "run_last ?f (c32 (?f m)) ?r = run_last ?f found (sn_run ?f sn (md # ms))"
      using True md by (simp add: run_last_def)
    ultimately show ?thesis using released_list_Cons [OF u(2) w(2)] md True by (simp add: later_def)
  qed
qed

end
