(* ===== verification/Reorder_Window.thy ===== *)
theory Reorder_Window
  imports Reorder_Lists "HOL-Library.Multiset"
begin

text \<open>
  The reorder operations as their callers see them: with the mutexes as \<open>wifi_ba_node_init\<close> and
  \<open>wifi_queue_mutex_init\<close> assign them, each takes and gives back its mutex, ends, and changes the
  held list as its comment says. The window loop of the classifier ends, and an insertion keeps the
  list in sequence order.
\<close>

section \<open>The mutexes\<close>

definition ba_ready :: "variant \<Rightarrow> ba \<Rightarrow> bool" where
  "ba_ready v s \<longleftrightarrow> ba_mutex_5g s = 5 \<and> ba_mutex_2g s = 6 \<and> reorder_free_mutex s = 9 \<and>
     mutex_avail v 5 (ba_mtx s) \<and> mutex_avail v 6 (ba_mtx s) \<and> mutex_avail v 9 (ba_mtx s)"

lemma ba_ready_ctl: "snd (ctl s') = snd (ctl s) \<Longrightarrow> ba_ready v s' = ba_ready v s"
  by (simp add: ba_ready_def ctl_def)

lemma ba_lock_id_cases: "ba_ready v s \<Longrightarrow> ba_lock_id entry s = 5 \<or> ba_lock_id entry s = 6"
  by (simp add: ba_lock_id_def ba_ready_def)

lemma ba_lock_sel [simp]:
  "nodes (ba_lock v entry s) = nodes s" "ents (ba_lock v entry s) = ents s"
  "enq (ba_lock v entry s) = enq s" "pools_of (ba_lock v entry s) = pools_of s"
  "ba_mtx (ba_lock v entry s) = mutex_lock v (ba_lock_id entry s) (ba_mtx s)"
  "wifi_dbdc_mode (ba_lock v entry s) = wifi_dbdc_mode s"
  "ba_mutex_5g (ba_lock v entry s) = ba_mutex_5g s" "ba_mutex_2g (ba_lock v entry s) = ba_mutex_2g s"
  "reorder_free_mutex (ba_lock v entry s) = reorder_free_mutex s"
  "wifi_flushone_timeout (ba_lock v entry s) = wifi_flushone_timeout s"
  by (simp_all add: ba_lock_def ba_mutex_take_def pools_of_def)

lemma ba_unlock_sel [simp]:
  "nodes (ba_unlock v entry s) = nodes s" "ents (ba_unlock v entry s) = ents s"
  "enq (ba_unlock v entry s) = enq s" "pools_of (ba_unlock v entry s) = pools_of s"
  "ba_mtx (ba_unlock v entry s) = mutex_unlock v (ba_lock_id entry s) (ba_mtx s)"
  "wifi_dbdc_mode (ba_unlock v entry s) = wifi_dbdc_mode s"
  "ba_mutex_5g (ba_unlock v entry s) = ba_mutex_5g s" "ba_mutex_2g (ba_unlock v entry s) = ba_mutex_2g s"
  "reorder_free_mutex (ba_unlock v entry s) = reorder_free_mutex s"
  "wifi_flushone_timeout (ba_unlock v entry s) = wifi_flushone_timeout s"
  by (simp_all add: ba_unlock_def ba_mutex_give_def pools_of_def)

lemma ready_freed: "ba_ready v s \<Longrightarrow> freed v (ba_lock v entry s)"
  using ba_lock_id_cases [of v s entry]
  by (auto simp: freed_def ba_ready_def mutex_avail_lock hw_mutex_off_eq_iff)

text \<open>A locked run of turns: the mutex is back where it was.\<close>

definition after ::
  "u32 \<Rightarrow> u32 \<Rightarrow> u16 option \<Rightarrow> mpdu list \<Rightarrow> mpdu list \<Rightarrow> ba \<Rightarrow> ba \<Rightarrow> bool" where
  "after band entry lst ps rest s s' \<longleftrightarrow>
     dropped entry lst (frames_of (nodes s) band ps) (slots_of (nodes s) ps) (length ps) (map fst ps) s s' \<and>
     held (nodes s') (e_head (ents s' entry)) rest"

lemma dropped_entry:
  assumes "dropped entry lst fs is k ds s s'"
  shows "e_band (ents s' entry) = e_band (ents s entry)" "e_win (ents s' entry) = e_win (ents s entry)"
    "wifi_dbdc_mode s' = wifi_dbdc_mode s"
    "e_last (ents s' entry) = (case lst of None \<Rightarrow> e_last (ents s entry) | Some sn \<Rightarrow> sn)"
    "e \<noteq> entry \<Longrightarrow> ents s' e = ents s e"
proof -
  have e: "ents s' = (ents s)(entry := with_last lst (unlinked (e_head (ents s' entry)) k (ents s entry)))"
    and c: "snd (ctl s') = snd (ctl s)"
    using assms by (simp_all only: dropped_def)
  show "e_band (ents s' entry) = e_band (ents s entry)" "e_win (ents s' entry) = e_win (ents s entry)"
    "e_last (ents s' entry) = (case lst of None \<Rightarrow> e_last (ents s entry) | Some sn \<Rightarrow> sn)"
    "e \<noteq> entry \<Longrightarrow> ents s' e = ents s e"
    by (subst e, simp add: with_last_def unlinked_def split: option.split)+
  show "wifi_dbdc_mode s' = wifi_dbdc_mode s" using c by (simp add: ctl_def)
qed

lemma locked_run:
  assumes r: "ba_ready v s" and l: "released_list v band entry lst ps rest (ba_lock v entry s) t"
  shows "after band entry lst ps rest s (ba_unlock v entry t)"
    "snd (ctl (ba_unlock v entry t)) = snd (ctl s)"
proof -
  have d: "dropped entry lst (frames_of (nodes s) band ps) (slots_of (nodes s) ps) (length ps)
      (map fst ps) (ba_lock v entry s) t" and h: "held (nodes t) (e_head (ents t entry)) rest"
    using l by (simp_all add: released_list_def)
  note e = dropped_entry(1,3) [OF d]
  have c: "snd (ctl t) = snd (ctl (ba_lock v entry s))" using d by (simp only: dropped_def)
  then have i: "ba_lock_id entry t = ba_lock_id entry s"
    using e by (simp add: ba_lock_id_def ctl_def)
  have av: "mutex_avail v (ba_lock_id entry s) (ba_mtx s)"
    using ba_lock_id_cases [OF r, of entry] r by (auto simp: ba_ready_def)
  have m: "ba_mtx t = mutex_lock v (ba_lock_id entry s) (ba_mtx s)" using c by (simp add: ctl_def)
  show s: "snd (ctl (ba_unlock v entry t)) = snd (ctl s)"
    using c m i av by (simp add: ctl_def)
  show "after band entry lst ps rest s (ba_unlock v entry t)"
    using d h s by (simp add: after_def dropped_def)
qed

section \<open>The three releases\<close>

lemma ba_flush_entry_all:
  assumes r: "ba_ready v s" and h: "held (nodes s) (e_head (ents s entry)) ms"
  shows "\<exists>s'. ba_flush_entry v ret entry s = Some s' \<and>
    e_head (ents s' entry) = 0 \<and> e_chain (ents s' entry) = 0 \<and>
    e_count (ents s' entry) = e_count (ents s entry) - of_nat (length ms) \<and>
    (ms \<noteq> [] \<longrightarrow> e_last (ents s' entry) = n_sn (nodes s (fst (last ms)))) \<and>
    (\<forall>e. e \<noteq> entry \<longrightarrow> ents s' e = ents s e) \<and>
    enq s' = enq s @ frames_of (nodes s) (c32 (e_band (ents s entry))) ms \<and>
    pools_of s' = fold pool_put (slots_of (nodes s) ms) (pools_of s) \<and>
    snd (ctl s') = snd (ctl s)"
proof -
  let ?band = "c32 (e_band (ents s entry))"
  obtain t where t: "ba_flush_loop v ret entry ?band (ba_lock v entry s) = Some t"
      "released_list v ?band entry (last_sn (nodes s) ms) ms [] (ba_lock v entry s) t"
    using flush_loop_all [of "ba_lock v entry s" entry ms v ret ?band] h ready_freed [OF r] by auto
  let ?u = "upd_ent entry (\<lambda>e. e\<lparr>e_chain := 0\<rparr>) t"
  have u: "ba_unlock v entry ?u = upd_ent entry (\<lambda>e. e\<lparr>e_chain := 0\<rparr>) (ba_unlock v entry t)"
    by (simp add: ba_unlock_def ba_mutex_give_def ba_lock_id_def upd_ent_def)
  note a = locked_run [OF r t(2)]
  have d: "dropped entry (last_sn (nodes s) ms) (frames_of (nodes s) ?band ms) (slots_of (nodes s) ms)
      (length ms) (map fst ms) s (ba_unlock v entry t)" and z: "e_head (ents (ba_unlock v entry t) entry) = 0"
    using a(1) by (simp_all add: after_def)
  have e: "ents (ba_unlock v entry t) =
      (ents s)(entry := with_last (last_sn (nodes s) ms) (unlinked 0 (length ms) (ents s entry)))"
    using d z unfolding dropped_def by metis
  have x: "ents (ba_unlock v entry ?u) = (ents s)(entry :=
      (with_last (last_sn (nodes s) ms) (unlinked 0 (length ms) (ents s entry)))\<lparr>e_chain := 0\<rparr>)"
    unfolding u using e by (simp add: upd_ent_def)
  have o: "enq (ba_unlock v entry ?u) = enq s @ frames_of (nodes s) ?band ms"
    "pools_of (ba_unlock v entry ?u) = fold pool_put (slots_of (nodes s) ms) (pools_of s)"
    "snd (ctl (ba_unlock v entry ?u)) = snd (ctl s)"
    unfolding u using d a(2) by (simp_all add: dropped_def upd_ent_def ctl_def pools_of_def)
  have "ba_flush_entry v ret entry s = Some (ba_unlock v entry ?u)"
    using t(1) by (simp add: ba_flush_entry_def)
  then show ?thesis
    using o by (intro exI [of _ "ba_unlock v entry ?u"])
      (simp only: x, simp add: with_last_def unlinked_def last_sn_def)
qed

lemma ba_indicate_le_seq_all:
  assumes r: "ba_ready v s" and h: "held (nodes s) (e_head (ents s entry)) ms"
  shows "\<exists>s'. ba_indicate_le_seq v ret entry seq s = Some s' \<and>
    after (c32 (e_band (ents s entry))) entry None
      (takeWhile (\<lambda>(m, _). sn_le (n_sn (nodes s m)) seq) ms)
      (dropWhile (\<lambda>(m, _). sn_le (n_sn (nodes s m)) seq) ms) s s' \<and> snd (ctl s') = snd (ctl s)"
proof -
  obtain t where "ba_le_loop v ret entry (c32 (e_band (ents s entry))) seq (ba_lock v entry s) = Some t"
      "released_list v (c32 (e_band (ents s entry))) entry None
        (takeWhile (\<lambda>(m, _). sn_le (n_sn (nodes s m)) seq) ms)
        (dropWhile (\<lambda>(m, _). sn_le (n_sn (nodes s m)) seq) ms) (ba_lock v entry s) t"
    using le_loop_all [of "ba_lock v entry s" entry ms v ret _ seq] h ready_freed [OF r] by fastforce
  then show ?thesis using locked_run [OF r] by (auto simp: ba_indicate_le_seq_def)
qed

lemma ba_seq_scan_all:
  fixes seq :: u32
  assumes r: "ba_ready v s" and h: "held (nodes s) (e_head (ents s entry)) ms"
  defines "run \<equiv> sn_run (\<lambda>m. n_sn (nodes s m)) seq ms"
  shows "\<exists>s'. ba_seq_scan v ret entry seq s = Some (run_last (\<lambda>m. n_sn (nodes s m)) 0xFFFF run, s') \<and>
    after (c32 (e_band (ents s entry))) entry None run (drop (length run) ms) s s' \<and>
    snd (ctl s') = snd (ctl s)"
proof -
  obtain t where "ba_scan_loop v ret entry (c32 (e_band (ents s entry))) seq 0xFFFF (ba_lock v entry s) =
        Some (run_last (\<lambda>m. n_sn (nodes s m)) 0xFFFF run, t)"
      "released_list v (c32 (e_band (ents s entry))) entry None run (drop (length run) ms) (ba_lock v entry s) t"
    using scan_loop_all [of "ba_lock v entry s" entry ms v ret _ seq "0xFFFF"] h ready_freed [OF r]
    by (fastforce simp: run_def)
  then show ?thesis using locked_run [OF r] by (auto simp: ba_seq_scan_def)
qed

section \<open>The window loop ends\<close>

lemma and_fff: "(x :: u32) AND 0xFFF = take_bit 12 x"
  by (simp add: take_bit_eq_mask mask_eq_exp_minus_1)

lemma unat_take12: "unat (take_bit 12 (x :: u32)) = unat x mod 4096"
  by (simp only: unsigned_take_bit_eq) (simp add: take_bit_eq_mod)

lemma take12_add: "take_bit 12 (take_bit 12 x + y) = take_bit 12 (x + y)" for x y :: u32
  by (simp add: word_unat_eq_iff unat_take12 unat_word_ariths mod_mod_cancel mod_simps)

lemma take12_add_4096: "take_bit 12 (x + 4096) = take_bit 12 x" for x :: u32
  by (simp add: word_unat_eq_iff unat_take12 unat_word_ariths mod_mod_cancel)

lemma window_slide_eq: "window_slide win sn = take_bit 12 (sn - win)"
  using take12_add_4096 [of "sn - win"] by (simp add: window_slide_def Let_def and_fff algebra_simps)

text \<open>After a slide that released nothing more, the frame is inside the window.\<close>

lemma slide_inside:
  assumes "sn < 4096"
  shows "(sn - ((window_slide win sn + win + 1) AND 0xFFF)) AND 0x800 \<noteq> 0"
proof -
  have "take_bit 12 (window_slide win sn + win + 1) = take_bit 12 (sn + 1)"
    unfolding window_slide_eq add.assoc
    by (simp add: take12_add)
  moreover have "(sn - take_bit 12 (sn + 1)) AND 0x800 \<noteq> 0"
  proof (cases "sn = 4095")
    case True
    then show ?thesis by simp
  next
    case False
    then have "unat sn < 4095" using assms by (auto simp: word_less_nat_alt word_unat_eq_iff)
    then have "unat (sn + 1) < 4096" using unat_add_small [of sn 1] by simp
    then have "take_bit 12 (sn + 1) = sn + 1"
      by (simp add: word_unat_eq_iff unat_take12)
    then show ?thesis by simp
  qed
  ultimately show ?thesis by (simp add: and_fff)
qed

lemma after_head:
  "after band entry lst ps rest s s' \<Longrightarrow> held (nodes s') (e_head (ents s' entry)) rest"
  by (simp add: after_def)

lemma after_band_win:
  assumes "after band entry lst ps rest s s'"
  shows "e_band (ents s' entry) = e_band (ents s entry)" "e_win (ents s' entry) = e_win (ents s entry)"
  using dropped_entry(1,2) assms unfolding after_def by blast+

lemma upd_ent_sel [simp]:
  "nodes (upd_ent e f s) = nodes s" "enq (upd_ent e f s) = enq s"
  "snd (ctl (upd_ent e f s)) = snd (ctl s)" "ents (upd_ent e f s) e = f (ents s e)"
  by (simp_all add: upd_ent_def ctl_def)

lemma upd_ent_head:
  "(\<And>x. e_head (f x) = e_head x) \<Longrightarrow> e_head (ents (upd_ent e f s) e') = e_head (ents s e')"
  by (simp add: upd_ent_def)

lemma ba_ready_upd_ent [simp]: "ba_ready v (upd_ent e f s) = ba_ready v s"
  by (simp add: ba_ready_def upd_ent_def)

lemma set_last_found_sel [simp]:
  "nodes (set_last_found e r s) = nodes s" "enq (set_last_found e r s) = enq s"
  "ba_ready v (set_last_found e r s) = ba_ready v s"
  "e_head (ents (set_last_found e r s) e) = e_head (ents s e)"
  "e_win (ents (set_last_found e r s) e) = e_win (ents s e)"
  by (simp_all add: set_last_found_def)

text \<open>
  A slide either releases nothing after its own step, and the frame is then inside the window, or it
  shortens the held list; so the loop ends, whatever window size and sequence numbers are there.
\<close>

lemma run_last_found: "run_last f 0xFFFF ms = 0xFFFF \<Longrightarrow> \<forall>m \<in> set ms. f (fst m) \<noteq> 0xFFFF \<Longrightarrow> ms = []"
proof (rule ccontr)
  assume a: "run_last f 0xFFFF ms = 0xFFFF" "\<forall>m \<in> set ms. f (fst m) \<noteq> 0xFFFF" "ms \<noteq> []"
  then have "c32 (f (fst (last ms))) = c32 (0xFFFF :: u16)" by (simp add: run_last_def)
  then show False using a(2,3) by (metis c32_c16_inj last_in_set)
qed

lemma length_sn_run: "length (sn_run f sn ms) \<le> length ms"
  by (induction ms arbitrary: sn) (auto intro: le_SucI)

lemma kite_window_ends:
  assumes "ba_ready v s" "held (nodes s) (e_head (ents s e)) ms" "sn < 4096"
  shows "\<exists>w l s' rest. kite_window v ret e sn lst s = Some (w, l, s') \<and> w \<noteq> Past \<and>
    ba_ready v s' \<and> held (nodes s') (e_head (ents s' e)) rest \<and>
    w = window_class l (c32 (e_win (ents s e))) sn"
  using assms
proof (induction "length ms" arbitrary: ms s lst rule: less_induct)
  case less
  let ?win = "c32 (e_win (ents s e))"
  show ?case
  proof (cases "window_class lst ?win sn = Past")
    case False
    then show ?thesis using less.prems by (subst kite_window.simps) auto
  next
    case True
    define fs where "fs = window_slide ?win sn"
    obtain t1 where t1: "ba_indicate_le_seq v ret e fs s = Some t1"
        "after (c32 (e_band (ents s e))) e None
          (takeWhile (\<lambda>(m, _). sn_le (n_sn (nodes s m)) fs) ms)
          (dropWhile (\<lambda>(m, _). sn_le (n_sn (nodes s m)) fs) ms) s t1" "snd (ctl t1) = snd (ctl s)"
      using ba_indicate_le_seq_all [OF less.prems(1,2)] by blast
    let ?ms1 = "dropWhile (\<lambda>(m, _). sn_le (n_sn (nodes s m)) fs) ms"
    define t2 where "t2 = upd_ent e (\<lambda>x. x\<lparr>e_last := c16 fs\<rparr>) t1"
    have r2: "ba_ready v t2" using less.prems(1) ba_ready_ctl [OF t1(3)] by (simp add: t2_def)
    have h2: "held (nodes t2) (e_head (ents t2 e)) ?ms1" using after_head [OF t1(2)] by (simp add: t2_def)
    let ?run = "sn_run (\<lambda>m. n_sn (nodes t2 m)) fs ?ms1"
    obtain t3 where t3: "ba_seq_scan v ret e fs t2 =
          Some (run_last (\<lambda>m. n_sn (nodes t2 m)) 0xFFFF ?run, t3)"
        "after (c32 (e_band (ents t2 e))) e None ?run (drop (length ?run) ?ms1) t2 t3"
        "snd (ctl t3) = snd (ctl t2)"
      using ba_seq_scan_all [OF r2 h2] by blast
    let ?r = "run_last (\<lambda>m. n_sn (nodes t2 m)) 0xFFFF ?run"
    define t4 where "t4 = upd_ent e (\<lambda>x. x\<lparr>e_flag := 4\<rparr>) (set_last_found e ?r t3)"
    have r4: "ba_ready v t4" using r2 ba_ready_ctl [OF t3(3)] by (simp add: t4_def)
    have h4: "held (nodes t4) (e_head (ents t4 e)) (drop (length ?run) ?ms1)"
      using after_head [OF t3(2)] by (simp add: t4_def)
    have w4: "e_win (ents t4 e) = e_win (ents s e)"
      using after_band_win(2) [OF t1(2)] after_band_win(2) [OF t3(2)] by (simp add: t4_def t2_def)
    let ?l = "if ?r = 0xFFFF then c32 (e_last (ents t3 e)) else ?r"
    have step: "kite_window v ret e sn lst s = kite_window v ret e sn ?l t4"
      using True t1(1) t3(1)
      by (subst kite_window.simps) (simp add: Let_def fs_def [symmetric] t2_def [symmetric] t4_def [symmetric])
    show ?thesis
    proof (cases "?run = []")
      case True
      then have "?r = 0xFFFF" by (simp add: run_last_def)
      moreover have "e_last (ents t3 e) = c16 fs"
        using t3(2) dropped_entry(4) [of e None] unfolding after_def by (fastforce simp: t2_def)
      moreover have "fs < 4096"
        unfolding fs_def window_slide_eq by (simp add: word_less_nat_alt unat_take12)
      then have "c32 (c16 fs) = fs"
        by (simp add: word_unat_eq_iff unat_c16_c32 word_less_nat_alt)
      ultimately have l: "?l = window_slide ?win sn" by (simp add: fs_def)
      then have "window_class ?l (c32 (e_win (ents t4 e))) sn \<noteq> Past"
        unfolding w4 l window_class_def using slide_inside [OF less.prems(3), of ?win] by simp
      then show ?thesis unfolding step using r4 h4 w4 by (subst kite_window.simps) auto
    next
      case False
      then have "length (drop (length ?run) ?ms1) < length ms"
        using length_sn_run [of "\<lambda>m. n_sn (nodes t2 m)" fs ?ms1] length_dropWhile_le [of _ ms]
        by (metis (no_types, lifting) diff_less le_trans length_drop length_greater_0_conv
            less_le_trans list.size(3) not_le order_less_le_trans zero_le)
      then show ?thesis unfolding step using less.hyps [OF _ r4 h4 less.prems(3)] w4 by metis
    qed
  qed
qed

section \<open>Holding a frame\<close>

text \<open>The distance of a sequence number from the last one delivered, modulo 4096.\<close>

definition sn_dist :: "u32 \<Rightarrow> u32 \<Rightarrow> nat" where
  "sn_dist lst sn = unat (take_bit 12 (sn - lst))"

definition sn_before :: "u32 \<Rightarrow> u32 \<Rightarrow> bool" where
  "sn_before a b \<longleftrightarrow> (a - b) AND 0x800 \<noteq> 0"

lemma bit11_mod: "(x :: u32) AND 0x800 \<noteq> 0 \<longleftrightarrow> 2048 \<le> unat x mod 4096"
proof -
  have "x AND 0x800 \<noteq> 0 \<longleftrightarrow> bit x 11"
    using and_exp_eq_0_iff_not_bit [of x 11] by simp
  also have "\<dots> \<longleftrightarrow> bit (unat x) 11" by (simp add: bit_unsigned_iff)
  also have "\<dots> \<longleftrightarrow> odd (unat x div 2048)" by (simp add: bit_iff_odd)
  also have "\<dots> \<longleftrightarrow> 2048 \<le> unat x mod 4096"
    using mod_mult2_eq [of "unat x" 2048 2] by (cases "odd (unat x div 2048)") (auto simp: odd_iff_mod_2_eq_one)
  finally show ?thesis .
qed

text \<open>For sequence numbers less than half the space ahead, the modular test is the order.\<close>

lemma sn_before_dist:
  assumes "sn_dist lst a < 2048" "sn_dist lst b < 2048"
  shows "sn_before a b \<longleftrightarrow> sn_dist lst a < sn_dist lst b"
proof -
  let ?A = "sn_dist lst a" and ?B = "sn_dist lst b" and ?D = "unat (a - b) mod 4096"
  have "a - lst = (a - b) + (b - lst)" by simp
  then have "unat (a - lst) mod 4096 = (unat (a - b) + unat (b - lst)) mod 4096"
    by (simp only: unat_word_ariths) (simp add: mod_mod_cancel)
  then have A: "?A = (?D + ?B) mod 4096" by (simp add: sn_dist_def unat_take12 mod_simps)
  have D: "?D < 4096" by simp
  show ?thesis
  proof (cases "?D + ?B < 4096")
    case True
    then have "?A = ?D + ?B" using A by simp
    then show ?thesis using assms by (simp add: sn_before_def bit11_mod)
  next
    case False
    then have ge: "4096 \<le> ?D + ?B" by simp
    have "?D + ?B - 4096 < 4096" using D assms(2) by linarith
    then have "?A = ?D + ?B - 4096" unfolding A le_mod_geq [OF ge] by (rule mod_less)
    then have "?A + 4096 = ?D + ?B" using ge by linarith
    then show ?thesis using assms D by (simp add: sn_before_def bit11_mod)
  qed
qed

lemma find_slot_all:
  "lseg h p xs \<Longrightarrow>
   find_slot h sn prev p =
     Some (if takeWhile (\<lambda>a. sn_before (c32 (n_sn (h a))) sn) xs = [] then prev
           else Some (last (takeWhile (\<lambda>a. sn_before (c32 (n_sn (h a))) sn) xs)),
         case dropWhile (\<lambda>a. sn_before (c32 (n_sn (h a))) sn) xs of [] \<Rightarrow> 0 | y # ys \<Rightarrow> y)"
proof (induction xs arbitrary: p prev)
  case Nil
  then show ?case by (subst find_slot.simps) simp
next
  case (Cons x xs)
  then show ?case
    by (subst find_slot.simps) (auto simp: sn_before_def)
qed

text \<open>Linking a node in after the prefix \<open>xs\<close>.\<close>

lemma lseg_insert_head: "lseg h p ys \<Longrightarrow> a \<noteq> 0 \<Longrightarrow> n_next (h a) = p \<Longrightarrow> lseg h a (a # ys)"
  by simp

lemma lseg_insert_after:
  assumes "lseg h p (xs @ ys)" "xs \<noteq> []" "distinct (xs @ ys)" "a \<notin> set (xs @ ys)" "a \<noteq> 0"
    "\<And>b. b \<in> set (xs @ ys) \<Longrightarrow> b \<noteq> last xs \<Longrightarrow> n_next (h' b) = n_next (h b)"
    "n_next (h' (last xs)) = a" "n_next (h' a) = (case ys of [] \<Rightarrow> 0 | y # _ \<Rightarrow> y)"
  shows "lseg h' p (xs @ a # ys)"
  using assms
proof (induction xs arbitrary: p)
  case Nil
  then show ?case by simp
next
  case (Cons x xs)
  show ?case
  proof (cases "xs = []")
    case True
    have "lseg h (n_next (h x)) ys" "n_next (h' x) = a" using Cons.prems(1,7) True by simp_all
    moreover have "lseg h' (n_next (h x)) ys = lseg h (n_next (h x)) ys"
      using Cons.prems(3,6) True by (intro lseg_cong) auto
    moreover have "n_next (h x) = (case ys of [] \<Rightarrow> 0 | y # _ \<Rightarrow> y)"
      using calculation(1) by (cases ys) auto
    ultimately show ?thesis using Cons.prems(1,5,8) True by simp
  next
    case False
    then have "n_next (h' x) = n_next (h x)" using Cons.prems(3,6) by (metis Un_iff append_Cons
          distinct.simps(2) last_ConsR last_in_set list.set_intros(1) set_append)
    then show ?thesis using Cons.IH [of "n_next (h x)"] Cons.prems False by auto
  qed
qed

definition sn_of :: "(u32 \<Rightarrow> ba_node) \<Rightarrow> u32 \<Rightarrow> u32" where
  "sn_of h a = c32 (n_sn (h a))"

text \<open>The held list split at a sequence number, and in order ahead of \<open>lst\<close>.\<close>

definition held_before :: "(u32 \<Rightarrow> ba_node) \<Rightarrow> u32 \<Rightarrow> mpdu list \<Rightarrow> mpdu list" where
  "held_before h sn = takeWhile (\<lambda>md. sn_before (sn_of h (fst md)) sn)"

definition held_from :: "(u32 \<Rightarrow> ba_node) \<Rightarrow> u32 \<Rightarrow> mpdu list \<Rightarrow> mpdu list" where
  "held_from h sn = dropWhile (\<lambda>md. sn_before (sn_of h (fst md)) sn)"

definition in_order :: "(u32 \<Rightarrow> ba_node) \<Rightarrow> u32 \<Rightarrow> mpdu list \<Rightarrow> bool" where
  "in_order h lst ms \<longleftrightarrow> sorted_wrt (\<lambda>x y. sn_dist lst (sn_of h (fst x)) < sn_dist lst (sn_of h (fst y))) ms \<and>
     (\<forall>md \<in> set ms. sn_dist lst (sn_of h (fst md)) < 2048)"

lemma held_split: "held_before h sn ms @ held_from h sn ms = ms"
  by (simp add: held_before_def held_from_def)

lemma in_order_insert:
  assumes o: "in_order h lst ms" and d: "sn_dist lst (sn_of h a) < 2048"
    and new: "held_from h (sn_of h a) ms = [] \<or>
      sn_of h (fst (hd (held_from h (sn_of h a) ms))) \<noteq> sn_of h a"
    and b: "\<And>md. md \<in> set ms \<Longrightarrow> sn_of h (fst md) < 4096" "sn_of h a < 4096"
  shows "in_order h lst (held_before h (sn_of h a) ms @ (a, []) # held_from h (sn_of h a) ms)"
proof -
  let ?sn = "sn_of h a" and ?d = "\<lambda>md. sn_dist lst (sn_of h (fst md))"
  let ?b = "held_before h (sn_of h a) ms" and ?f = "held_from h (sn_of h a) ms"
  have sub: "set ?b \<subseteq> set ms" "set ?f \<subseteq> set ms"
    using held_split [of h ?sn ms] by (metis Un_upper1 set_append, metis Un_upper2 set_append)
  have lt: "sn_before (sn_of h (fst md)) ?sn \<longleftrightarrow> ?d md < sn_dist lst ?sn" if "md \<in> set ms" for md
    using o d that by (intro sn_before_dist) (auto simp: in_order_def)
  have before: "\<forall>md \<in> set ?b. ?d md < sn_dist lst ?sn"
    using lt sub(1) by (auto simp: held_before_def dest: set_takeWhileD)
  have sorted: "sorted_wrt (\<lambda>x y. ?d x < ?d y) (?b @ ?f)" using o by (simp add: in_order_def held_split)
  have frm: "\<forall>md \<in> set ?f. sn_dist lst ?sn < ?d md"
  proof (cases ?f)
    case Nil
    then show ?thesis by simp
  next
    case (Cons x xs)
    have x: "x \<in> set ms" using sub(2) Cons by auto
    have "\<not> sn_before (sn_of h (fst x)) ?sn"
      using Cons hd_dropWhile [of "\<lambda>md. sn_before (sn_of h (fst md)) ?sn" ms] by (simp add: held_from_def)
    then have "sn_dist lst ?sn \<le> ?d x" using lt [OF x] by simp
    moreover have "sn_dist lst ?sn \<noteq> ?d x"
    proof
      assume "sn_dist lst ?sn = ?d x"
      then have "take_bit 12 (?sn - lst) = take_bit 12 (sn_of h (fst x) - lst)"
        by (simp only: sn_dist_def word_unat_eq_iff)
      then have "take_bit 12 (?sn - lst + lst) = take_bit 12 (sn_of h (fst x) - lst + lst)"
        by (metis take12_add)
      moreover have "take_bit 12 y = y" if "y < 4096" for y :: u32
        using that by (simp add: word_unat_eq_iff unat_take12 word_less_nat_alt)
      ultimately show False using new b x Cons by auto
    qed
    ultimately have "sn_dist lst ?sn < ?d x" by simp
    then show ?thesis using sorted Cons by (fastforce simp: sorted_wrt_append)
  qed
  show ?thesis using o d sorted before frm sub by (auto simp: in_order_def sorted_wrt_append)
qed

lemma in_order_cong:
  "(\<And>a. n_sn (h' a) = n_sn (h a)) \<Longrightarrow> in_order h' lst ms = in_order h lst ms"
  by (simp add: in_order_def sn_of_def)

lemma head_not_msdu:
  "distinct (mpdu_nodes ms) \<Longrightarrow> md \<in> set ms \<Longrightarrow> (m, ds) \<in> set ms \<Longrightarrow> fst md \<notin> set ds"
proof (induction ms)
  case Nil
  then show ?case by simp
next
  case (Cons x xs)
  obtain a es where x: "x = (a, es)" by (cases x)
  have in_nodes: "y \<in> set xs \<Longrightarrow> fst y \<in> set (mpdu_nodes xs)" for y
    using mpdu_nodes_mem [of "fst y" "snd y" xs] by simp
  have sub: "(m, ds) \<in> set xs \<Longrightarrow> set ds \<subseteq> set (mpdu_nodes xs)" using mpdu_nodes_mem by blast
  show ?case using Cons x in_nodes [of md] sub by auto
qed

lemma held_insert:
  assumes h: "held h p ms" and a: "a \<noteq> 0" "a \<notin> set (mpdu_nodes ms)" "n_msdu_head (h' a) = 0"
    and xy: "ms = xs @ ys"
    and n: "\<And>b. n_msdu_head (h' b) = n_msdu_head (h b) \<or> b = a"
      "\<And>b. b \<noteq> a \<Longrightarrow> (xs \<noteq> [] \<longrightarrow> b \<noteq> fst (last xs)) \<Longrightarrow> n_next (h' b) = n_next (h b)"
      "n_next (h' a) = (case ys of [] \<Rightarrow> 0 | y # _ \<Rightarrow> fst y)"
      "xs \<noteq> [] \<Longrightarrow> n_next (h' (fst (last xs))) = a"
  shows "held h' (if xs = [] then a else p) (xs @ (a, []) # ys)"
proof -
  have dist: "distinct (mpdu_nodes ms)" and seg: "lseg h p (map fst ms)"
    and sub: "\<forall>(m, ds) \<in> set ms. lseg h (n_msdu_head (h m)) ds"
    using h by (simp_all add: held_def)
  have fst_in: "fst ` set ms \<subseteq> set (mpdu_nodes ms)" using mpdu_nodes_mem by force
  have dm: "distinct (map fst ms)"
    using dist by (induction ms) (auto, use mpdu_nodes_mem in force)
  have na: "a \<notin> fst ` set ms" using a(2) fst_in by auto
  have hd: "(case map fst ys of [] \<Rightarrow> 0 | y # _ \<Rightarrow> y) = (case ys of [] \<Rightarrow> 0 | y # _ \<Rightarrow> fst y)"
    by (cases ys) auto
  have "lseg h' (if xs = [] then a else p) (map fst xs @ a # map fst ys)"
  proof (cases "xs = []")
    case True
    have "lseg h' p (map fst ys) = lseg h p (map fst ys)"
      using na n(2) xy True by (intro lseg_cong) (metis append_Nil image_set list.set_map)
    moreover have "p = (case ys of [] \<Rightarrow> 0 | y # _ \<Rightarrow> fst y)" using seg xy True by (cases ys) auto
    ultimately show ?thesis using seg xy True a(1) n(3) by simp
  next
    case False
    have l: "last (map fst xs) = fst (last xs)" using False by (simp add: last_map)
    have "lseg h' p (map fst xs @ a # map fst ys)"
    proof (rule lseg_insert_after [where h = h])
      show "lseg h p (map fst xs @ map fst ys)" using seg xy by simp
      show "distinct (map fst xs @ map fst ys)" using dm xy by simp
      show "a \<notin> set (map fst xs @ map fst ys)" using na xy by auto
      show "n_next (h' b) = n_next (h b)" if "b \<in> set (map fst xs @ map fst ys)" "b \<noteq> last (map fst xs)" for b
        using n(2) [of b] that na xy l by auto
    qed (use False a(1) n(3,4) hd l in auto)
    then show ?thesis using False by simp
  qed
  moreover have "lseg h' (n_msdu_head (h' m)) ds" if m: "(m, ds) \<in> set ms" for m ds
  proof -
    have ma: "m \<noteq> a" using na m by force
    have "n_next (h' b) = n_next (h b)" if b: "b \<in> set ds" for b
    proof (rule n(2))
      show "b \<noteq> a" using b a(2) mpdu_nodes_mem [OF m] by auto
      show "xs \<noteq> [] \<longrightarrow> b \<noteq> fst (last xs)"
      proof
        assume "xs \<noteq> []"
        then have "last xs \<in> set ms" using xy by simp
        then show "b \<noteq> fst (last xs)" using head_not_msdu [OF dist _ m] b by blast
      qed
    qed
    then have "lseg h' (n_msdu_head (h' m)) ds = lseg h (n_msdu_head (h' m)) ds" by (rule lseg_cong)
    moreover have "n_msdu_head (h' m) = n_msdu_head (h m)" using n(1) [of m] ma by simp
    moreover have "lseg h (n_msdu_head (h m)) ds" using sub m by blast
    ultimately show ?thesis by simp
  qed
  moreover have "distinct (mpdu_nodes (xs @ (a, []) # ys))"
    using dist a(2) xy by (auto simp: mpdu_nodes_def)
  ultimately show ?thesis using xy a(3) by (auto simp: held_def)
qed

section \<open>The insertion\<close>

lemma insert_held_all:
  assumes h: "held (nodes s) (e_head (ents s e)) ms"
    and a: "node \<noteq> 0" "node \<notin> set (mpdu_nodes ms)" "n_msdu_head (nodes s node) = 0"
      "n_sn (nodes s node) = n_sn pn"
    and new: "held_from (nodes s) (c32 (n_sn pn)) ms = [] \<or>
      n_sn (nodes s (fst (hd (held_from (nodes s) (c32 (n_sn pn)) ms)))) \<noteq> n_sn pn"
  shows "\<exists>s'. insert_held v pn e node pool idx s = Some s' \<and>
    held (nodes s') (e_head (ents s' e))
      (held_before (nodes s) (c32 (n_sn pn)) ms @ (node, []) # held_from (nodes s) (c32 (n_sn pn)) ms) \<and>
    e_count (ents s' e) = e_count (ents s e) + 1 \<and>
    e_chain (ents s' e) = (if n_amsdu pn \<le> 1 then 0 else node) \<and>
    (\<forall>b. n_sn (nodes s' b) = n_sn (nodes s b)) \<and> enq s' = enq s \<and> pools_of s' = pools_of s"
proof -
  let ?sn = "c32 (n_sn pn)" and ?h = "nodes s" and ?p = "e_head (ents s e)"
  let ?b = "held_before ?h ?sn ms" and ?f = "held_from ?h ?sn ms"
  have seg: "lseg ?h ?p (map fst ms)" using h by (simp add: held_def)
  have m: "takeWhile (\<lambda>a. sn_before (c32 (n_sn (?h a))) ?sn) (map fst ms) = map fst ?b"
    "dropWhile (\<lambda>a. sn_before (c32 (n_sn (?h a))) ?sn) (map fst ms) = map fst ?f"
    by (simp_all add: takeWhile_map dropWhile_map comp_def held_before_def held_from_def sn_of_def)
  have l: "?b \<noteq> [] \<Longrightarrow> last (map fst ?b) = fst (last ?b)" by (simp add: last_map)
  have fs: "find_slot ?h ?sn None ?p = Some (if ?b = [] then None else Some (fst (last ?b)),
      case ?f of [] \<Rightarrow> 0 | y # _ \<Rightarrow> fst y)"
    using find_slot_all [OF seg, of ?sn None] unfolding m using l by (cases ?f) auto
  define cur where "cur = (case ?f of [] \<Rightarrow> 0 | y # _ \<Rightarrow> fst y)"
  note fs = fs [folded cur_def]
  have nd: "\<not> (cur \<noteq> 0 \<and> n_sn (?h cur) = n_sn pn)" using new by (cases ?f) (auto simp: cur_def)
  define t where "t = upd_node node (\<lambda>n. n\<lparr>n_next := cur\<rparr>) s"
  define u where "u = (if ?b = [] then upd_ent e (\<lambda>x. x\<lparr>e_head := node\<rparr>) t
    else upd_node (fst (last ?b)) (\<lambda>n. n\<lparr>n_next := node\<rparr>) t)"
  define w where "w = upd_ent e (\<lambda>x. x\<lparr>e_count := e_count x + 1,
    e_chain := (if n_amsdu pn \<le> 1 then 0 else node)\<rparr>) u"
  have eq: "insert_held v pn e node pool idx s = Some w"
    using fs nd by (cases "?b = []") (auto simp: insert_held_def t_def u_def w_def Let_def)
  have lb: "fst (last ?b) \<noteq> node" if "?b \<noteq> []"
  proof -
    have "last ?b \<in> set ms" using that held_split [of ?h ?sn ms] by (metis UnI1 last_in_set set_append)
    then show ?thesis using a(2) mpdu_nodes_mem [of "fst (last ?b)" "snd (last ?b)" ms] by auto
  qed
  have "held (nodes w) (if ?b = [] then node else ?p) (?b @ (node, []) # ?f)"
  proof (rule held_insert [OF h a(1,2)])
    show "ms = ?b @ ?f" by (simp add: held_split)
  qed (use a(3) lb in \<open>auto simp: cur_def w_def u_def t_def upd_node_def upd_ent_def\<close>)
  moreover have "e_head (ents w e) = (if ?b = [] then node else ?p)"
    by (simp add: w_def u_def t_def upd_node_def upd_ent_def)
  moreover have "\<forall>b. n_sn (nodes w b) = n_sn (nodes s b)" "enq w = enq s" "pools_of w = pools_of s"
      "e_count (ents w e) = e_count (ents s e) + 1"
      "e_chain (ents w e) = (if n_amsdu pn \<le> 1 then 0 else node)"
    by (simp_all add: w_def u_def t_def upd_node_def upd_ent_def pools_of_def)
  ultimately show ?thesis using eq by auto
qed

section \<open>Properties\<close>

text \<open>
  C13. A flush of an entry ends, whatever it holds: every held MPDU goes to the bridge followed by its
  MSDUs, in list order and once each, their nodes' slots go back to the pools in that order, the entry
  is empty with the last sequence number of the last MPDU, no other entry changes, and the mutexes
  are as before.
\<close>

theorem ba_flush_empties:
  assumes "ba_ready v s" "held (nodes s) (e_head (ents s entry)) ms"
  shows "\<exists>s'. ba_flush_entry v ret entry s = Some s' \<and>
    e_head (ents s' entry) = 0 \<and> e_chain (ents s' entry) = 0 \<and>
    e_count (ents s' entry) = e_count (ents s entry) - of_nat (length ms) \<and>
    (ms \<noteq> [] \<longrightarrow> e_last (ents s' entry) = n_sn (nodes s (fst (last ms)))) \<and>
    (\<forall>e. e \<noteq> entry \<longrightarrow> ents s' e = ents s e) \<and>
    enq s' = enq s @ frames_of (nodes s) (c32 (e_band (ents s entry))) ms \<and>
    pools_of s' = fold pool_put (slots_of (nodes s) ms) (pools_of s) \<and>
    ba_mtx s' = ba_mtx s"
  using ba_flush_entry_all [OF assms, of ret] by (fastforce simp: ctl_def)

text \<open>A concrete state: two MPDUs of sequence numbers 7 and 8, the first an A-MSDU of two.\<close>

definition node_example :: "u32 \<Rightarrow> ba_node" where
  "node_example a =
     \<lparr>n_next = (if a = 0x1000 then 0x1024 else 0),
      n_msdu_head = (if a = 0x1000 then 0x1048 else 0),
      n_msdu_tail = (if a = 0x1000 then 0x1048 else 0), n_msdus = (if a = 0x1000 then 1 else 0),
      n_hdr = 40, n_tid = 0, n_wcid = 1, n_bss = 0,
      n_buf = (if a = 0x1000 then 10 else if a = 0x1024 then 11 else 12),
      n_idx = (if a = 0x1000 then 0 else if a = 0x1024 then 1 else 2),
      n_sn = (if a = 0x1024 then 8 else 7), n_len = 1500, n_amsdu = 0, n_pool = 1, n_tick = 0\<rparr>"

definition ba_example :: ba where
  "ba_example =
     \<lparr>nodes = node_example,
      ents = (\<lambda>_. \<lparr>e_head = 0x1000, e_tail = 0, e_count = 2, e_chain = 0, e_win = 64, e_last = 5,
        e_ref = 7, e_amsdu = 0, e_flag = 3, e_state = 4, e_band = 0\<rparr>),
      pri_idx = replicate 2000 0, sec_idx = replicate 5000 0, pri_widx = 3, pri_ridx = 0,
      sec_widx = 0, sec_ridx = 0, ba_node_pool_base = 0x1000, wifi_dram_ba_node_addr = 0x80000000,
      ba_table_a = 0x2000, ba_table_b = 0x4000, wifi_dbdc_mode = 0, wifi_force_to_cpu = 0,
      wifi_wait_band_2g = 0, wifi_wait_band_5g = 0, wifi_band_cap = 1, wifi_flushone_timeout = 10,
      wifi_pkt_buf_addr = 0, ratelimit_table = (\<lambda>_. 0), reorder_alloc_mutex = 8,
      reorder_free_mutex = 9, ba_mutex_5g = 5, ba_mutex_2g = 6, queue_mutex_2g = 10,
      queue_mutex_5g = 11, ba_mtx = mutexes_free,
      bufs = (\<lparr>bufid_pool = \<lparr>slots = [], ridx = 0, widx = 0\<rparr>, rx_bufid_alloc_mutex = 12,
        rx_bufid_free_mutex = 13, rx_bufid_alloc_count = 0,
        tx_ring = \<lparr>slots = [], ridx = 0, widx = 0\<rparr>, tx_token_alloc_mutex = 3,
        tx_token_free_mutex = 4, bufid_deq_count = 0, bufid_enq_count = 0, tx_buf_state = [],
        tdma_rx_ids = [], tx_jumbo_stack = [], tx_jumbo_top = 0, buf_mgr_alloc_widx = 0,
        buf_mgr_free_widx = 0, buf_mgr_alloc_cfg = 28, buf_mgr_free_cfg = 29, counter_base_2g = 0,
        counter_base_5g = 0, counter_base_tri = 0, wcid_counter_base_2g = 0,
        wcid_counter_base_5g = 0, cnt_block = (\<lambda>_ _. 0), wifi_debug_flags = 0,
        id_mtx = mutexes_free\<rparr>, []),
      calls = [], enq = []\<rparr>"

lemma ba_example_held:
  "ba_ready v ba_example"
  "held (nodes ba_example) (e_head (ents ba_example e)) [(0x1000, [0x1048]), (0x1024, [])]"
  by (simp_all add: ba_ready_def ba_example_def held_Cons node_example_def)

theorem ba_flush_empties_witness:
  "\<exists>s'. ba_flush_entry an7583_mt7993 (\<lambda>_. 0) 0x2000 ba_example = Some s' \<and>
     map fst (enq s') = [10, 12, 11]"
  using ba_flush_empties [OF ba_example_held, where v = an7583_mt7993 and ret = "\<lambda>_. 0" and entry = "0x2000"]
  by (auto simp: frames_of_def mpdu_frames_def frame_of_def ba_example_def node_example_def)



text \<open>
  C15. \<open>ba_seq_scan\<close> ends and releases exactly the run of consecutive sequence numbers that
  follows \<open>seq\<close> at the head of the list, and returns the last of them, or \<open>0xFFFF\<close> when the
  run is empty.
\<close>

theorem ba_seq_scan_run:
  assumes "ba_ready v s" "held (nodes s) (e_head (ents s entry)) ms"
  shows "\<exists>s'. ba_seq_scan v ret entry seq s =
      Some (run_last (\<lambda>m. n_sn (nodes s m)) 0xFFFF (sn_run (\<lambda>m. n_sn (nodes s m)) seq ms), s') \<and>
    enq s' = enq s @ frames_of (nodes s) (c32 (e_band (ents s entry)))
      (sn_run (\<lambda>m. n_sn (nodes s m)) seq ms) \<and>
    held (nodes s') (e_head (ents s' entry))
      (drop (length (sn_run (\<lambda>m. n_sn (nodes s m)) seq ms)) ms) \<and> ba_mtx s' = ba_mtx s"
proof -
  obtain s' where s': "ba_seq_scan v ret entry seq s =
      Some (run_last (\<lambda>m. n_sn (nodes s m)) 0xFFFF (sn_run (\<lambda>m. n_sn (nodes s m)) seq ms), s')"
      "after (c32 (e_band (ents s entry))) entry None (sn_run (\<lambda>m. n_sn (nodes s m)) seq ms)
        (drop (length (sn_run (\<lambda>m. n_sn (nodes s m)) seq ms)) ms) s s'" "snd (ctl s') = snd (ctl s)"
    using ba_seq_scan_all [OF assms] by blast
  then show ?thesis unfolding after_def
    by (intro exI [of _ s']) (auto simp: dropped_def ctl_def)
qed

theorem ba_seq_scan_run_witness:
  "\<exists>s'. ba_seq_scan an7583_mt7993 (\<lambda>_. 0) 0x2000 6 ba_example = Some (8, s') \<and>
     map fst (enq s') = [10, 12, 11]"
  using ba_seq_scan_run [OF ba_example_held, where v = an7583_mt7993 and ret = "\<lambda>_. 0" and entry = "0x2000" and seq = 6]
  by (auto simp: frames_of_def mpdu_frames_def frame_of_def ba_example_def node_example_def run_last_def)

text \<open>
  C16. The classifier's window loop ends for every window size and every held list, and leaves the
  frame in one of the four other cases; what is still held is still a well-formed list.
\<close>

theorem kite_window_terminates:
  assumes "ba_ready v s" "held (nodes s) (e_head (ents s e)) ms" "sn < 4096"
  shows "\<exists>w l s' rest. kite_window v ret e sn lst s = Some (w, l, s') \<and> w \<noteq> Past \<and>
    ba_ready v s' \<and> held (nodes s') (e_head (ents s' e)) rest \<and>
    w = window_class l (c32 (e_win (ents s e))) sn"
  by (rule kite_window_ends [OF assms])

theorem kite_window_terminates_witness:
  "\<exists>w l s'. kite_window an7583_mt7993 (\<lambda>_. 0) 0x2000 100 5 ba_example = Some (w, l, s') \<and> w \<noteq> Past"
  using kite_window_terminates [OF ba_example_held, where v = an7583_mt7993 and ret = "\<lambda>_. 0" and e = "0x2000" and sn = 100 and lst = 5] by auto

text \<open>
  C17. Holding a frame: with a fresh node, whose sequence number is not held yet, the list gains it at
  the one place that keeps the list strictly ordered ahead of the last number delivered, and nothing
  is sent.
\<close>

theorem insert_held_ordered:
  assumes "held (nodes s) (e_head (ents s e)) ms" "in_order (nodes s) lst ms"
    "node \<noteq> 0" "node \<notin> set (mpdu_nodes ms)" "n_msdu_head (nodes s node) = 0"
    "n_sn (nodes s node) = n_sn pn" "sn_dist lst (c32 (n_sn pn)) < 2048" "unat (n_sn pn) < 4096"
    "\<forall>md \<in> set ms. unat (n_sn (nodes s (fst md))) < 4096 \<and> n_sn (nodes s (fst md)) \<noteq> n_sn pn"
  shows "\<exists>s' ms'. insert_held v pn e node pool idx s = Some s' \<and>
    held (nodes s') (e_head (ents s' e)) ms' \<and> in_order (nodes s') lst ms' \<and>
    mset ms' = add_mset (node, []) (mset ms) \<and> enq s' = enq s"
proof -
  let ?sn = "c32 (n_sn pn)"
  let ?ms = "held_before (nodes s) ?sn ms @ (node, []) # held_from (nodes s) ?sn ms"
  have new: "held_from (nodes s) ?sn ms = [] \<or>
      n_sn (nodes s (fst (hd (held_from (nodes s) ?sn ms)))) \<noteq> n_sn pn"
    using assms(9) held_split [of "nodes s" ?sn ms] by (metis UnI2 list.set_sel(1) set_append)
  obtain s' where s': "insert_held v pn e node pool idx s = Some s'"
      "held (nodes s') (e_head (ents s' e)) ?ms" "\<forall>b. n_sn (nodes s' b) = n_sn (nodes s b)"
      "enq s' = enq s"
    using insert_held_all [OF assms(1,3-6) new, of v pool idx] by blast
  have sn: "sn_of (nodes s) node = ?sn" using assms(6) by (simp add: sn_of_def)
  have "in_order (nodes s) lst ?ms"
    using in_order_insert [OF assms(2), of node] assms(7-9) new sn
    by (auto simp: sn_of_def word_less_nat_alt)
  then have "in_order (nodes s') lst ?ms" using s'(3) by (subst in_order_cong [where h = "nodes s"]) auto
  moreover have "mset ?ms = add_mset (node, []) (mset ms)"
    using held_split [of "nodes s" ?sn ms] by (metis mset.simps(2) mset_append union_mset_add_mset_right)
  ultimately show ?thesis using s' by blast
qed

theorem insert_held_ordered_witness:
  "\<exists>s' ms'. insert_held an7583_mt7993 ((node_example 0x2000)\<lparr>n_sn := 9\<rparr>) 0x2000 0x106C 1 3
     (upd_node 0x106C (\<lambda>n. n\<lparr>n_sn := 9\<rparr>) ba_example) = Some s' \<and>
     held (nodes s') (e_head (ents s' 0x2000)) ms' \<and> in_order (nodes s') 5 ms'"
proof -
  let ?s = "upd_node 0x106C (\<lambda>n. n\<lparr>n_sn := 9\<rparr>) ba_example"
  let ?ms = "[(0x1000, [0x1048]), (0x1024, [])] :: mpdu list"
  have h: "held (nodes ?s) (e_head (ents ?s 0x2000)) ?ms"
    by (simp add: ba_example_def held_Cons node_example_def upd_node_def)
  have o: "in_order (nodes ?s) 5 ?ms"
    by (simp add: in_order_def sn_of_def sn_dist_def ba_example_def node_example_def upd_node_def)
  show ?thesis
    using insert_held_ordered [OF h o, of "0x106C" "(node_example 0x2000)\<lparr>n_sn := 9\<rparr>" an7583_mt7993 1 3]
    by (auto simp: ba_example_def node_example_def upd_node_def sn_dist_def)
qed

end
