(* ===== verification/Dba.thy ===== *)
theory Dba
  imports Sram
begin

text \<open>
  \<open>npu_dba.c\<close>, the upstream scheduler of the GPON block (AN7583 with WiFi): its state, the FTTR
  registers, the alloc id layout, the T-CONT table and the host mail. The scheduler proper is in
  \<open>Dba_Report\<close>, \<open>Dba_Grant\<close>, \<open>Dba_Bwmap\<close>, \<open>Dba_New\<close> and \<open>Dba_Frame\<close>.

  The tables are lists of the code's sizes. An index the code does not check is a fault when it is
  outside its table. A \<open>s8\<close> is an 8-bit word read with \<open>sint\<close>.
\<close>

section \<open>State\<close>

record tcont_cfg =
  c_flags :: u8
  c_alloc_id :: u16
  c_type :: u8
  c_fix :: u32
  c_assure :: u32
  c_max :: u32

record dba_rpt =
  r_non_idle :: u16
  r_bwmap_byte :: u16
  r_dbru :: u16

record dba_alloc =
  a_cfg :: tcont_cfg
  a_ring_idx :: u8
  a_step :: u8
  a_grow :: u8
  a_hold :: u8
  a_ring :: "dba_rpt list"
  a_bw :: s32
  a_ref :: u16
  a_idle_avg :: u32
  a_state :: u8

record dba_budget =
  b_total :: u16
  b_remain :: s32
  b_cnt :: u16
  b_share :: u16
  b_demand :: u32
  b_over_share :: u32
  b_left :: s32
  b_over_assure :: u32

record dba_map =
  m_onu_mask :: u8
  m_tc_mask :: u16
  m_tc_shift :: nat
  m_idx_shift :: nat
  m_onu :: u8
  m_tc :: u8

record dba =
  tc_changed :: u8
  tc_mode :: u8
  tc_olt_mode :: u8
  tc_cfg :: "tcont_cfg list"
  dba_onu_tx_burst :: "u32 list"
  dba_ctx :: "dba_alloc list"
  bw_ctrl :: u32
  bw_stop :: u16
  bw_start :: u16
  dba_bwmap_pos :: u16
  dba_bwmap_nonempty :: u8
  npu_fttr_base :: u32
  dba_frame_cnt :: u32
  dba_mode :: u8
  dba_bwmap_left :: u8
  dba_non_idle_cnt1 :: u32
  dba_non_idle_cnt2 :: u32
  dba_sw_bwmap_test :: u32
  dba_rpt_tick :: u32
  dba_get_timer_en :: u32
  dba_do_timer_en :: u32
  dba_print_en :: u32
  dba_print_no_idle_en :: u32
  dba_clean_no_idle :: u32
  dba_no_idle_dump :: u32
  dba_rpt_dump :: u32
  dba_last_onu :: u8
  dba_act_onus :: u8
  dba_new_act :: u8
  dba_new_act_cur :: u8
  dba_single_onu_ok :: u8
  dba_cross_pos :: u32
  dba_new_pass_cnt :: u32
  dba_new_en_cur :: u8
  dba_log_en :: u8
  dba_single_onu_en :: u8
  dba_rpt_step :: u32
  dba_new_en :: u8
  dba_burst_ovh :: u32
  dba_io :: "access list"

text \<open>What the code does outside a table, or with a zero divisor.\<close>

datatype dba_fault = Tcont_outside nat | Onu_outside nat | Order_overflow | Step_zero

definition DBA_ALLOC_NUM :: nat where "DBA_ALLOC_NUM = 128"

section \<open>At boot\<close>

definition tcont_zero :: tcont_cfg where
  "tcont_zero = \<lparr>c_flags = 0, c_alloc_id = 0, c_type = 0, c_fix = 0, c_assure = 0, c_max = 0\<rparr>"

definition alloc_zero :: dba_alloc where
  "alloc_zero =
     \<lparr>a_cfg = tcont_zero, a_ring_idx = 0, a_step = 0, a_grow = 0, a_hold = 0,
      a_ring = replicate 2 \<lparr>r_non_idle = 0, r_bwmap_byte = 0, r_dbru = 0\<rparr>, a_bw = 0, a_ref = 0,
      a_idle_avg = 0, a_state = 0\<rparr>"

text \<open>The statics and globals as the image starts with them.\<close>

definition dba_boot :: dba where
  "dba_boot =
     \<lparr>tc_changed = 0, tc_mode = 0, tc_olt_mode = 0, tc_cfg = replicate DBA_ALLOC_NUM tcont_zero,
      dba_onu_tx_burst = replicate 64 0, dba_ctx = [], bw_ctrl = 0, bw_stop = 0, bw_start = 0,
      dba_bwmap_pos = 0, dba_bwmap_nonempty = 0, npu_fttr_base = 0, dba_frame_cnt = 0, dba_mode = 0,
      dba_bwmap_left = 0, dba_non_idle_cnt1 = 0, dba_non_idle_cnt2 = 0, dba_sw_bwmap_test = 0,
      dba_rpt_tick = 0, dba_get_timer_en = 0, dba_do_timer_en = 0, dba_print_en = 0,
      dba_print_no_idle_en = 0, dba_clean_no_idle = 0, dba_no_idle_dump = 0, dba_rpt_dump = 0,
      dba_last_onu = 0, dba_act_onus = 0, dba_new_act = 0, dba_new_act_cur = 0, dba_single_onu_ok = 0,
      dba_cross_pos = 0, dba_new_pass_cnt = 0, dba_new_en_cur = 1, dba_log_en = 1,
      dba_single_onu_en = 1, dba_rpt_step = 1, dba_new_en = 1, dba_burst_ovh = 46, dba_io = []\<rparr>"

section \<open>FTTR registers\<close>

definition FTTR_REG :: "u32 \<Rightarrow> u32" where "FTTR_REG off = 0x1FBE4000 + off"

definition DBA_SYNC_REG :: u32 where "DBA_SYNC_REG = 0x1FB00020"
definition FTTR_BWMAP_W0 :: u32 where "FTTR_BWMAP_W0 = FTTR_REG 0x008"
definition FTTR_BWMAP_W1 :: u32 where "FTTR_BWMAP_W1 = FTTR_REG 0x00C"
definition FTTR_BWMAP_CTRL :: u32 where "FTTR_BWMAP_CTRL = FTTR_REG 0x010"
definition FTTR_INT_STS :: u32 where "FTTR_INT_STS = FTTR_REG 0x408"
definition FTTR_MAP_MODE :: u32 where "FTTR_MAP_MODE = FTTR_REG 0x418"
definition FTTR_RPT_WIDX :: u32 where "FTTR_RPT_WIDX = FTTR_REG 0x498"
definition FTTR_RPT_BASE :: u32 where "FTTR_RPT_BASE = FTTR_REG 0x49C"
definition FTTR_RPT_RIDX :: u32 where "FTTR_RPT_RIDX = FTTR_REG 0x4A0"
definition FTTR_RPT_CNT :: u32 where "FTTR_RPT_CNT = FTTR_REG 0x4A4"
definition FTTR_RPT_CFG :: u32 where "FTTR_RPT_CFG = FTTR_REG 0x4A8"
definition FTTR_RPT_SIZE :: u32 where "FTTR_RPT_SIZE = FTTR_REG 0x4AC"

lemmas fttr_regs = FTTR_REG_def DBA_SYNC_REG_def FTTR_BWMAP_W0_def FTTR_BWMAP_W1_def
  FTTR_BWMAP_CTRL_def FTTR_INT_STS_def FTTR_MAP_MODE_def FTTR_RPT_WIDX_def FTTR_RPT_BASE_def
  FTTR_RPT_RIDX_def FTTR_RPT_CNT_def FTTR_RPT_CFG_def FTTR_RPT_SIZE_def

definition fttr_rd :: "device \<Rightarrow> u32 \<Rightarrow> dba \<Rightarrow> u32 \<times> dba" where
  "fttr_rd dev reg s =
     (let (v, tr) = reg_rd dev reg (dba_io s);
          (_, tr) = reg_rd dev DBA_SYNC_REG tr
      in (v, s\<lparr>dba_io := tr\<rparr>))"

definition fttr_wr :: "device \<Rightarrow> u32 \<Rightarrow> u32 \<Rightarrow> dba \<Rightarrow> dba" where
  "fttr_wr dev reg v s =
     (let tr = reg_wr reg v (dba_io s);
          (_, tr) = reg_rd dev DBA_SYNC_REG tr
      in s\<lparr>dba_io := tr\<rparr>)"

definition dba_bwmap_write :: "device \<Rightarrow> u32 \<Rightarrow> u32 \<Rightarrow> dba \<Rightarrow> dba" where
  "dba_bwmap_write dev w0 w1 s = fttr_wr dev FTTR_BWMAP_W1 w1 (fttr_wr dev FTTR_BWMAP_W0 w0 s)"

text \<open>The bank in use and the bank requested.\<close>

definition dba_bwmap_bank_get :: "device \<Rightarrow> dba \<Rightarrow> u32 \<times> u32 \<times> dba" where
  "dba_bwmap_bank_get dev s =
     (let (v, s) = fttr_rd dev FTTR_BWMAP_CTRL s in (v AND 1, drop_bit 1 v AND 1, s))"

definition dba_bwmap_bank_set :: "device \<Rightarrow> u32 \<Rightarrow> dba \<Rightarrow> dba" where
  "dba_bwmap_bank_set dev bank s =
     (let (v, s) = fttr_rd dev FTTR_BWMAP_CTRL s
      in fttr_wr dev FTTR_BWMAP_CTRL (v AND NOT 2 OR push_bit 1 (bank AND 1)) s)"

definition dba_bwmap_empty_set :: "device \<Rightarrow> u32 \<Rightarrow> dba \<Rightarrow> dba" where
  "dba_bwmap_empty_set dev e s =
     (let (v, s) = fttr_rd dev FTTR_BWMAP_CTRL s
      in fttr_wr dev FTTR_BWMAP_CTRL (v AND NOT 4 OR push_bit 2 (e AND 1)) s)"

section \<open>Alloc ids and indices\<close>

definition dba_map_tbl :: "dba_map list" where
  "dba_map_tbl =
     [\<lparr>m_onu_mask = 0x1F, m_tc_mask = 0x0300, m_tc_shift = 8, m_idx_shift = 5, m_onu = 32, m_tc = 4\<rparr>,
      \<lparr>m_onu_mask = 0x0F, m_tc_mask = 0x0700, m_tc_shift = 8, m_idx_shift = 4, m_onu = 16, m_tc = 8\<rparr>,
      \<lparr>m_onu_mask = 0x07, m_tc_mask = 0x0F00, m_tc_shift = 8, m_idx_shift = 3, m_onu = 8, m_tc = 16\<rparr>,
      \<lparr>m_onu_mask = 0x3F, m_tc_mask = 0x0200, m_tc_shift = 9, m_idx_shift = 6, m_onu = 64, m_tc = 2\<rparr>]"

definition dba_map_of :: "u32 \<Rightarrow> dba_map" where
  "dba_map_of md = dba_map_tbl ! (if 3 < md then 3 else unat md)"

definition dba_aid_conv :: "u32 \<Rightarrow> u32 \<Rightarrow> u32 \<Rightarrow> u32 \<Rightarrow> u32" where
  "dba_aid_conv val idx md op =
     (let m = dba_map_of md
      in if op = 0 then c32 (m_onu m)
         else if op = 1 then c32 (m_tc m)
         else if op = 2 then
           c32 (c16 (push_bit (m_idx_shift m) (c32 (c8 (drop_bit (m_tc_shift m) (val AND c32 (m_tc_mask m)))))
                     OR val AND c32 (m_onu_mask m)))
         else if op = 3 then c32 (c16 (c32 (c8 val) OR push_bit (m_idx_shift m) idx))
         else if op = 4 then val AND c32 (m_onu_mask m)
         else if op = 5 then c32 (c8 val) OR push_bit (m_tc_shift m) idx AND c32 (m_tc_mask m)
         else c32 (c16 (push_bit (m_idx_shift m) idx)))"

text \<open>The index of T-CONT \<open>t\<close> of an ONU, as the loops write it.\<close>

definition tc_slot :: "dba_map \<Rightarrow> nat \<Rightarrow> nat \<Rightarrow> nat" where
  "tc_slot m t onu =
     unat (c16 (push_bit (m_idx_shift m) (of_nat t :: u32) OR of_nat onu))"

section \<open>The T-CONT table\<close>

definition tcont_default :: "dba_map \<Rightarrow> u32 \<Rightarrow> nat \<Rightarrow> nat \<Rightarrow> tcont_cfg \<Rightarrow> tcont_cfg" where
  "tcont_default m md onu t c =
     (let c = c\<lparr>c_alloc_id := (m_tc_mask m AND c16 (push_bit (m_tc_shift m) (of_nat t :: u32))) OR of_nat onu,
            c_flags := c8 (c32 (c_flags c) AND 0xF0 OR push_bit 2 (md AND 3))\<rparr>
      in if t = 0 then c\<lparr>c_type := 1, c_fix := 90, c_assure := 0, c_max := 0\<rparr>
         else c\<lparr>c_type := 4, c_fix := 0, c_assure := 0, c_max := 19340\<rparr>)"

definition tcont_slots :: "dba_map \<Rightarrow> (nat \<times> nat) list" where
  "tcont_slots m = [(onu, t). onu \<leftarrow> [0..<unat (m_onu m)], t \<leftarrow> [0..<unat (m_tc m)]]"

fun tcont_fill :: "dba_map \<Rightarrow> u32 \<Rightarrow> (nat \<times> nat) list \<Rightarrow> tcont_cfg list \<Rightarrow> tcont_cfg list" where
  "tcont_fill m md [] cs = cs"
| "tcont_fill m md ((onu, t) # sl) cs =
     (let i = tc_slot m t onu in tcont_fill m md sl (cs[i := tcont_default m md onu t (cs ! i)]))"

definition dba_tcont_init :: "device \<Rightarrow> dba \<Rightarrow> dba" where
  "dba_tcont_init dev s =
     (let (v, s) = fttr_rd dev FTTR_MAP_MODE s;
          m = dba_map_of (c32 (c8 v))
      in s\<lparr>tc_changed := 0, tc_mode := c8 v, tc_cfg := tcont_fill m v (tcont_slots m) (tc_cfg s)\<rparr>)"

definition dba_tcont_load :: "dba \<Rightarrow> dba" where
  "dba_tcont_load s =
     s\<lparr>tc_changed := 0, dba_ctx := map2 (\<lambda>a c. a\<lparr>a_cfg := c\<rparr>) (dba_ctx s) (tc_cfg s)\<rparr>"

definition dba_cfg_init :: "device \<Rightarrow> dba \<Rightarrow> dba" where
  "dba_cfg_init dev s = dba_tcont_load (dba_tcont_init dev s)"

text \<open>The ONU an index belongs to, \<open>- 1\<close> for an unknown mode.\<close>

definition dba_idx_onu :: "nat \<Rightarrow> u8 \<Rightarrow> int" where
  "dba_idx_onu i md =
     (if md = 0 then int (i mod 32) else if md = 1 then int (i mod 16)
      else if md = 2 then int (i mod 8) else if md = 3 then int (i mod 64) else - 1)"

section \<open>Host mail\<close>

record dba_mail =
  ml_alloc_id :: u16
  ml_fix_band :: u16
  ml_max_band :: u16
  ml_assure_band :: u16
  ml_func_type :: u8
  ml_func_id :: u8
  ml_get_timer_en :: u8
  ml_do_timer_en :: u8
  ml_enable :: u8
  ml_onu_id :: u8
  ml_state :: u8
  ml_sw_bwmap_test :: u8
  ml_dba_type :: u8
  ml_valid :: u8
  ml_fec :: u8
  ml_tcont_id :: u8
  ml_tcont_map_mode :: u8
  ml_ploamu_flag :: u8
  ml_reg :: u32
  ml_reg_val :: u32
  ml_olt_mode :: u8
  ml_all_band_to_single_onu :: u8

text \<open>Every T-CONT of an ONU under the map mode, as the two ONU mails change them.\<close>

definition upd_onu :: "u8 \<Rightarrow> u8 \<Rightarrow> (tcont_cfg \<Rightarrow> tcont_cfg) \<Rightarrow> tcont_cfg list \<Rightarrow> tcont_cfg list" where
  "upd_onu md onu f cs =
     map (\<lambda>(i, c). if dba_idx_onu i md = int (unat onu) then f c else c) (enumerate 0 cs)"

definition upd_tcont :: "u8 \<Rightarrow> (tcont_cfg \<Rightarrow> tcont_cfg) \<Rightarrow> dba \<Rightarrow> dba_fault + dba" where
  "upd_tcont t f s =
     (if length (tc_cfg s) \<le> unat t then Inl (Tcont_outside (unat t))
      else Inr (s\<lparr>tc_changed := 1, tc_cfg := (tc_cfg s)[unat t := f (tc_cfg s ! unat t)]\<rparr>))"

definition dba_mail_set :: "device \<Rightarrow> dba_mail \<Rightarrow> dba \<Rightarrow> dba_fault + dba" where
  "dba_mail_set dev m s =
     (let f = ml_func_id m; md = tc_mode s in
      if f = 0 then Inr (s\<lparr>dba_print_en := c32 (ml_enable m)\<rparr>)
      else if f = 1 then Inr (s\<lparr>dba_print_no_idle_en := c32 (ml_enable m)\<rparr>)
      else if f = 2 then Inr (s\<lparr>dba_clean_no_idle := c32 (ml_enable m)\<rparr>)
      else if f = 3 then Inr (s\<lparr>dba_get_timer_en := c32 (ml_get_timer_en m),
        dba_do_timer_en := c32 (ml_do_timer_en m)\<rparr>)
      else if f = 10 then Inr (s\<lparr>dba_sw_bwmap_test := c32 (ml_sw_bwmap_test m)\<rparr>)
      else if f = 4 then
        (if ml_state m \<noteq> 0 then Inr s
         else Inr (s\<lparr>tc_cfg := upd_onu md (ml_onu_id m) (\<lambda>c. c\<lparr>c_flags := c_flags c AND NOT 1\<rparr>) (tc_cfg s),
           tc_changed := 1\<rparr>))
      else if f = 5 then
        Inr (s\<lparr>tc_cfg := upd_onu md (ml_onu_id m)
            (\<lambda>c. c\<lparr>c_flags := c_flags c AND NOT 2 OR push_bit 1 (ml_fec m AND 1)\<rparr>) (tc_cfg s),
          tc_changed := 1\<rparr>)
      else if f = 6 then
        upd_tcont (ml_tcont_id m)
          (\<lambda>c. c\<lparr>c_fix := c32 (ml_fix_band m), c_max := c32 (ml_max_band m),
             c_assure := c32 (ml_assure_band m), c_type := ml_dba_type m, c_alloc_id := ml_alloc_id m\<rparr>) s
      else if f = 7 then
        upd_tcont (ml_tcont_id m) (\<lambda>c. c\<lparr>c_flags := c_flags c AND NOT 1 OR ml_valid m AND 1\<rparr>) s
      else if f = 8 then
        (if length (tc_cfg s) \<le> unat (ml_tcont_id m) then Inl (Tcont_outside (unat (ml_tcont_id m)))
         else Inr s)
      else if f = 11 \<or> f = 13 then Inr (fttr_wr dev (ml_reg m) (ml_reg_val m) s)
      else if f = 15 then Inr (s\<lparr>tc_changed := 1, tc_mode := ml_tcont_map_mode m\<rparr>)
      else if f = 16 then
        Inr (if ml_olt_mode m = 1 then s\<lparr>dba_burst_ovh := 75, tc_olt_mode := 1\<rparr>
             else s\<lparr>dba_burst_ovh := 46, tc_olt_mode := 0\<rparr>)
      else if f = 17 then Inr (s\<lparr>dba_single_onu_en := ml_all_band_to_single_onu m\<rparr>)
      else if f = 18 then Inr (s\<lparr>dba_new_en := ml_enable m\<rparr>)
      else if f = 19 then
        (if length (dba_onu_tx_burst s) \<le> unat (ml_onu_id m) then Inl (Onu_outside (unat (ml_onu_id m)))
         else Inr (s\<lparr>dba_onu_tx_burst := (dba_onu_tx_burst s)[unat (ml_onu_id m) := 0]\<rparr>))
      else Inr s)"

definition dba_mail_get :: "device \<Rightarrow> dba_mail \<Rightarrow> dba \<Rightarrow> dba_fault + (dba_mail \<times> dba)" where
  "dba_mail_get dev m s =
     (if ml_func_id m = 12 \<or> ml_func_id m = 14 then
        (let (v, s) = fttr_rd dev (ml_reg m) s in Inr (m\<lparr>ml_reg_val := v\<rparr>, s))
      else if ml_func_id m = 20 then
        (if length (dba_onu_tx_burst s) \<le> unat (ml_onu_id m) then Inl (Onu_outside (unat (ml_onu_id m)))
         else Inr (m\<lparr>ml_reg_val := dba_onu_tx_burst s ! unat (ml_onu_id m)\<rparr>, s))
      else Inr (m, s))"

text \<open>The mail block comes back with \<open>reg_val\<close> filled in; the handler always returns 1.\<close>

definition dba_mail_handler :: "device \<Rightarrow> dba_mail \<Rightarrow> dba \<Rightarrow> dba_fault + (u32 \<times> dba_mail \<times> dba)" where
  "dba_mail_handler dev m s =
     (if ml_func_type m = 1 then map_sum id (\<lambda>s. (1, m, s)) (dba_mail_set dev m s)
      else if ml_func_type m = 3 then map_sum id (Pair 1) (dba_mail_get dev m s)
      else Inr (1, m, s))"

end
