(* ===== verification/Dba_Report.thy ===== *)
theory Dba_Report
  imports Dba
begin

text \<open>
  The upstream reports of \<open>npu_dba.c\<close>: the FTTR block queues pairs of reports in a ring in SRAM;
  core 5 drains it once per frame and keeps the last two reports of every alloc id.
\<close>

section \<open>The two report slots of an alloc id\<close>

record dba_hw_rpt =
  h_non_idle :: u16
  h_bwmap_byte :: u16
  h_word :: u32

definition rpt_rd :: "dba_alloc \<Rightarrow> nat" where
  "rpt_rd a = unat (a_ring_idx a AND 0xF)"

definition rpt_wr :: "dba_alloc \<Rightarrow> nat" where
  "rpt_wr a = unat (drop_bit 4 (a_ring_idx a) AND 0xF)"

definition dba_rpt_push :: "dba_rpt \<Rightarrow> dba_alloc \<Rightarrow> dba_alloc" where
  "dba_rpt_push r a =
     (let rd = c32 (a_ring_idx a) AND 0xF;
          wr = (drop_bit 4 (c32 (a_ring_idx a)) AND 0xF) + 1;
          wr = (if wr = 2 then 0 else wr);
          rd = (if wr = rd then (if rd + 1 = 2 then 0 else rd + 1) AND 0xF else rd)
      in a\<lparr>a_ring := (a_ring a)[unat wr := r],
           a_ring_idx := c8 (rd OR push_bit 4 (wr AND 0xF))\<rparr>)"

definition dba_rpt_store :: "dba_hw_rpt \<Rightarrow> dba \<Rightarrow> dba" where
  "dba_rpt_store hw s =
     (if h_word hw AND 0x7FF8000 = 0x7F8000 then s
      else
        (let i = unat (c8 (dba_aid_conv (drop_bit 15 (h_word hw) AND 0xFFF) 0 (c32 (dba_mode s)) 2));
             r = \<lparr>r_non_idle = h_non_idle hw, r_bwmap_byte = h_bwmap_byte hw,
               r_dbru = c16 (h_word hw AND 0x7FFF)\<rparr>
         in s\<lparr>dba_ctx := (dba_ctx s)[i := dba_rpt_push r (dba_ctx s ! i)]\<rparr>))"

section \<open>The drain\<close>

text \<open>
  The ring memory is written by the FTTR block: what a report slot holds depends on the accesses so
  far.
\<close>

type_synonym rpt_mem = "access list \<Rightarrow> u32 \<Rightarrow> dba_hw_rpt"

text \<open>One turn: the pair at \<open>idx\<close>, the next index, the read index register and the new count.\<close>

definition drain_next :: "u32 \<Rightarrow> u32 \<Rightarrow> u32 \<Rightarrow> u32 \<Rightarrow> u32" where
  "drain_next stp pending lst idx =
     (let idx = (if stp < pending then idx + stp else idx + 1) in if lst < idx then 0 else idx)"

definition drain_step ::
  "device \<Rightarrow> rpt_mem \<Rightarrow> u32 \<Rightarrow> u32 \<times> u32 \<times> u32 \<times> dba \<Rightarrow> u32 \<times> u32 \<times> u32 \<times> dba" where
  "drain_step dev mem lst q =
     (let (ridx, pending, idx, s) = q;
          r2 = mem (dba_io s) (npu_fttr_base s + idx * 16);
          r1 = mem (dba_io s) (npu_fttr_base s + idx * 16 + 8);
          s = dba_rpt_store r2 (dba_rpt_store r1 s);
          idx = drain_next (dba_rpt_step s) pending lst idx;
          ridx = (ridx AND 0xFFFF) OR push_bit 16 (idx AND 0xFFFF);
          s = fttr_wr dev FTTR_RPT_RIDX ridx s;
          (cnt, s) = fttr_rd dev FTTR_RPT_CNT s
      in (ridx, cnt AND 0xFFFF, idx, s))"

fun drain_loop ::
  "device \<Rightarrow> rpt_mem \<Rightarrow> u32 \<Rightarrow> nat \<Rightarrow> u32 \<times> u32 \<times> u32 \<times> dba \<Rightarrow> u32 \<times> u32 \<times> u32 \<times> dba" where
  "drain_loop dev mem lst 0 q = q"
| "drain_loop dev mem lst (Suc n) q =
     (let (ridx, pending, idx, s) = drain_step dev mem lst q
      in if n = 0 \<or> pending = 0 then (ridx, pending, idx, s)
         else drain_loop dev mem lst n (ridx, pending, idx, s))"

definition dba_rpt_drain :: "device \<Rightarrow> rpt_mem \<Rightarrow> dba \<Rightarrow> dba" where
  "dba_rpt_drain dev mem s =
     (let (ridx, s) = fttr_rd dev FTTR_RPT_RIDX s;
          (cnt, s) = fttr_rd dev FTTR_RPT_CNT s;
          (widx, s) = fttr_rd dev FTTR_RPT_WIDX s;
          pending = cnt AND 0xFFFF
      in if pending = 0 then s
         else
           (let (_, _, _, s) = drain_loop dev mem (drop_bit 16 widx) 80
                  (ridx, pending, drop_bit 16 ridx, s)
            in if dba_rpt_dump s \<noteq> 0 then s\<lparr>dba_rpt_dump := 0\<rparr> else s))"

end
