(* ===== verification/Dba_Grant.thy ===== *)
theory Dba_Grant
  imports Dba_Report
begin

text \<open>
  The grants of \<open>npu_dba.c\<close>: the budget of a map (\<open>dba_budget_calc\<close>), the step of one alloc id
  from its last two reports (\<open>dba_alloc_adapt\<close>, a small state machine), the insertion step that
  keeps a list of indices ordered by grant (\<open>dba_sort_bw\<close>), and the fit of the demand into the
  budget (\<open>dba_bw_request\<close>).
\<close>

section \<open>Budget\<close>

definition valid :: "dba_alloc \<Rightarrow> bool" where
  "valid a \<longleftrightarrow> c_flags (a_cfg a) AND 1 \<noteq> 0"

definition onu_slots :: "dba_map \<Rightarrow> nat \<Rightarrow> nat list" where
  "onu_slots m onu = map (\<lambda>t. tc_slot m t onu) [0..<unat (m_tc m)]"

text \<open>What a valid alloc id adds to the fixed and assured sum, and to the count of sharers.\<close>

definition budget_sum :: "tcont_cfg \<Rightarrow> s32" where
  "budget_sum c =
     (if c_type c = 1 then c_fix c
      else if c_type c = 2 \<or> c_type c = 3 \<or> c_type c = 5 then c_assure c else 0)"

definition budget_shares :: "tcont_cfg \<Rightarrow> bool" where
  "budget_shares c \<longleftrightarrow> c_type c = 3 \<or> c_type c = 5 \<or> c_type c = 4"

fun budget_onus ::
  "dba_map \<Rightarrow> dba_alloc list \<Rightarrow> nat list \<Rightarrow> u8 \<times> u8 \<times> s32 \<times> u16 \<Rightarrow> u8 \<times> u8 \<times> s32 \<times> u16" where
  "budget_onus m ctx [] q = q"
| "budget_onus m ctx (onu # onus) (n_full, n_act, sm, n) =
     (let n_full = (if c_flags (a_cfg (ctx ! onu)) AND 3 = 3 then n_full + 1 else n_full);
          cs = map a_cfg (filter valid (map ((!) ctx) (onu_slots m onu)));
          n_act = (if cs \<noteq> [] then n_act + 1 else n_act)
      in budget_onus m ctx onus
           (n_full, n_act, sm + sum_list (map budget_sum cs),
            n + of_nat (length (filter budget_shares cs))))"

definition dba_budget_calc :: "dba \<Rightarrow> dba_budget \<Rightarrow> dba_budget \<times> dba" where
  "dba_budget_calc s b =
     (let m = dba_map_of (c32 (tc_mode s));
          (n_full, n_act, sm, n) = budget_onus m (dba_ctx s) [0..<unat (m_onu m)] (0, 0, 0, b_cnt b);
          ovh = (if tc_olt_mode s \<noteq> 0 then c16 (dba_burst_ovh s) else if n_full \<noteq> 0 then 64 else 46);
          s = (if tc_olt_mode s \<noteq> 0 then s else s\<lparr>dba_burst_ovh := c32 ovh\<rparr>);
          total = (if dba_new_act s \<noteq> 0 then c16 (0x97E0 - c32 ovh * c32 (dba_act_onus s))
            else c16 (0x4B8C - c32 n_full * 36 - c32 (c16 (c32 ovh * c32 n_act))));
          remain = c32 total - sm;
          b = b\<lparr>b_total := total, b_cnt := n, b_remain := remain\<rparr>
      in (b\<lparr>b_share := (if 0 <s remain \<and> n \<noteq> 0 then c16 (sdivc remain (c32 n)) else 0)\<rparr>, s))"

section \<open>The insertion step\<close>

text \<open>
  \<open>sink stop lst st k ls\<close>: the loop from slot \<open>st + k - 1\<close> down to \<open>st\<close> that moves
  \<open>lst\<close> below every element until it meets one \<open>stop\<close> holds of.
\<close>

fun sink :: "(nat \<Rightarrow> bool) \<Rightarrow> nat \<Rightarrow> nat \<Rightarrow> nat \<Rightarrow> nat list \<Rightarrow> nat list" where
  "sink stop lst st 0 ls = ls"
| "sink stop lst st (Suc k) ls =
     (let i = st + k
      in if stop (ls ! i) then ls else sink stop lst st k (ls[i + 1 := ls ! i, i := lst]))"

text \<open>The key is the low half of the grant, compared with the other grants as signed words.\<close>

definition dba_sort_bw :: "dba_alloc list \<Rightarrow> nat list \<Rightarrow> nat \<Rightarrow> nat \<Rightarrow> nat list" where
  "dba_sort_bw ctx ls n st =
     (if n \<le> 1 then ls
      else
        (let lst = ls ! (st + n - 1); key = c32 (c16 (a_bw (ctx ! lst)))
         in sink (\<lambda>i. a_bw (ctx ! i) <=s key) lst st (n - 1) ls))"

section \<open>Adaptation\<close>

definition DBA_ST_MASK :: u8 where "DBA_ST_MASK = 0x07"
definition DBA_ST_DEC :: u8 where "DBA_ST_DEC = 0x40"
definition DBA_GRP_MASK :: u8 where "DBA_GRP_MASK = 0x38"
definition DBA_GRP_SHARE :: u8 where "DBA_GRP_SHARE = 0x08"
definition DBA_GRP_ASSURE :: u8 where "DBA_GRP_ASSURE = 0x10"

definition st_of :: "dba_alloc \<Rightarrow> u8" where "st_of a = a_state a AND DBA_ST_MASK"

definition dba_set_state :: "u8 \<Rightarrow> dba_alloc \<Rightarrow> dba_alloc" where
  "dba_set_state st a = a\<lparr>a_state := (a_state a AND NOT DBA_ST_MASK) OR st\<rparr>"

definition mark_dec :: "dba_alloc \<Rightarrow> dba_alloc" where
  "mark_dec a = a\<lparr>a_state := a_state a OR DBA_ST_DEC\<rparr>"

definition is_dec :: "dba_alloc \<Rightarrow> bool" where
  "is_dec a \<longleftrightarrow> a_state a AND DBA_ST_DEC \<noteq> 0"

definition add_bw :: "u32 \<Rightarrow> dba_alloc \<Rightarrow> dba_alloc" where
  "add_bw d a = a\<lparr>a_bw := a_bw a + d\<rparr>"

definition sub_bw :: "u32 \<Rightarrow> dba_alloc \<Rightarrow> dba_alloc" where
  "sub_bw d a = a\<lparr>a_bw := a_bw a - d\<rparr>"

text \<open>\<open>d >> 1\<close> in OLT mode; \<open>lim\<close> of the cases 1, 3 and 4.\<close>

definition olt_half :: "bool \<Rightarrow> u32 \<Rightarrow> u32" where
  "olt_half olt d = (if olt then drop_bit 1 d else d)"

definition bw_lim :: "s32 \<Rightarrow> u32" where
  "bw_lim bw = (if bw * 2 <s 2000 then 2000 else bw * 2)"

text \<open>What the two reports say: unused grants, the demand, and the idle average they leave.\<close>

record rpt_view =
  gap_r :: u16
  gap_w :: u16
  need :: u32
  acc :: u32

definition gap_one :: "dba_rpt \<Rightarrow> u16" where
  "gap_one r = (if r_dbru r = 0 \<and> r_non_idle r < r_bwmap_byte r then r_bwmap_byte r - r_non_idle r else 0)"

definition view_single :: "dba_alloc \<Rightarrow> rpt_view" where
  "view_single a =
     (let cur = a_ring a ! rpt_wr a; prev = a_ring a ! rpt_rd a;
          gr = gap_one prev; gw = gap_one cur;
          idle = a_idle_avg a +
            (if 7 < r_non_idle prev \<or> st_of a \<noteq> 3 then c32 gr else c32 (drop_bit 3 gr))
      in \<lparr>gap_r = gr, gap_w = gw, need = c32 (r_dbru cur) * 48,
          acc = idle + (if 7 < r_non_idle cur \<or> st_of a \<noteq> 3 then c32 gw else c32 (drop_bit 3 gw))\<rparr>)"

definition view_dual :: "dba_alloc \<Rightarrow> rpt_view" where
  "view_dual a =
     (let cur = a_ring a ! rpt_wr a; prev = a_ring a ! rpt_rd a;
          ni = c32 (r_non_idle cur) + c32 (r_non_idle prev);
          bwb = c32 (r_bwmap_byte cur) + c32 (r_bwmap_byte prev);
          gr = (if r_dbru prev = 0 \<and> ni < bwb then c16 (bwb - ni) else 0);
          gw = (if r_dbru cur = 0 \<and> ni < bwb then c16 (bwb - ni) else 0)
      in \<lparr>gap_r = gr, gap_w = gw, need = c32 (r_dbru cur) * 48,
          acc = (if 7 < ni \<or> st_of a \<noteq> 3 then a_idle_avg a + c32 gr + c32 gw
            else a_idle_avg a + c32 (drop_bit 3 gr) + c32 (drop_bit 3 gw))\<rparr>)"

text \<open>State 1: growing.\<close>

definition adapt_1 :: "bool \<Rightarrow> rpt_view \<Rightarrow> u16 \<Rightarrow> u16 \<Rightarrow> dba_alloc \<Rightarrow> dba_alloc" where
  "adapt_1 olt w cur prev a =
     (let bw = a_bw a; avg = a_idle_avg a; mx = max prev cur
      in if gap_w w OR gap_r w \<noteq> 0 then
           mark_dec (sub_bw (if olt then drop_bit 4 (push_bit 1 avg) else drop_bit 3 (push_bit 1 avg))
             (dba_set_state 2 (a\<lparr>a_step := 2\<rparr>)))
         else if a_ref a < mx then
           (let d = c32 (mx - a_ref a) * 48
            in add_bw (if olt then drop_bit 2 d else drop_bit 1 d) (a\<lparr>a_ref := mx, a_step := 0\<rparr>))
         else if bw * 10 \<le> need w + bw_lim bw then
           add_bw (olt_half olt (if bw <s 1000 then 1000 else bw)) (a\<lparr>a_step := 0\<rparr>)
         else
           (let d = c32 (prev - cur);
                d = (if c32 cur < d then d - c32 cur else d);
                a = (if cur < prev
                  then sub_bw (olt_half olt (drop_bit 3 (d * 48))) (a\<lparr>a_step := 2\<rparr>) else a)
            in (dba_set_state 2 a)\<lparr>a_ref := mx\<rparr>))"

text \<open>State 2: shrinking towards the demand. \<open>step_cnt\<close> divides.\<close>

definition adapt_2 :: "bool \<Rightarrow> rpt_view \<Rightarrow> u16 \<Rightarrow> u16 \<Rightarrow> dba_alloc \<Rightarrow> dba_fault + dba_alloc" where
  "adapt_2 olt w cur prev a =
     (let a = a\<lparr>a_step := a_step a + 2\<rparr>;
          avg = a_idle_avg a;
          mid = c16 (drop_bit 1 (c32 cur + c32 prev));
          a = (if 1 < acc w then mark_dec a else a)
      in if a_ref a < mid \<or> 15 < a_step a then
           Inr ((dba_set_state 3 a)\<lparr>a_ref := cur, a_idle_avg := 0, a_step := 0, a_grow := 0, a_hold := 0\<rparr>)
         else if is_dec a then
           (if a_step a = 0 then Inl Step_zero
            else Inr (sub_bw (olt_half olt (push_bit 1 avg div c32 (a_step a))) a))
         else if prev \<le> cur then
           (let d = c32 (a_ref a - mid) * 48;
                d = (if 127 < d then drop_bit 3 d else 16)
            in Inr (sub_bw (olt_half olt d) (a\<lparr>a_ref := mid\<rparr>)))
         else
           (let d = c32 (prev - cur);
                d = (if c32 cur < d then d - c32 cur else d)
            in Inr (sub_bw (olt_half olt (drop_bit 3 (d * 48))) (a\<lparr>a_ref := mid\<rparr>))))"

text \<open>State 3: holding.\<close>

definition adapt_3_trim :: "bool \<Rightarrow> dba_alloc \<Rightarrow> dba_alloc" where
  "adapt_3_trim olt a =
     (let avg = a_idle_avg a; d = olt_half olt (if 16 < avg then 16 else avg)
      in mark_dec ((sub_bw d a)\<lparr>a_idle_avg := 0\<rparr>))"

definition adapt_3 :: "bool \<Rightarrow> rpt_view \<Rightarrow> u16 \<Rightarrow> u16 \<Rightarrow> dba_alloc \<Rightarrow> dba_alloc" where
  "adapt_3 olt w cur prev a =
     (let mx = max cur prev; bw = a_bw a;
          a = (if bw * 10 <s c32 mx * 48 then (dba_set_state 4 (a\<lparr>a_grow := 2\<rparr>))\<lparr>a_ref := 0\<rparr>
               else a\<lparr>a_grow := 0\<rparr>);
          a = (if st_of a = 3 \<and> 16 < gap_w w \<and> 16 < gap_r w
               then (dba_set_state 5 a)\<lparr>a_step := 2\<rparr> else a)
      in if a_hold a <s 0 then a
         else
           (let a = a\<lparr>a_hold := a_hold a + 2\<rparr>
            in if is_dec a then (if acc w \<le> 1 then a else adapt_3_trim olt a)
               else if mx \<noteq> 0 \<and> bw * 10 <s c32 mx * 48 + bw_lim bw then a
               else if acc w \<le> 1 then
                 (if mx < a_ref a then sub_bw (if olt then 8 else 16) a else a)
               else adapt_3_trim olt a))"

text \<open>State 4: demand above the grant; grow after a while.\<close>

definition bw_tenth :: "s32 \<Rightarrow> u32" where
  "bw_tenth bw = sdivc bw 10 + 16"

definition adapt_4_grow :: "bool \<Rightarrow> u32 \<Rightarrow> u16 \<Rightarrow> dba_alloc \<Rightarrow> dba_alloc" where
  "adapt_4_grow olt d cur a =
     (let a = add_bw (olt_half olt d) (a\<lparr>a_idle_avg := 0\<rparr>)
      in a\<lparr>a_step := 0, a_state := a_state a AND NOT DBA_ST_DEC, a_grow := 0, a_hold := 0, a_ref := cur\<rparr>)"

definition adapt_4 :: "bool \<Rightarrow> u16 \<Rightarrow> dba_alloc \<Rightarrow> dba_alloc" where
  "adapt_4 olt cur a =
     (let bw = a_bw a; avg = a_idle_avg a
      in if c32 cur * 48 <=s bw * 10 then
           (if cur \<le> 0x3FFE then dba_set_state 3 (a\<lparr>a_grow := 0\<rparr>) else adapt_4_grow olt 0 cur a)
         else
           (let a = a\<lparr>a_grow := a_grow a + 2\<rparr>
            in if a_grow a \<le> 7 then a
               else
                 (let d = (if a_ref a \<noteq> 0 then
                             (if a_ref a < cur then c32 (cur - a_ref a) * 48 else bw_tenth bw)
                           else c32 cur * 48 - bw * 10);
                      up = bw_lim bw + bw * 2 < d;
                      a = (if up then dba_set_state 1 a else a);
                      d = (if \<not> up \<and> bw_tenth bw < drop_bit 3 d then bw_tenth bw else drop_bit 3 d)
                  in adapt_4_grow olt (if avg < d then d - avg else 0) cur a)))"

text \<open>State 5: grants unused; shrink after a while.\<close>

definition adapt_5 :: "bool \<Rightarrow> rpt_view \<Rightarrow> u16 \<Rightarrow> u16 \<Rightarrow> dba_alloc \<Rightarrow> dba_alloc" where
  "adapt_5 olt w cur prev a =
     (if gap_w w \<le> 16 \<or> gap_r w \<le> 16 then dba_set_state 3 (a\<lparr>a_step := 0\<rparr>)
      else
        (let a = a\<lparr>a_step := a_step a + 2\<rparr>
         in if a_step a \<le> 7 then a
            else
              (let d = bw_tenth (a_bw a); q = drop_bit 4 (acc w);
                   far = d * 2 < q;
                   a = (if far then (dba_set_state 2 a)\<lparr>a_step := 0\<rparr> else a);
                   d = (if \<not> far \<and> q < d then q else d);
                   a = sub_bw (olt_half olt d) a
               in mark_dec (a\<lparr>a_ref := min cur prev, a_idle_avg := 0, a_grow := 0, a_hold := 0\<rparr>))))"

text \<open>Any other state: start from the demand.\<close>

definition adapt_0 :: "bool \<Rightarrow> rpt_view \<Rightarrow> u16 \<Rightarrow> dba_alloc \<Rightarrow> dba_alloc" where
  "adapt_0 olt w cur a =
     (dba_set_state 1 a)\<lparr>a_bw := (if olt then drop_bit 2 (need w) else drop_bit 1 (need w)), a_ref := cur\<rparr>"

definition adapt_state :: "bool \<Rightarrow> rpt_view \<Rightarrow> u16 \<Rightarrow> u16 \<Rightarrow> dba_alloc \<Rightarrow> dba_fault + dba_alloc" where
  "adapt_state olt w cur prev a =
     (if st_of a = 1 then Inr (adapt_1 olt w cur prev a)
      else if st_of a = 2 then adapt_2 olt w cur prev a
      else if st_of a = 3 then Inr (adapt_3 olt w cur prev a)
      else if st_of a = 4 then Inr (adapt_4 olt cur a)
      else if st_of a = 5 then Inr (adapt_5 olt w cur prev a)
      else Inr (adapt_0 olt w cur a))"

text \<open>The T-CONT contract, and the floor of the first T-CONT of an ONU.\<close>

definition contract_bw :: "bool \<Rightarrow> tcont_cfg \<Rightarrow> s32 \<Rightarrow> s32" where
  "contract_bw dual c bw =
     (let t = c_type c
      in if t - 3 \<le> 2 then
           (let bw = (if dual then (if c_max c * 2 \<le> bw then c_max c * 2 else bw)
                      else if c_max c < bw then c_max c else bw)
            in if t = 5 \<and> bw < c_fix c then c_fix c else bw)
         else if t = 2 then (if c_assure c \<le> bw then c_assure c else bw)
         else bw)"

definition clamp_type :: "bool \<Rightarrow> dba_alloc \<Rightarrow> dba_alloc" where
  "clamp_type dual a =
     (let a = (if a_bw a <=s 8 then a\<lparr>a_state := a_state a AND NOT DBA_ST_MASK\<rparr> else a)
      in a\<lparr>a_bw := contract_bw dual (a_cfg a) (if a_bw a <s 2 then 2 else a_bw a)\<rparr>)"

definition clamp_floor :: "bool \<Rightarrow> dba_alloc \<Rightarrow> dba_alloc" where
  "clamp_floor dual a =
     (let c = a_cfg a; md = drop_bit 2 (c_flags c) AND 3; bw = a_bw a
      in if md \<noteq> 3 \<and> c_alloc_id c AND NOT 31 \<noteq> 0 then a
         else if md = 3 \<and> c_alloc_id c AND NOT 63 \<noteq> 0 then a
         else if dual then
           (if bw <=s 14 then a\<lparr>a_bw := 15\<rparr> else if 192 <s bw then a\<lparr>a_bw := 192\<rparr> else a)
         else if bw <s 27 then a\<lparr>a_bw := 27\<rparr> else a)"

definition dba_alloc_adapt :: "bool \<Rightarrow> bool \<Rightarrow> dba_alloc \<Rightarrow> dba_fault + dba_alloc" where
  "dba_alloc_adapt dual olt a =
     (let wr = rpt_wr a; rd = rpt_rd a
      in if \<not> dual \<and> rd = wr then Inr (if a_bw a = 0 then a\<lparr>a_bw := 2\<rparr> else a)
         else
           (let w = (if dual then view_dual a else view_single a);
                cur = r_dbru (a_ring a ! wr); prev = r_dbru (a_ring a ! rd)
            in case adapt_state olt w cur prev (a\<lparr>a_idle_avg := drop_bit 1 (acc w)\<rparr>) of
                 Inl f \<Rightarrow> Inl f
               | Inr a \<Rightarrow>
                   (let a = clamp_type dual a;
                        a = a\<lparr>a_ring_idx := (a_ring_idx a AND 0xF0) OR of_nat wr\<rparr>
                    in Inr (clamp_floor dual a))))"

section \<open>The requests\<close>

text \<open>
  The pass over the alloc ids: the table, the budget, the indices above their share in order of
  grant, and how many of them are above their assured part.
\<close>

record request =
  q_ctx :: "dba_alloc list"
  q_b :: dba_budget
  q_list :: "nat list"
  q_over :: int
  q_left :: u8

definition set_grp :: "u8 \<Rightarrow> dba_alloc \<Rightarrow> dba_alloc" where
  "set_grp g a = a\<lparr>a_state := (a_state a AND NOT DBA_GRP_MASK) OR g\<rparr>"

definition grp_of :: "dba_alloc \<Rightarrow> u8" where "grp_of a = a_state a AND DBA_GRP_MASK"

text \<open>An alloc id above its share goes into the list.\<close>

definition request_share :: "nat \<Rightarrow> dba_alloc \<Rightarrow> request \<Rightarrow> request" where
  "request_share i a q =
     (let ctx = (q_ctx q)[i := set_grp DBA_GRP_SHARE a];
          ls = q_list q @ [i]
      in q\<lparr>q_ctx := ctx, q_list := dba_sort_bw ctx ls (length ls) 0,
           q_b := (q_b q)\<lparr>b_over_share := b_over_share (q_b q) + a_bw a\<rparr>\<rparr>)"

definition request_assure :: "nat \<Rightarrow> request \<Rightarrow> request" where
  "request_assure i q =
     (let a = q_ctx q ! i; b = q_b q
      in q\<lparr>q_ctx := (q_ctx q)[i := set_grp DBA_GRP_ASSURE a], q_over := q_over q + 1,
           q_b := b\<lparr>b_over_assure := b_over_assure b + (a_bw a - c_assure (a_cfg a))\<rparr>\<rparr>)"

definition request_grant :: "bool \<Rightarrow> nat \<Rightarrow> dba_alloc \<Rightarrow> request \<Rightarrow> request" where
  "request_grant dual i a q =
     (let t = c_type (a_cfg a); share = c32 (b_share (q_b q)); put = (\<lambda>a. q\<lparr>q_ctx := (q_ctx q)[i := a]\<rparr>)
      in if t = 1 then put (a\<lparr>a_bw := (if dual then push_bit 1 (c_fix (a_cfg a)) else c_fix (a_cfg a))\<rparr>)
         else if t = 2 then put a
         else if t = 3 \<or> t = 5 then
           (if a_bw a \<le> c_assure (a_cfg a) \<or> a_bw a <=s share then put a
            else
              (let q = request_share i a q
               in if c_assure (a_cfg a) \<le> share then q else request_assure i q))
         else if t = 4 then
           (if a_bw a <=s share then put (set_grp 0 a) else request_share i a q)
         else put (a\<lparr>a_bw := 2\<rparr>))"

definition add_demand :: "nat \<Rightarrow> request \<Rightarrow> request" where
  "add_demand i q = q\<lparr>q_b := (q_b q)\<lparr>b_demand := b_demand (q_b q) + a_bw (q_ctx q ! i)\<rparr>\<rparr>"

definition request_one :: "bool \<Rightarrow> bool \<Rightarrow> nat \<Rightarrow> request \<Rightarrow> dba_fault + request" where
  "request_one dual olt i q =
     (let a = q_ctx q ! i
      in if \<not> valid a then Inr q
         else
           (case (if c_type (a_cfg a) \<noteq> 1 then dba_alloc_adapt dual olt a else Inr a) of
              Inl f \<Rightarrow> Inl f
            | Inr a \<Rightarrow> Inr (add_demand i (request_grant dual i a (q\<lparr>q_left := q_left q + 1\<rparr>)))))"

fun request_all :: "bool \<Rightarrow> bool \<Rightarrow> nat list \<Rightarrow> request \<Rightarrow> dba_fault + request" where
  "request_all dual olt [] q = Inr q"
| "request_all dual olt (i # is) q =
     (case request_one dual olt i q of Inl f \<Rightarrow> Inl f | Inr q \<Rightarrow> request_all dual olt is q)"

section \<open>The fit\<close>

definition even_share :: "int \<Rightarrow> s32 \<Rightarrow> s32" where
  "even_share n rem = c32 (c16 (if 0 < n then sdivc rem (of_int n) else rem))"

definition no_debt :: "s32 \<Rightarrow> s32" where "no_debt rem = (if rem <s 0 then 0 else rem)"

text \<open>At the first overflow, an assured alloc id whose assured part is below the share shares.\<close>

fun drop_back :: "s32 \<Rightarrow> nat list \<Rightarrow> dba_alloc list \<times> int \<times> u32 \<Rightarrow> dba_alloc list \<times> int \<times> u32" where
  "drop_back share [] z = z"
| "drop_back share (j # js) (ctx, n_over, oa) =
     (let a = ctx ! j
      in if grp_of a \<noteq> DBA_GRP_ASSURE \<or> share \<le> c_assure (a_cfg a) then drop_back share js (ctx, n_over, oa)
         else drop_back share js
           (ctx[j := set_grp DBA_GRP_SHARE a], n_over - 1, oa - c32 (c16 (a_bw a - c_assure (a_cfg a)))))"

fun fit_capped :: "nat list \<Rightarrow> int \<Rightarrow> s32 \<Rightarrow> dba_alloc list \<Rightarrow> s32 \<times> dba_alloc list" where
  "fit_capped [] n rem ctx = (rem, ctx)"
| "fit_capped (k # ks) n rem ctx =
     (let rem = no_debt rem; share = even_share n rem; a = ctx ! k;
          assured = (grp_of a = DBA_GRP_ASSURE);
          bw = (if assured then c_assure (a_cfg a) else share)
      in fit_capped ks (if assured then n else n - 1) (rem - bw) (ctx[k := a\<lparr>a_bw := bw\<rparr>]))"

fun fit ::
  "nat list \<Rightarrow> int \<Rightarrow> int \<Rightarrow> u32 \<Rightarrow> s32 \<Rightarrow> dba_alloc list \<Rightarrow> s32 \<times> u32 \<times> dba_alloc list" where
  "fit [] n n_over oa rem ctx = (rem, oa, ctx)"
| "fit (k # ks) n n_over oa rem ctx =
     (let rem = no_debt rem; share = even_share n rem; a = ctx ! k
      in if share <s a_bw a then
           (let (ctx, n_over, oa) = drop_back share (k # ks) (ctx, n_over, oa);
                (rem, ctx) = fit_capped (k # ks) (n - max 0 n_over) (rem + oa) ctx
            in (rem, oa, ctx))
         else if grp_of a = DBA_GRP_ASSURE then
           fit ks (n - 1) (n_over - 1) (oa - c32 (c16 (a_bw a - c_assure (a_cfg a)))) (rem - a_bw a) ctx
         else fit ks (n - 1) n_over oa (rem - a_bw a) ctx)"

definition fit_request :: "request \<Rightarrow> dba_alloc list \<times> dba_budget" where
  "fit_request q =
     (let b = q_b q; ls = q_list q
      in if b_demand b \<le> c32 (b_total b) then (q_ctx q, b)
         else
           (let rem = c32 (b_total b) - b_demand b + b_over_share b; b = b\<lparr>b_left := rem\<rparr>
            in if rem <=s 0 then (fold (\<lambda>k ctx. ctx[k := (ctx ! k)\<lparr>a_bw := 0\<rparr>]) ls (q_ctx q), b)
               else if ls = [] then (q_ctx q, b)
               else
                 (let (rem, oa, ctx) = fit ls (int (length ls)) (q_over q) (b_over_assure b) rem (q_ctx q)
                  in (ctx, b\<lparr>b_left := rem, b_over_assure := oa\<rparr>))))"

definition dba_bw_request :: "dba_budget \<Rightarrow> dba \<Rightarrow> dba_fault + (dba_budget \<times> dba)" where
  "dba_bw_request b s =
     (case request_all (dba_new_act s \<noteq> 0) (tc_olt_mode s \<noteq> 0) [0..<DBA_ALLOC_NUM]
            \<lparr>q_ctx = dba_ctx s, q_b = b, q_list = [], q_over = 0, q_left = 0\<rparr> of
        Inl f \<Rightarrow> Inl f
      | Inr q \<Rightarrow>
          (let (ctx, b) = fit_request q
           in Inr (b, s\<lparr>dba_ctx := ctx, dba_bwmap_left := q_left q\<rparr>)))"

end
