(* ===== verification/Dba_Bwmap.thy ===== *)
theory Dba_Bwmap
  imports Dba_Grant
begin

text \<open>
  The standard bandwidth map of \<open>npu_dba.c\<close>: one entry per grant, ONU by ONU, T-CONT by T-CONT,
  then the request for the other map bank. With FEC the grants of an ONU are ordered and kept off
  the parity of the RS(255,239) code words.
\<close>

definition DBA_FRAME_LEN :: u32 where "DBA_FRAME_LEN = 0x4BC2"
definition DBA_STOP_MAX :: u16 where "DBA_STOP_MAX = 0x4BC1"

definition BWMAP_DBRU_MASK :: u32 where "BWMAP_DBRU_MASK = 0x6"
definition BWMAP_DBRU :: u32 where "BWMAP_DBRU = 0x2"
definition BWMAP_FEC :: u32 where "BWMAP_FEC = 0x8"
definition BWMAP_PLOAMU :: u32 where "BWMAP_PLOAMU = 0x10"
definition BWMAP_AID_MASK :: u32 where "BWMAP_AID_MASK = 0x0003FFC0"
definition BWMAP_OLT :: u32 where "BWMAP_OLT = 0x02000000"
definition BWMAP_END_MASK :: u32 where "BWMAP_END_MASK = 0x18000000"
definition BWMAP_END_WRAP :: u32 where "BWMAP_END_WRAP = 0x08000000"
definition BWMAP_END_LAST :: u32 where "BWMAP_END_LAST = 0x18000000"

lemmas bwmap_bits = BWMAP_DBRU_MASK_def BWMAP_DBRU_def BWMAP_FEC_def BWMAP_PLOAMU_def
  BWMAP_AID_MASK_def BWMAP_OLT_def BWMAP_END_MASK_def BWMAP_END_WRAP_def BWMAP_END_LAST_def

definition BWMAP_AID :: "u32 \<Rightarrow> u32" where "BWMAP_AID x = push_bit 6 (x AND 0xFFF)"

definition BWMAP_W0 :: "u16 \<Rightarrow> u16 \<Rightarrow> u32" where
  "BWMAP_W0 start stop = push_bit 16 (c32 start) OR c32 stop"

section \<open>One entry\<close>

definition log_off :: "dba \<Rightarrow> dba" where
  "log_off s = (if dba_log_en s \<noteq> 0 then s\<lparr>dba_log_en := 0\<rparr> else s)"

text \<open>The control word of a grant, with the bits the map keeps from entry to entry.\<close>

definition entry_ctrl :: "u32 \<Rightarrow> tcont_cfg \<Rightarrow> bool \<Rightarrow> bool \<Rightarrow> bool \<Rightarrow> u32" where
  "entry_ctrl ctrl c is_first fec olt =
     (let ctrl = (ctrl AND NOT BWMAP_DBRU_MASK) OR push_bit 1 (bit_of (c_type c \<noteq> 1));
          ctrl = (ctrl AND NOT BWMAP_PLOAMU) OR push_bit 4 (bit_of is_first);
          ctrl = (ctrl AND NOT BWMAP_FEC) OR push_bit 3 (bit_of fec);
          ctrl = (ctrl AND NOT BWMAP_AID_MASK) OR BWMAP_AID (c32 (c_alloc_id c))
      in if olt then ctrl OR BWMAP_OLT else ctrl)"

definition dba_config_bwmap_handler :: "device \<Rightarrow> nat \<Rightarrow> bool \<Rightarrow> nat \<Rightarrow> nat \<Rightarrow> dba \<Rightarrow> dba" where
  "dba_config_bwmap_handler dev idx fec slot onu s =
     (let a = dba_ctx s ! idx;
          start = dba_bwmap_pos s;
          start = (if slot mod 4 = 0 \<and> start \<noteq> 0 then start + c16 (dba_burst_ovh s) else start);
          fin = c16 (a_bw a + c32 start);
          stop = fin - 1;
          s = s\<lparr>bw_start := start, bw_stop := stop, dba_bwmap_pos := fin\<rparr>
      in if DBA_STOP_MAX < stop then log_off s
         else if stop \<le> start then log_off s
         else
           (let ctrl = entry_ctrl (bw_ctrl s) (a_cfg a) (idx = onu) fec (tc_olt_mode s = 1);
                left = dba_bwmap_left s - 1;
                ctrl = ctrl AND NOT BWMAP_END_LAST;
                ctrl = (if left = 0 then ctrl OR BWMAP_END_LAST else ctrl)
            in dba_bwmap_write dev (BWMAP_W0 start stop) ctrl
                 (s\<lparr>bw_ctrl := ctrl, dba_bwmap_left := left\<rparr>)))"

section \<open>FEC alignment\<close>

text \<open>
  One grant: its new length in the alignment's unit (half units in OLT mode), the new grant, and
  what the next grant of the ONU pays. \<open>None\<close>: the grant is not stored again.
\<close>

definition align_olt :: "u16 \<Rightarrow> bool \<Rightarrow> s32 \<Rightarrow> u16 \<Rightarrow> u32 \<times> s32 \<times> u16" where
  "align_olt tot is_last bw delta =
     (let len = bw * 2;
          rem = (c32 tot + len + 2) mod 255
      in if 238 < rem then
           (if \<not> is_last then
              (let len = len - rem + 255
               in if odd (unat len) then (len + 1, drop_bit 1 (len + 1), delta + c16 (drop_bit 1 (256 - rem)))
                  else (len, drop_bit 1 len, delta + c16 (drop_bit 1 (255 - rem))))
            else (len, bw, delta))
         else if \<not> is_last then
           (if 236 < (c32 tot + len + 3) mod 255
            then (len + 20, drop_bit 1 (len + 20), delta + 10) else (len, bw, delta))
         else if rem < 18 then
           (let len = len - rem; len = len + (len AND 1) - 2 in (len, drop_bit 1 len, delta))
         else (len, bw, delta))"

definition align_plain :: "u16 \<Rightarrow> bool \<Rightarrow> s32 \<Rightarrow> u16 \<Rightarrow> u32 \<times> s32 \<times> u16" where
  "align_plain tot is_last bw delta =
     (let rem = smodc (c32 tot + bw + 2) 255
      in if 238 <s rem then
           (if \<not> is_last then (bw + (255 - rem), bw + (255 - rem), delta + c16 (255 - rem))
            else (bw, bw, delta))
         else if \<not> is_last then
           (if 236 <s smodc (c32 tot + bw + 3) 255 then (bw + 19, bw + 19, delta + 19)
            else (bw, bw, delta))
         else if c16 rem < 18 then (bw - (rem + 1), bw - (rem + 1), delta)
         else (bw, bw, delta))"

definition upd_alloc :: "nat \<Rightarrow> (dba_alloc \<Rightarrow> dba_alloc) \<Rightarrow> dba_alloc list \<Rightarrow> dba_alloc list" where
  "upd_alloc i f ctx = ctx[i := f (ctx ! i)]"

fun fec_align :: "bool \<Rightarrow> u16 \<Rightarrow> nat list \<Rightarrow> dba_alloc list \<Rightarrow> dba_alloc list" where
  "fec_align olt tot [] ctx = ctx"
| "fec_align olt tot (k # ks) ctx =
     (let bw = a_bw (ctx ! k); is_last = (ks = []);
          (delta, bw) = (if bw <=s 1 then (c16 (2 - bw), 2) else (0, bw));
          bw = (if is_last \<and> bw <s 18 then 18 else bw);
          (len, bw, delta) = (if olt then align_olt tot is_last bw delta
            else align_plain tot is_last bw delta);
          ctx = upd_alloc k (\<lambda>a. a\<lparr>a_bw := bw\<rparr>) ctx;
          ctx = (if \<not> is_last \<and> delta \<noteq> 0
            then upd_alloc (hd ks) (\<lambda>a. a\<lparr>a_bw := a_bw a - c32 delta\<rparr>) ctx else ctx)
      in fec_align olt (tot + c16 len) ks ctx)"

section \<open>The map\<close>

definition emit_grant :: "device \<Rightarrow> bool \<Rightarrow> nat \<Rightarrow> nat \<Rightarrow> nat \<Rightarrow> dba \<Rightarrow> dba" where
  "emit_grant dev fec onu slot idx s =
     (let a = dba_ctx s ! idx
      in if \<not> valid a then s
         else if a_bw a = 0 then log_off s
         else dba_config_bwmap_handler dev idx fec slot onu s)"

fun emit_grants :: "device \<Rightarrow> bool \<Rightarrow> nat \<Rightarrow> (nat \<times> nat) list \<Rightarrow> dba \<Rightarrow> dba" where
  "emit_grants dev fec onu [] s = s"
| "emit_grants dev fec onu ((slot, idx) # sl) s =
     emit_grants dev fec onu sl (emit_grant dev fec onu slot idx s)"

fun fec_list :: "dba_alloc list \<Rightarrow> nat list \<Rightarrow> nat list \<Rightarrow> nat list" where
  "fec_list ctx [] ls = ls"
| "fec_list ctx (idx # is) ls =
     (if \<not> valid (ctx ! idx) \<or> a_bw (ctx ! idx) = 0 then fec_list ctx is ls
      else fec_list ctx is (dba_sort_bw ctx (ls @ [idx]) (length ls) 1))"

definition onu_map :: "device \<Rightarrow> dba_map \<Rightarrow> nat \<Rightarrow> dba \<Rightarrow> dba" where
  "onu_map dev m onu s =
     (let fl = c_flags (a_cfg (dba_ctx s ! onu))
      in if fl AND 1 = 0 then s
         else
           (let s = s\<lparr>dba_onu_tx_burst := (dba_onu_tx_burst s)[onu := dba_onu_tx_burst s ! onu + 1]\<rparr>
            in if fl AND 2 = 0 then emit_grants dev False onu (enumerate 0 (onu_slots m onu)) s
               else
                 (let ls = fec_list (dba_ctx s) (onu_slots m onu) [];
                      s = s\<lparr>dba_ctx := fec_align (tc_olt_mode s \<noteq> 0) 0 ls (dba_ctx s)\<rparr>
                  in emit_grants dev True onu (enumerate 0 ls) s)))"

text \<open>The other bank is requested only once the last request landed.\<close>

definition bank_flip :: "device \<Rightarrow> u8 \<Rightarrow> dba \<Rightarrow> dba" where
  "bank_flip dev old s =
     (let (hw, sw, s) = dba_bwmap_bank_get dev s
      in if hw \<noteq> sw then s
         else
           (let s = dba_bwmap_bank_set dev (if hw \<noteq> 0 then 0 else 1) s
            in if dba_bwmap_nonempty s \<noteq> old
               then dba_bwmap_empty_set dev (if dba_bwmap_nonempty s \<noteq> 0 then 0 else 1) s else s))"

definition dba_bwmap_switch :: "device \<Rightarrow> dba \<Rightarrow> dba" where
  "dba_bwmap_switch dev s =
     (let old = dba_bwmap_nonempty s;
          s = s\<lparr>dba_bwmap_nonempty := (if dba_bwmap_left s \<noteq> 0 then 1 else 0), dba_bwmap_pos := 0\<rparr>;
          m = dba_map_of (c32 (tc_mode s));
          s = fold (onu_map dev m) [0..<unat (m_onu m)] s
      in bank_flip dev old s)"

end
