(* ===== verification/Dba_New.thy ===== *)
theory Dba_New
  imports Dba_Bwmap
begin

text \<open>
  The map of the new DBA mode of \<open>npu_dba.c\<close>: four ONUs with two T-CONTs each, in order of their
  total grant, over two frames. The position in the frame and the frame the map is in (\<open>wrap\<close>)
  are passed along; the list of ONUs has four slots, and a fifth ONU is a fault.
\<close>

definition dba_tc_idx :: "u8 \<Rightarrow> nat \<Rightarrow> nat \<Rightarrow> nat" where
  "dba_tc_idx md onu t = tc_slot (dba_map_of (c32 md)) t onu"

definition set_window :: "u16 \<Rightarrow> u16 \<Rightarrow> dba \<Rightarrow> dba" where
  "set_window start stop s = s\<lparr>bw_start := start, bw_stop := stop\<rparr>"

definition dba_bwmap_emit :: "device \<Rightarrow> u16 \<Rightarrow> u32 \<Rightarrow> dba \<Rightarrow> dba" where
  "dba_bwmap_emit dev aid fl s =
     (let v = (bw_ctrl s AND NOT BWMAP_AID_MASK) OR BWMAP_AID (c32 aid);
          v = (v AND NOT (BWMAP_DBRU_MASK OR BWMAP_PLOAMU OR BWMAP_END_MASK)) OR fl
      in dba_bwmap_write dev (BWMAP_W0 (bw_start s) (bw_stop s)) v (s\<lparr>bw_ctrl := v\<rparr>))"

section \<open>The mode\<close>

definition dba_new_mode_update :: "dba \<Rightarrow> dba" where
  "dba_new_mode_update s =
     (let n = unat (m_onu (dba_map_of (c32 (tc_mode s))));
          act = filter (\<lambda>i. valid (dba_ctx s ! i)) [0..<n];
          fec = filter (\<lambda>i. c_flags (a_cfg (dba_ctx s ! i)) AND 2 \<noteq> 0) act;
          s = s\<lparr>dba_act_onus := of_nat (length act)\<rparr>;
          s = (if act \<noteq> [] then s\<lparr>dba_last_onu := of_nat (last act)\<rparr> else s)
      in s\<lparr>dba_new_act := (if length act = 4 \<and> dba_new_en s \<noteq> 0 \<and> fec = [] \<and> tc_olt_mode s = 0
             then 1 else 0)\<rparr>)"

definition dba_sort_u32 :: "(nat \<Rightarrow> u32) \<Rightarrow> nat list \<Rightarrow> nat \<Rightarrow> nat \<Rightarrow> nat list" where
  "dba_sort_u32 val ls n st =
     (if n \<le> 1 then ls
      else
        (let lst = ls ! (st + n - 1); key = c32 (c16 (val lst))
         in sink (\<lambda>i. val i \<le> key) lst st (n - 1) ls))"

section \<open>Entries of one ONU\<close>

text \<open>The 26 unit slot of an ONU, and two units for its T-CONT 1.\<close>

definition dba_bwmap_short :: "device \<Rightarrow> nat list \<Rightarrow> nat \<Rightarrow> u32 \<times> dba \<Rightarrow> u32 \<times> dba" where
  "dba_bwmap_short dev order slot q =
     (let (pos, s) = q; onu = order ! slot;
          b = dba_ctx s ! dba_tc_idx (tc_mode s) onu 1;
          is_last = (slot + 1 = unat (dba_act_onus s));
          s = set_window (c16 pos) (c16 pos + 26) s;
          s = dba_bwmap_emit dev (c_alloc_id (a_cfg (dba_ctx s ! onu)))
                (BWMAP_DBRU OR BWMAP_PLOAMU OR (if is_last \<and> \<not> valid b then BWMAP_END_LAST else 0)) s;
          (pos, s) =
            (if valid b then
               (let pos = c32 (bw_stop s) + 1;
                    s = set_window (c16 pos) (c16 (pos + 1)) s
                in (pos, dba_bwmap_emit dev (c_alloc_id (a_cfg b))
                      (BWMAP_DBRU OR (if is_last then BWMAP_END_LAST else 0)) s))
             else (pos, s));
          pos = (if is_last then pos else c32 (bw_stop s) + 47)
      in (pos, s\<lparr>dba_cross_pos := 0\<rparr>))"

text \<open>The end flags of an entry, and whether the map crossed into the other frame.\<close>

definition dba_pair_end ::
  "u32 \<Rightarrow> u16 \<Rightarrow> bool \<Rightarrow> bool \<Rightarrow> bool \<Rightarrow> dba \<Rightarrow> u32 \<times> bool \<times> u32 \<times> u16" where
  "dba_pair_end pos wrap lst wrap_end goes_on s =
     (let nxt = (\<lambda>e. c32 (bw_stop s) + (if e \<or> goes_on then 1 else 47))
      in if wrap = 0 then
           (if lst \<and> \<not> goes_on then (BWMAP_END_WRAP, True, 0, 1) else (0, False, nxt lst, wrap))
         else if wrap = 1 then
           (if wrap_end \<and> \<not> goes_on then (BWMAP_END_LAST, True, 0, 0) else (0, False, nxt wrap_end, wrap))
         else (bw_ctrl s AND BWMAP_END_MASK, False, pos, wrap))"

definition window_bw :: "u32 \<Rightarrow> s32 \<Rightarrow> dba \<Rightarrow> dba" where
  "window_bw pos bw s = set_window (c16 pos) (c16 (c32 (c16 pos) - 1 + bw)) s"

definition dba_bwmap_pair ::
  "device \<Rightarrow> nat list \<Rightarrow> nat \<Rightarrow> bool \<Rightarrow> bool \<Rightarrow> u32 \<times> u16 \<times> dba \<Rightarrow> u32 \<times> u16 \<times> dba" where
  "dba_bwmap_pair dev order slot lst wrap_end q =
     (let (pos, wrap, s) = q; onu = order ! slot; saved = pos;
          a = dba_ctx s ! onu; b = dba_ctx s ! dba_tc_idx (tc_mode s) onu 1;
          s = window_bw pos (a_bw a) s;
          (fin, _, pos, wrap) = dba_pair_end pos wrap lst wrap_end (valid b) s;
          s = dba_bwmap_emit dev (c_alloc_id (a_cfg a)) (BWMAP_DBRU OR BWMAP_PLOAMU OR fin) s
      in if \<not> valid b then (pos, wrap, s)
         else
           (let s = window_bw pos (a_bw b) s;
                (fin, crossed, pos, wrap) = dba_pair_end pos wrap lst wrap_end False s;
                s = (if crossed then s\<lparr>dba_cross_pos := saved\<rparr> else s)
            in (pos, wrap, dba_bwmap_emit dev (c_alloc_id (a_cfg b)) (BWMAP_DBRU OR fin) s)))"

definition set_bw :: "nat \<Rightarrow> s32 \<Rightarrow> dba \<Rightarrow> dba" where
  "set_bw i bw s = s\<lparr>dba_ctx := upd_alloc i (\<lambda>a. a\<lparr>a_bw := bw\<rparr>) (dba_ctx s)\<rparr>"

text \<open>After the wrap, T-CONT 1 takes the rest of the frame.\<close>

definition dba_bwmap_fill :: "device \<Rightarrow> nat list \<Rightarrow> nat \<Rightarrow> u32 \<times> dba \<Rightarrow> u32 \<times> dba" where
  "dba_bwmap_fill dev order slot q =
     (let (pos, s) = q; onu = order ! slot; saved = pos; i = dba_tc_idx (tc_mode s) onu 1;
          a = dba_ctx s ! onu;
          s = dba_bwmap_emit dev (c_alloc_id (a_cfg a)) (BWMAP_DBRU OR BWMAP_PLOAMU) (window_bw pos (a_bw a) s);
          pos = c32 (bw_stop s) + 1;
          s = window_bw pos (DBA_FRAME_LEN - pos) s;
          s = set_bw i (DBA_FRAME_LEN - pos) s;
          s = dba_bwmap_emit dev (c_alloc_id (a_cfg (dba_ctx s ! i))) (BWMAP_DBRU OR BWMAP_END_LAST) s
      in (pos, s\<lparr>dba_cross_pos := saved\<rparr>))"

section \<open>Crossing into the next frame\<close>

text \<open>A first entry shorter than 14 units is logged; a stop outside the frame is cut.\<close>

definition log_short :: "dba \<Rightarrow> dba" where
  "log_short s = (if c32 (bw_stop s) - c32 (bw_start s) <=s 13 then log_off s else s)"

definition cut_stop :: "dba \<Rightarrow> dba" where
  "cut_stop s = (if DBA_STOP_MAX < bw_stop s then log_off (s\<lparr>bw_stop := DBA_STOP_MAX\<rparr>) else s)"

text \<open>T-CONT 0 up to the end of the frame (it does not fit, or ends there).\<close>

definition cross_end :: "device \<Rightarrow> u32 \<Rightarrow> u16 \<Rightarrow> dba \<Rightarrow> u32 \<times> dba" where
  "cross_end dev cur aid0 s =
     (let start = c16 cur; rem16 = c16 (DBA_FRAME_LEN - cur);
          s = cut_stop (log_short (set_window start (start - 1 + rem16) s))
      in (cur AND 1, dba_bwmap_emit dev aid0 (BWMAP_END_WRAP OR BWMAP_PLOAMU OR BWMAP_DBRU) s))"

text \<open>T-CONT 0 split over the frame end; its second part opens the next frame.\<close>

definition cross_split :: "device \<Rightarrow> u32 \<Rightarrow> u16 \<Rightarrow> s32 \<Rightarrow> dba \<Rightarrow> u32 \<times> dba" where
  "cross_split dev cur aid0 bw0 s =
     (let remain = DBA_FRAME_LEN - cur; rem16 = c16 remain;
          (odd, s) = cross_end dev cur aid0 s;
          stop = (if 14 < bw0 - remain then c16 odd - rem16 - 1 + c16 bw0 else c16 odd + 14);
          s = dba_bwmap_emit dev aid0 (BWMAP_PLOAMU OR BWMAP_DBRU) (set_window (c16 odd) stop s)
      in (c32 stop + 1, s\<lparr>bw_start := stop + 1\<rparr>))"

text \<open>T-CONT 0 fits, T-CONT 1 is split over the frame end; returns the start of its second part.\<close>

definition cross_fit :: "device \<Rightarrow> u32 \<Rightarrow> u16 \<Rightarrow> u16 \<Rightarrow> s32 \<Rightarrow> dba \<Rightarrow> u32 \<times> dba" where
  "cross_fit dev cur aid0 aid1 bw0 s =
     (let start = c16 cur; rem16 = c16 (DBA_FRAME_LEN - cur);
          s = log_short (set_window start (start - 1 + c16 bw0) s);
          s = dba_bwmap_emit dev aid0 (BWMAP_PLOAMU OR BWMAP_DBRU) s;
          stop = bw_stop s;
          s = cut_stop (set_window (stop + 1) (stop + rem16 - c16 bw0) s);
          s = dba_bwmap_emit dev aid1 (BWMAP_END_WRAP OR BWMAP_DBRU) s;
          odd = cur AND 1
      in (odd, s\<lparr>bw_start := c16 odd\<rparr>))"

text \<open>The rest of an ONU that is not the last, and of the last.\<close>

definition cross_next :: "device \<Rightarrow> u32 \<Rightarrow> nat \<Rightarrow> nat \<Rightarrow> dba \<Rightarrow> u32 \<times> dba" where
  "cross_next dev cur i0 i1 s =
     (let remain = DBA_FRAME_LEN - cur; rem16 = c16 remain;
          a0 = dba_ctx s ! i0; a1 = dba_ctx s ! i1; bw0 = a_bw a0; bw1 = a_bw a1;
          aid0 = c_alloc_id (a_cfg a0); aid1 = c_alloc_id (a_cfg a1);
          s = (if remain < bw0 then
                 (let (_, s) = cross_split dev cur aid0 bw0 s
                  in s\<lparr>bw_stop := bw_start s - 1 + c16 bw1\<rparr>)
               else if remain - bw0 \<le> 7 then
                 (let (odd, s) = cross_end dev cur aid0 s
                  in set_window (c16 odd) (c16 bw1 + (c16 odd - 1)) s)
               else
                 (let (odd, s) = cross_fit dev cur aid0 aid1 bw0 s
                  in s\<lparr>bw_stop := (if 26 < cur - DBA_FRAME_LEN + bw0 + bw1
                        then c16 odd - rem16 - 1 + c16 bw0 + c16 bw1 else c16 odd + 26)\<rparr>));
          s = dba_bwmap_emit dev aid1 BWMAP_DBRU s
      in (c32 (bw_stop s) + 47, s))"

definition cross_last :: "device \<Rightarrow> u32 \<Rightarrow> nat \<Rightarrow> nat \<Rightarrow> dba \<Rightarrow> u32 \<times> dba" where
  "cross_last dev cur i0 i1 s =
     (let remain = DBA_FRAME_LEN - cur; rem16 = c16 remain;
          a0 = dba_ctx s ! i0; a1 = dba_ctx s ! i1; bw0 = a_bw a0; bw1 = a_bw a1;
          aid0 = c_alloc_id (a_cfg a0); aid1 = c_alloc_id (a_cfg a1);
          (pos, s) =
            (if remain < bw0 then
               (let (pos, s) = cross_split dev cur aid0 bw0 s; stop = bw_start s - 1;
                    over = DBA_FRAME_LEN - pos
                in (pos, if over < bw1 then set_bw i1 over (s\<lparr>bw_stop := stop + c16 over\<rparr>)
                         else s\<lparr>bw_stop := stop + c16 bw1\<rparr>))
             else if remain - bw0 \<le> 7 then
               (let (odd, s) = cross_end dev cur aid0 s
                in (odd, if DBA_FRAME_LEN + 45 < odd + 45 + bw1
                         then set_bw i1 DBA_FRAME_LEN (set_window (c16 odd) (c16 odd + DBA_STOP_MAX) s)
                         else set_window (c16 odd) (c16 odd - 1 + c16 bw1) s))
             else
               (let (odd, s) = cross_fit dev cur aid0 aid1 bw0 s;
                    over = cur - DBA_FRAME_LEN + bw0 + bw1
                in (odd, if over \<le> 26 then s\<lparr>bw_stop := c16 odd + 26\<rparr>
                         else if DBA_FRAME_LEN + 45 < over + (odd + 45)
                         then set_bw i1 (DBA_FRAME_LEN - (bw0 - remain)) (s\<lparr>bw_stop := c16 odd + DBA_STOP_MAX\<rparr>)
                         else s\<lparr>bw_stop := c16 odd - rem16 - 1 + c16 bw0 + c16 bw1\<rparr>)));
          s = dba_bwmap_emit dev aid1 (BWMAP_END_LAST OR BWMAP_DBRU) s
      in (pos, s\<lparr>dba_cross_pos := pos\<rparr>))"

definition dba_cross_first_frame ::
  "device \<Rightarrow> nat list \<Rightarrow> nat \<Rightarrow> u32 \<times> u16 \<times> dba \<Rightarrow> u32 \<times> u16 \<times> dba" where
  "dba_cross_first_frame dev order slot q =
     (let (cur, _, s) = q; onu = order ! slot; i1 = dba_tc_idx (tc_mode s) onu 1;
          (pos, s) = (if slot + 1 \<noteq> unat (dba_act_onus s) then cross_next dev cur onu i1 s
            else cross_last dev cur onu i1 s)
      in (pos, 1, s))"

section \<open>The map\<close>

text \<open>The grants of an ONU: its valid T-CONTs and their sum.\<close>

definition onu_grants :: "dba_map \<Rightarrow> dba_alloc list \<Rightarrow> nat \<Rightarrow> dba_alloc list" where
  "onu_grants m ctx onu = filter valid (map ((!) ctx) (onu_slots m onu))"

definition onu_sum :: "dba_map \<Rightarrow> dba_alloc list \<Rightarrow> nat \<Rightarrow> u32" where
  "onu_sum m ctx onu = sum_list (map a_bw (onu_grants m ctx onu))"

text \<open>\<open>order[4]\<close>: the store of a fifth ONU is outside it.\<close>

fun order_onus :: "dba_map \<Rightarrow> dba_alloc list \<Rightarrow> nat list \<Rightarrow> nat list \<Rightarrow> dba_fault + nat list" where
  "order_onus m ctx [] order = Inr order"
| "order_onus m ctx (onu # onus) order =
     (if onu_grants m ctx onu = [] then order_onus m ctx onus order
      else if 4 \<le> length order then Inl Order_overflow
      else order_onus m ctx onus
        (dba_sort_u32 (onu_sum m ctx) (order @ [onu]) (length order + 1) 0))"

text \<open>An ONU gets at least 27 units, its T-CONT 1 if that is valid.\<close>

definition onu_floor :: "nat \<Rightarrow> u32 \<Rightarrow> dba \<Rightarrow> dba" where
  "onu_floor onu w s =
     (if w \<le> 26 then
        (let i = dba_tc_idx (tc_mode s) onu 1;
             i = (if valid (dba_ctx s ! i) then i else onu)
         in s\<lparr>dba_ctx := upd_alloc i (\<lambda>a. a\<lparr>a_bw := a_bw a + (27 - w)\<rparr>) (dba_ctx s)\<rparr>)
      else s)"

fun short_slots :: "device \<Rightarrow> nat list \<Rightarrow> nat list \<Rightarrow> u32 \<times> dba \<Rightarrow> u32 \<times> dba" where
  "short_slots dev order [] q = q"
| "short_slots dev order (i # is) q = short_slots dev order is (dba_bwmap_short dev order i q)"

definition place_onu ::
  "device \<Rightarrow> (nat \<Rightarrow> u32) \<Rightarrow> nat list \<Rightarrow> nat \<Rightarrow> u32 \<times> u16 \<times> dba \<Rightarrow> u32 \<times> u16 \<times> dba" where
  "place_onu dev bw order k q =
     (let (pos, wrap, s) = q; w = bw (order ! k); s = onu_floor (order ! k) w s;
          is_last = (k + 1 = unat (dba_act_onus s))
      in if wrap = 0 then
           (if 0x4BEF < pos + w + 45 then dba_cross_first_frame dev order k (pos, wrap, s)
            else if is_last then
              (let (_, wrap, s) = dba_bwmap_pair dev order k True False (pos, wrap, s);
                   (pos, s) = short_slots dev order [0..<length order] (dba_cross_pos s AND 1, s)
               in (pos, wrap, s))
            else dba_bwmap_pair dev order k (pos + w = DBA_FRAME_LEN \<or> 0x4BA6 < pos + w + 45) False
                   (pos, wrap, s))
         else if 0x4BEF < pos + 45 + w then
           (let (pos, s) = dba_bwmap_fill dev order k (pos, s) in (pos, wrap, s))
         else dba_bwmap_pair dev order k False is_last (pos, wrap, s))"

fun place_onus ::
  "device \<Rightarrow> (nat \<Rightarrow> u32) \<Rightarrow> nat list \<Rightarrow> nat list \<Rightarrow> u32 \<times> u16 \<times> dba \<Rightarrow> u32 \<times> u16 \<times> dba" where
  "place_onus dev bw order [] q = q"
| "place_onus dev bw order (k # ks) q = place_onus dev bw order ks (place_onu dev bw order k q)"

definition dba_new_bwmap_switch :: "device \<Rightarrow> dba \<Rightarrow> dba_fault + dba" where
  "dba_new_bwmap_switch dev s =
     (let pos = dba_cross_pos s AND 1; old = dba_bwmap_nonempty s;
          s = s\<lparr>dba_new_pass_cnt := dba_new_pass_cnt s + 1,
                dba_bwmap_nonempty := (if dba_act_onus s \<noteq> 0 then 1 else 0)\<rparr>;
          m = dba_map_of (c32 (tc_mode s))
      in case order_onus m (dba_ctx s) [0..<unat (m_onu m)] [] of
           Inl f \<Rightarrow> Inl f
         | Inr order \<Rightarrow>
             (let (_, _, s) = place_onus dev (onu_sum m (dba_ctx s)) order [0..<length order] (pos, 0, s)
              in Inr (bank_flip dev old s)))"

end
