(* ===== verification/Dba_Frame.thy ===== *)
theory Dba_Frame
  imports Dba_New
begin

text \<open>
  The frame handler of \<open>npu_dba.c\<close>: the fixed test maps, the counters, what the host changed, the
  report drain, and on every second frame the next map; and the entry of core 5.
\<close>

section \<open>Test maps\<close>

definition dba_sw_bwmap_flip :: "device \<Rightarrow> dba \<Rightarrow> s32 \<times> dba" where
  "dba_sw_bwmap_flip dev s =
     (let (b0, b1, s) = dba_bwmap_bank_get dev s
      in if b0 \<noteq> b1 then (- 1, s) else (0, dba_bwmap_bank_set dev (if b0 \<noteq> 0 then 0 else 1) s))"

fun write_map :: "device \<Rightarrow> (u32 \<times> u32) list \<Rightarrow> dba \<Rightarrow> dba" where
  "write_map dev [] s = s"
| "write_map dev ((w0, w1) # es) s = write_map dev es (dba_bwmap_write dev w0 w1 s)"

definition sw_map1 :: "(u32 \<times> u32) list" where
  "sw_map1 =
     [(BWMAP_W0 0x0000 0x12E4, BWMAP_AID 0x100 OR BWMAP_DBRU),
      (BWMAP_W0 0x12E5 0x25C9, BWMAP_AID 0x200 OR BWMAP_DBRU),
      (BWMAP_W0 0x25F8 0x38DC, BWMAP_AID 0x101 OR BWMAP_DBRU),
      (BWMAP_W0 0x38DD 0x4BC1, BWMAP_END_LAST OR BWMAP_AID 0x201 OR BWMAP_DBRU)]"

definition sw_map2 :: "(u32 \<times> u32) list" where
  "sw_map2 =
     [(BWMAP_W0 0x0000 0x1F3F, BWMAP_AID 0x100 OR BWMAP_DBRU),
      (BWMAP_W0 0x1F40 0x3E7F, BWMAP_END_WRAP OR BWMAP_AID 0x200 OR BWMAP_DBRU),
      (BWMAP_W0 0x0000 0x1F3F, BWMAP_AID 0x101 OR BWMAP_DBRU),
      (BWMAP_W0 0x1F40 0x3E7F, BWMAP_END_LAST OR BWMAP_AID 0x201 OR BWMAP_DBRU)]"

text \<open>The third map: 32 ONUs of 4 T-CONTs; the control word and the position carry over.\<close>

fun sw_map3_from :: "u32 \<Rightarrow> u16 \<Rightarrow> (nat \<times> nat) list \<Rightarrow> (u32 \<times> u32) list" where
  "sw_map3_from ctrl pos [] = []"
| "sw_map3_from ctrl pos ((onu, t) # sl) =
     (let ctrl = (ctrl AND NOT BWMAP_AID_MASK) OR
            BWMAP_AID (if t = 0 then of_nat onu else of_nat onu OR push_bit 8 (of_nat t));
          (start, stop) = (if t = 0 then (pos + 47, pos + 174) else (pos + 1, pos + 128));
          ctrl = (if onu \<noteq> 31 then ctrl AND NOT BWMAP_END_LAST
                  else if t = 3 then ctrl OR BWMAP_END_LAST else ctrl)
      in (BWMAP_W0 start stop, ctrl) #
         sw_map3_from (if ctrl AND BWMAP_END_WRAP \<noteq> 0 then ctrl AND NOT 0x01FC0000 else ctrl) stop sl)"

definition sw_map3 :: "(u32 \<times> u32) list" where
  "sw_map3 = sw_map3_from 0 0 [(onu, t). onu \<leftarrow> [0..<32], t \<leftarrow> [0..<4]]"

definition dba_sw_bwmap_run :: "device \<Rightarrow> dba \<Rightarrow> dba" where
  "dba_sw_bwmap_run dev s =
     (let t = dba_sw_bwmap_test s; run = (\<lambda>es. snd (dba_sw_bwmap_flip dev (write_map dev es s)))
      in if t = 1 then run sw_map1 else if t = 2 then run sw_map2 else if t = 3 then run sw_map3 else s)"

section \<open>Counters\<close>

definition dba_frame_tick :: "dba \<Rightarrow> dba" where
  "dba_frame_tick s =
     (let tick = dba_rpt_tick s + 1; s = s\<lparr>dba_rpt_tick := tick\<rparr>
      in if dba_print_en s \<noteq> 0 then
           (if tick mod 8000 = 0 then s\<lparr>dba_print_en := 0, dba_rpt_tick := 0, dba_rpt_dump := 1\<rparr> else s)
         else if dba_print_no_idle_en s \<noteq> 0 then
           (if tick = 8000 then s\<lparr>dba_print_no_idle_en := 0, dba_rpt_tick := 0, dba_no_idle_dump := 1\<rparr>
            else s)
         else s)"

text \<open>The second result: the non-idle counts were printed.\<close>

definition dba_frame_stats :: "dba \<Rightarrow> dba \<times> bool" where
  "dba_frame_stats s =
     (let clean = dba_clean_no_idle s;
          s = dba_frame_tick s;
          s = (if clean \<noteq> 0
               then s\<lparr>dba_non_idle_cnt1 := 0, dba_non_idle_cnt2 := 0, dba_clean_no_idle := 0\<rparr> else s)
      in if dba_no_idle_dump s \<noteq> 0 then (s\<lparr>dba_no_idle_dump := 0\<rparr>, True) else (s, False))"

section \<open>Single ONU mode\<close>

definition dba_single_onu_check :: "dba \<Rightarrow> dba" where
  "dba_single_onu_check s =
     (let md = c32 (dba_mode s); n = unat (dba_aid_conv 0 0 md 1);
          cs = map (\<lambda>t. tc_cfg s ! unat (c8 (dba_aid_conv (c32 (dba_last_onu s)) (of_nat t) md 3))) [0..<n];
          n_valid = length (filter (\<lambda>c. c_flags c AND 1 \<noteq> 0) cs);
          fec = (\<exists>c \<in> set cs. c_flags c AND 2 \<noteq> 0)
      in s\<lparr>dba_single_onu_ok := (if n_valid = 2 \<and> \<not> fec then 1 else 0)\<rparr>)"

text \<open>T-CONT 0 fixed, T-CONT 1 takes the frame.\<close>

definition dba_single_onu_grant :: "dba \<Rightarrow> dba" where
  "dba_single_onu_grant s =
     (let md = c32 (dba_mode s);
          i1 = unat (dba_aid_conv (c32 (dba_last_onu s)) 0 md 3);
          i2 = unat (dba_aid_conv (c32 (dba_last_onu s)) 1 md 3);
          s = set_bw i2 19274 (set_bw i1 90 (s\<lparr>dba_bwmap_left := 2\<rparr>))
      in s\<lparr>dba_ctx := upd_alloc i2 (\<lambda>a. a\<lparr>a_state := (a_state a AND NOT 7) OR 3\<rparr>) (dba_ctx s)\<rparr>)"

section \<open>The frame\<close>

definition dba_act_sync :: "dba \<Rightarrow> dba" where
  "dba_act_sync s =
     (if dba_new_act_cur s \<noteq> dba_new_act s then s\<lparr>dba_new_act_cur := dba_new_act s\<rparr> else s)"

definition dba_new_en_apply :: "dba \<Rightarrow> dba" where
  "dba_new_en_apply s =
     (if dba_new_en_cur s \<noteq> dba_new_en s
      then (let s = dba_act_sync (dba_new_mode_update s) in s\<lparr>dba_new_en_cur := dba_new_en s\<rparr>)
      else s)"

text \<open>What the host changed in the T-CONT table.\<close>

definition dba_apply_changes :: "device \<Rightarrow> dba \<Rightarrow> dba" where
  "dba_apply_changes dev s =
     (if tc_changed s \<noteq> 0 then
        (let s = (if tc_mode s \<noteq> dba_mode s
               then (let s = dba_tcont_init dev s in s\<lparr>dba_mode := tc_mode s\<rparr>) else s);
             s = dba_act_sync (dba_new_mode_update (dba_tcont_load s))
         in if dba_single_onu_en s \<noteq> 0 then
              (if dba_act_onus s = 1 then dba_single_onu_check s else s\<lparr>dba_single_onu_ok := 0\<rparr>)
            else s)
      else s)"

definition budget_zero :: dba_budget where
  "budget_zero = \<lparr>b_total = 0, b_remain = 0, b_cnt = 0, b_share = 0, b_demand = 0, b_over_share = 0,
     b_left = 0, b_over_assure = 0\<rparr>"

text \<open>The map of an odd frame.\<close>

definition dba_next_map :: "device \<Rightarrow> dba \<Rightarrow> dba_fault + dba" where
  "dba_next_map dev s =
     (let (b, s) = dba_budget_calc s budget_zero
      in case (if dba_single_onu_ok s \<noteq> 0 \<and> dba_single_onu_en s \<noteq> 0 then Inr (b, dba_single_onu_grant s)
               else dba_bw_request b s) of
           Inl f \<Rightarrow> Inl f
         | Inr (b, s) \<Rightarrow>
             (if dba_new_act s \<noteq> 0 then dba_new_bwmap_switch dev s else Inr (dba_bwmap_switch dev s)))"

definition dba_frame_handler :: "device \<Rightarrow> rpt_mem \<Rightarrow> dba \<Rightarrow> dba_fault + dba" where
  "dba_frame_handler dev mem s =
     (let s = (if dba_get_timer_en s \<noteq> 0
               then dba_rpt_drain dev mem (dba_apply_changes dev (dba_new_en_apply (fst (dba_frame_stats s))))
               else s);
          s = (if dba_log_en s = 0 \<and> dba_rpt_tick s mod 16000 = 0 then s\<lparr>dba_log_en := 1\<rparr> else s)
      in case (if dba_frame_cnt s AND 1 \<noteq> 0 then
                 (let s = dba_sw_bwmap_run dev s
                  in if dba_do_timer_en s \<noteq> 0 then dba_next_map dev s else Inr s)
               else Inr s) of
           Inl f \<Rightarrow> Inl f
         | Inr s \<Rightarrow> Inr (s\<lparr>dba_frame_cnt := dba_frame_cnt s + 1\<rparr>))"

section \<open>Core 5\<close>

definition fttr_ring_init :: "device \<Rightarrow> dba \<Rightarrow> dba" where
  "fttr_ring_init dev s =
     (let base = npu_fttr_base s;
          s = fttr_wr dev FTTR_RPT_BASE base s;
          s = fttr_wr dev FTTR_RPT_SIZE 0xFFF00 s;
          (v, s) = fttr_rd dev FTTR_RPT_CFG s;
          s = fttr_wr dev FTTR_RPT_CFG ((v AND 0xFFF00000) OR drop_bit 12 base) s;
          (v, s) = fttr_rd dev FTTR_RPT_CFG s
      in fttr_wr dev FTTR_RPT_CFG (v OR 0x80000000) s)"

definition core5_dba_init :: "variant \<Rightarrow> device \<Rightarrow> sram \<times> dba \<Rightarrow> sram_fault + (sram \<times> dba)" where
  "core5_dba_init v dev ms =
     (case sram_buf_alloc v 136 (fst ms) of
        Inl f \<Rightarrow> Inl f
      | Inr (base, m) \<Rightarrow>
          (let s = (snd ms)\<lparr>dba_ctx := replicate DBA_ALLOC_NUM alloc_zero, npu_fttr_base := base\<rparr>
           in Inr (m, dba_cfg_init dev (fttr_ring_init dev s))))"

text \<open>One turn of the endless loop of core 5.\<close>

definition core5_dba_turn :: "device \<Rightarrow> rpt_mem \<Rightarrow> dba \<Rightarrow> dba_fault + dba" where
  "core5_dba_turn dev mem s =
     (let (v, s) = fttr_rd dev FTTR_INT_STS s
      in if v AND 3 = 0 then Inr s else dba_frame_handler dev mem (fttr_wr dev FTTR_INT_STS 3 s))"

end
