(* ===== verification/Dba_Table.thy ===== *)
theory Dba_Table
  imports Dba_Report
begin

text \<open>
  What the alloc id layout, the T-CONT table, the host mail and the reports of \<open>npu_dba.c\<close>
  guarantee: the four layouts are bijections between (ONU, T-CONT) and the 128 slots, no operation
  leaves its tables except the mails with an unchecked index, and the two report slots of an
  alloc id are its last two reports.
\<close>

section \<open>The layouts\<close>

lemma unat_below:
  fixes x :: "'a::len word"
  assumes "take_bit n x = x"
  shows "unat x < 2 ^ n"
  by (metis assms take_bit_nat_less_exp unsigned_take_bit_eq)

lemma bit_below: "n < 2 ^ k \<Longrightarrow> bit (n :: nat) i \<Longrightarrow> i < k"
  by (metis bit_take_bit_iff take_bit_nat_eq_self)

text \<open>A layout: \<open>k\<close> bits of ONU, \<open>j\<close> bits of T-CONT, the latter at bit \<open>sh\<close> of an alloc id.\<close>

definition layout :: "dba_map \<Rightarrow> nat \<Rightarrow> nat \<Rightarrow> nat \<Rightarrow> bool" where
  "layout m k j sh \<longleftrightarrow> m_onu_mask m = mask k \<and> m_tc_mask m = push_bit sh (mask j) \<and>
     m_tc_shift m = sh \<and> m_idx_shift m = k \<and> unat (m_onu m) = 2 ^ k \<and> unat (m_tc m) = 2 ^ j \<and>
     k \<le> 6 \<and> k + j = 7 \<and> 8 \<le> sh \<and> sh + j \<le> 12"

lemma layout_map: "\<exists>k j sh. layout (dba_map_of md) k j sh"
proof -
  have "\<forall>m \<in> set dba_map_tbl. \<exists>k j sh. layout m k j sh"
  proof -
    have "layout (dba_map_tbl ! 0) 5 2 8" "layout (dba_map_tbl ! 1) 4 3 8"
      "layout (dba_map_tbl ! 2) 3 4 8" "layout (dba_map_tbl ! 3) 6 1 9"
      by (simp_all add: layout_def dba_map_tbl_def mask_eq_exp_minus_1 push_bit_eq_mult)
    then show ?thesis by (auto simp: dba_map_tbl_def)
  qed
  moreover have "dba_map_of md \<in> set dba_map_tbl"
    unfolding dba_map_of_def by (rule nth_mem) (auto simp: dba_map_tbl_def word_less_nat_alt)
  ultimately show ?thesis by blast
qed

lemma aid_index_small: "unat (dba_aid_conv val 0 md 2) < 128"
proof -
  obtain k j sh where l: "layout (dba_map_of md) k j sh" using layout_map by blast
  have "take_bit 7 (dba_aid_conv val 0 md 2) = dba_aid_conv val 0 md 2"
    using l unfolding dba_aid_conv_def layout_def
    by (intro bit_word_eqI) (auto simp: bit_simps)
  then show ?thesis using unat_below [of 7 "dba_aid_conv val 0 md 2"] by simp
qed

lemma tc_slot_eq:
  assumes "layout m k j sh" "onu < 2 ^ k" "t < 2 ^ j"
  shows "tc_slot m t onu = t * 2 ^ k + onu" "t * 2 ^ k + onu < 128"
proof -
  have lt: "t * 2 ^ k + onu < 2 ^ j * 2 ^ k"
  proof -
    have "t * 2 ^ k + onu < (t + 1) * 2 ^ k" using assms(2) by simp
    also have "\<dots> \<le> 2 ^ j * 2 ^ k" using assms(3) by (intro mult_le_mono) auto
    finally show ?thesis .
  qed
  then show small: "t * 2 ^ k + onu < 128"
  proof -
    have "(2 :: nat) ^ j * 2 ^ k = 2 ^ 7" using assms(1) by (simp add: layout_def add.commute flip: power_add)
    then show ?thesis using lt by simp
  qed
  have "push_bit k (of_nat t :: u32) OR of_nat onu = push_bit k (of_nat t) + of_nat onu"
    by (subst disjunctive_add) (auto simp: bit_simps bit_of_nat_iff dest: bit_below [OF assms(2)])
  also have "\<dots> = of_nat (t * 2 ^ k + onu)" by (simp add: push_bit_eq_mult)
  finally have "push_bit k (of_nat t :: u32) OR of_nat onu = of_nat (t * 2 ^ k + onu)" .
  moreover have "unat (of_nat (t * 2 ^ k + onu) :: u32) = t * 2 ^ k + onu"
    unfolding unsigned_of_nat of_nat_id by (rule take_bit_nat_eq_self) (use small in simp)
  ultimately show "tc_slot m t onu = t * 2 ^ k + onu"
    using assms(1) small by (simp add: tc_slot_def layout_def unat_c16_c32)
qed

lemma slot_round_trip:
  assumes "layout (dba_map_of md) k j sh" "onu < 2 ^ k" "t < 2 ^ j"
  defines "A \<equiv> dba_aid_conv (of_nat onu) (of_nat t) md 5" and "I \<equiv> dba_aid_conv (of_nat onu) (of_nat t) md 3"
  shows "dba_aid_conv A 0 md 2 = I" "dba_aid_conv A 0 md 4 = of_nat onu"
    "unat I = tc_slot (dba_map_of md) t onu"
proof -
  note b = bit_below [OF assms(2)] bit_below [OF assms(3)]
  have l: "k \<le> 6" "k + j = 7" "8 \<le> sh" "sh + j \<le> 12" using assms(1) by (auto simp: layout_def)
  have A: "bit A n \<longleftrightarrow> bit onu n \<or> sh \<le> n \<and> bit t (n - sh)" for n
  proof -
    have "bit onu n \<Longrightarrow> n < 6" "bit t (n - sh) \<Longrightarrow> n < 12" using b [of n] b [of "n - sh"] l by auto
    then show ?thesis
      using assms(1) l b(2) [of "n - sh"] unfolding A_def dba_aid_conv_def layout_def
      by (auto simp: bit_simps bit_of_nat_iff)
  qed
  have I: "bit I n \<longleftrightarrow> bit onu n \<or> k \<le> n \<and> bit t (n - k)" for n
  proof -
    have "bit onu n \<Longrightarrow> n < 6" "bit t (n - k) \<Longrightarrow> n < 7" using b [of n] b [of "n - k"] l by auto
    then show ?thesis
      using assms(1) unfolding I_def dba_aid_conv_def layout_def
      by (auto simp: bit_simps bit_of_nat_iff)
  qed
  show "dba_aid_conv A 0 md 2 = I"
  proof (rule bit_word_eqI)
    fix n assume n: "n < LENGTH(32)"
    have "bit (dba_aid_conv A 0 md 2) n \<longleftrightarrow> n < 16 \<and>
        (k \<le> n \<and> n - k < 8 \<and> n - k < j \<and> bit A (sh + (n - k)) \<or> n < k \<and> bit A n)"
      using assms(1) l n unfolding dba_aid_conv_def layout_def by (auto simp: bit_simps)
    also have "\<dots> \<longleftrightarrow> bit I n"
      unfolding A I using b(1) [of n] b(2) [of "n - k"] b(1) [of "sh + (n - k)"] l by auto
    finally show "bit (dba_aid_conv A 0 md 2) n \<longleftrightarrow> bit I n" .
  qed
  show "dba_aid_conv A 0 md 4 = of_nat onu"
  proof (rule bit_word_eqI)
    fix n assume n: "n < LENGTH(32)"
    have "bit (dba_aid_conv A 0 md 4) n \<longleftrightarrow> n < k \<and> bit A n"
      using assms(1) l n unfolding dba_aid_conv_def layout_def by (auto simp: bit_simps)
    then show "bit (dba_aid_conv A 0 md 4) n \<longleftrightarrow> bit (of_nat onu :: u32) n"
      using b(1) [of n] l n by (auto simp: A bit_of_nat_iff)
  qed
  show "unat I = tc_slot (dba_map_of md) t onu"
  proof -
    have "I = c32 (c16 (push_bit k (of_nat t :: u32) OR of_nat onu))"
      using assms(1) unfolding I_def dba_aid_conv_def layout_def
      by (intro bit_word_eqI) (use l in \<open>auto simp: bit_simps bit_of_nat_iff dest: b(1)\<close>)
    then show ?thesis using assms(1) by (simp add: tc_slot_def layout_def)
  qed
qed

text \<open>Both ways: the slots of a layout are all of the table, each once.\<close>

lemma tc_slot_bij:
  "bij_betw (\<lambda>(onu, t). tc_slot (dba_map_of md) t onu)
     ({..<unat (m_onu (dba_map_of md))} \<times> {..<unat (m_tc (dba_map_of md))}) {..<128}"
proof -
  obtain k j sh where l: "layout (dba_map_of md) k j sh" using layout_map by blast
  have n: "unat (m_onu (dba_map_of md)) = 2 ^ k" "unat (m_tc (dba_map_of md)) = 2 ^ j"
    using l by (auto simp: layout_def)
  have kj: "(2 :: nat) ^ j * 2 ^ k = 128"
    using l by (simp add: layout_def add.commute flip: power_add)
  show ?thesis unfolding n
  proof (rule bij_betw_byWitness [where f' = "\<lambda>i. (i mod 2 ^ k, i div 2 ^ k)"])
    show "\<forall>i \<in> {..<128}. (case (i mod 2 ^ k, i div 2 ^ k) of (onu, t) \<Rightarrow> tc_slot (dba_map_of md) t onu) = i"
    proof
      fix i :: nat assume "i \<in> {..<128}"
      then have "i div 2 ^ k < 2 ^ j" using kj by (simp add: less_mult_imp_div_less)
      then show "(case (i mod 2 ^ k, i div 2 ^ k) of (onu, t) \<Rightarrow> tc_slot (dba_map_of md) t onu) = i"
        using tc_slot_eq(1) [OF l, of "i mod 2 ^ k" "i div 2 ^ k"] div_mult_mod_eq [of i "2 ^ k"] by simp
    qed
    show "(\<lambda>i :: nat. (i mod 2 ^ k, i div 2 ^ k)) ` {..<128} \<subseteq> {..<2 ^ k} \<times> {..<2 ^ j}"
      using kj by (auto simp: less_mult_imp_div_less)
  qed (use tc_slot_eq [OF l] in auto)
qed

lemma tc_slot_less:
  assumes "onu < unat (m_onu (dba_map_of md))" "t < unat (m_tc (dba_map_of md))"
  shows "tc_slot (dba_map_of md) t onu < 128"
  using bij_betw_apply [OF tc_slot_bij, of "(onu, t)" md] assms by simp

lemma layout_size: "unat (m_onu (dba_map_of md)) * unat (m_tc (dba_map_of md)) = 128"
    "unat (m_onu (dba_map_of md)) \<le> 64"
proof -
  obtain k j sh where l: "layout (dba_map_of md) k j sh" using layout_map by blast
  then show "unat (m_onu (dba_map_of md)) * unat (m_tc (dba_map_of md)) = 128"
    by (simp add: layout_def flip: power_add)
  have "(2 :: nat) ^ k \<le> 2 ^ 6" using l by (intro power_increasing) (auto simp: layout_def)
  then show "unat (m_onu (dba_map_of md)) \<le> 64" using l by (simp add: layout_def)
qed

lemma slot_index:
  assumes "onu < unat (m_onu (dba_map_of md))" "t < unat (m_tc (dba_map_of md))"
  defines "A \<equiv> dba_aid_conv (of_nat onu) (of_nat t) md 5" and "I \<equiv> dba_aid_conv (of_nat onu) (of_nat t) md 3"
  shows "dba_aid_conv A 0 md 2 = I" "dba_aid_conv A 0 md 4 = of_nat onu"
    "unat I = tc_slot (dba_map_of md) t onu" "tc_slot (dba_map_of md) t onu = t * unat (m_onu (dba_map_of md)) + onu"
proof -
  obtain k j sh where l: "layout (dba_map_of md) k j sh" using layout_map by blast
  have b: "onu < 2 ^ k" "t < 2 ^ j" using assms(1,2) l by (auto simp: layout_def)
  show "dba_aid_conv A 0 md 2 = I" "dba_aid_conv A 0 md 4 = of_nat onu"
    "unat I = tc_slot (dba_map_of md) t onu"
    unfolding A_def I_def by (rule slot_round_trip [OF l b])+
  show "tc_slot (dba_map_of md) t onu = t * unat (m_onu (dba_map_of md)) + onu"
    using tc_slot_eq(1) [OF l b] l by (simp add: layout_def)
qed

section \<open>The two report slots\<close>

definition ring_ok :: "dba_alloc \<Rightarrow> bool" where
  "ring_ok a \<longleftrightarrow> length (a_ring a) = 2 \<and> rpt_rd a < 2 \<and> rpt_wr a < 2"

definition rpt_cur :: "dba_alloc \<Rightarrow> dba_rpt" where "rpt_cur a = a_ring a ! rpt_wr a"
definition rpt_prev :: "dba_alloc \<Rightarrow> dba_rpt" where "rpt_prev a = a_ring a ! rpt_rd a"

lemma nibbles:
  "c32 (a_ring_idx a) AND 0xF = of_nat (rpt_rd a)"
  "drop_bit 4 (c32 (a_ring_idx a)) AND 0xF = of_nat (rpt_wr a)"
proof -
  have "c32 (a_ring_idx a AND 0xF) = c32 (a_ring_idx a) AND 0xF"
    by (simp add: unsigned_and_eq)
  then show "c32 (a_ring_idx a) AND 0xF = of_nat (rpt_rd a)"
    by (simp add: rpt_rd_def of_nat_unat)
  have "c32 (drop_bit 4 (a_ring_idx a) AND 0xF) = drop_bit 4 (c32 (a_ring_idx a)) AND 0xF"
    by (simp add: unsigned_and_eq unsigned_drop_bit_eq) (rule bit_word_eqI, auto simp: bit_simps dest: bit_imp_le_length)
  then show "drop_bit 4 (c32 (a_ring_idx a)) AND 0xF = of_nat (rpt_wr a)"
    by (simp add: rpt_wr_def of_nat_unat)
qed

lemma rpt_push_views:
  assumes "ring_ok a"
  shows "ring_ok (dba_rpt_push r a)" "rpt_cur (dba_rpt_push r a) = r"
    "rpt_prev (dba_rpt_push r a) = rpt_cur a"
proof -
  have l: "length (a_ring a) = 2" using assms by (simp add: ring_ok_def)
  have c: "rpt_rd a = 0 \<or> rpt_rd a = 1" "rpt_wr a = 0 \<or> rpt_wr a = 1"
    using assms by (auto simp: ring_ok_def)
  then show "ring_ok (dba_rpt_push r a)" "rpt_cur (dba_rpt_push r a) = r"
    "rpt_prev (dba_rpt_push r a) = rpt_cur a"
    using l unfolding dba_rpt_push_def nibbles
    by (auto simp: ring_ok_def rpt_cur_def rpt_prev_def rpt_rd_def [of "a_ring_idx_update _ _"]
        rpt_wr_def [of "a_ring_idx_update _ _"])
qed

lemma rpt_push_fold:
  "ring_ok a \<Longrightarrow> ring_ok (fold dba_rpt_push rs a) \<and>
    [rpt_prev (fold dba_rpt_push rs a), rpt_cur (fold dba_rpt_push rs a)] =
      drop (length rs) ([rpt_prev a, rpt_cur a] @ rs)"
proof (induction rs arbitrary: a)
  case (Cons r rs)
  then show ?case using rpt_push_views [OF Cons.prems, of r] by simp
qed simp

section \<open>The tables keep their sizes\<close>

definition dba_wf :: "dba \<Rightarrow> bool" where
  "dba_wf s \<longleftrightarrow> length (tc_cfg s) = 128 \<and> length (dba_onu_tx_burst s) = 64 \<and>
     length (dba_ctx s) = 128 \<and> (\<forall>a \<in> set (dba_ctx s). ring_ok a)"

lemma fttr_wf [simp]:
  "dba_wf (snd (fttr_rd dev reg s)) \<longleftrightarrow> dba_wf s" "dba_wf (fttr_wr dev reg v s) \<longleftrightarrow> dba_wf s"
  by (simp_all add: fttr_rd_def fttr_wr_def reg_rd_def dba_wf_def Let_def)

lemma fttr_rd_eq:
  "fttr_rd dev reg s =
     (dev (dba_io s) reg, s\<lparr>dba_io := dba_io s @ [Rd reg (dev (dba_io s) reg),
        Rd DBA_SYNC_REG (dev (dba_io s @ [Rd reg (dev (dba_io s) reg)]) DBA_SYNC_REG)]\<rparr>)"
  by (simp add: fttr_rd_def reg_rd_def Let_def)

lemma writes_fttr [simp]:
  "writes (dba_io (snd (fttr_rd dev reg s))) = writes (dba_io s)"
  "writes (dba_io (fttr_wr dev reg v s)) = writes (dba_io s) @ [(reg, v)]"
  by (simp_all add: fttr_rd_def fttr_wr_def reg_rd_def reg_wr_def Let_def)

lemma rpt_store_wf: "dba_wf s \<Longrightarrow> dba_wf (dba_rpt_store hw s)"
  using aid_index_small [of "drop_bit 15 (h_word hw) AND 0xFFF" "c32 (dba_mode s)"]
  by (auto simp: dba_rpt_store_def Let_def dba_wf_def unat_c8_c32 dest!: set_update_subset_insert [THEN subsetD] intro!: rpt_push_views(1))

lemma rpt_store_io [simp]: "dba_io (dba_rpt_store hw s) = dba_io s" "dba_rpt_step (dba_rpt_store hw s) = dba_rpt_step s"
    "npu_fttr_base (dba_rpt_store hw s) = npu_fttr_base s"
  by (simp_all add: dba_rpt_store_def Let_def)

section \<open>The drain\<close>

lemma drain_next_le: "drain_next stp pending lst idx \<le> lst"
  by (auto simp: drain_next_def Let_def)

lemma ridx_value:
  assumes "lst \<le> 0xFFFF" "idx \<le> lst"
  shows "drop_bit 16 ((ridx AND 0xFFFF) OR push_bit 16 (idx AND 0xFFFF)) = (idx :: u32)"
proof -
  have m: "(0xFFFF :: u32) = mask 16" by (simp add: mask_eq_exp_minus_1)
  have "unat idx < 2 ^ 16" using order.trans [OF assms(2,1)] by (simp add: word_le_nat_alt)
  then have b: "bit idx n \<Longrightarrow> n < 16" for n using bit_below [of "unat idx" 16 n] by (simp add: bit_unsigned_iff)
  show ?thesis unfolding m
    by (rule bit_word_eqI) (auto simp: bit_simps dest: b)
qed

lemma drain_step_all:
  assumes "drain_step dev mem lst (r, p, i, s) = (r', p', i', s')" "lst \<le> 0xFFFF"
  shows "\<exists>v c. writes (dba_io s') = writes (dba_io s) @ [(FTTR_RPT_RIDX, v)] \<and> drop_bit 16 v \<le> lst \<and>
      Rd FTTR_RPT_CNT c \<in> set (dba_io s') \<and> p' = c AND 0xFFFF \<and> set (dba_io s) \<subseteq> set (dba_io s')"
    "dba_wf s \<Longrightarrow> dba_wf s'"
proof -
  let ?i = "drain_next (dba_rpt_step s) p lst i"
  let ?v = "(r AND 0xFFFF) OR push_bit 16 (?i AND 0xFFFF)"
  let ?u = "dba_rpt_store (mem (dba_io s) (npu_fttr_base s + i * 16))
    (dba_rpt_store (mem (dba_io s) (npu_fttr_base s + i * 16 + 8)) s)"
  let ?w = "fttr_wr dev FTTR_RPT_RIDX ?v ?u"
  have e: "s' = snd (fttr_rd dev FTTR_RPT_CNT ?w)" "p' = fst (fttr_rd dev FTTR_RPT_CNT ?w) AND 0xFFFF"
    using assms(1) by (auto simp: drain_step_def Let_def split: prod.splits)
  show "dba_wf s \<Longrightarrow> dba_wf s'" by (simp add: e rpt_store_wf)
  have "set (dba_io s) \<subseteq> set (dba_io ?w)" by (auto simp: fttr_wr_def reg_wr_def reg_rd_def Let_def)
  then have "Rd FTTR_RPT_CNT (dev (dba_io ?w) FTTR_RPT_CNT) \<in> set (dba_io s')" "set (dba_io s) \<subseteq> set (dba_io s')"
    by (auto simp: e fttr_rd_eq)
  moreover have "writes (dba_io s') = writes (dba_io s) @ [(FTTR_RPT_RIDX, ?v)]" by (simp add: e)
  moreover have "drop_bit 16 ?v \<le> lst"
    using ridx_value [OF assms(2) drain_next_le] drain_next_le by simp
  ultimately show "\<exists>v c. writes (dba_io s') = writes (dba_io s) @ [(FTTR_RPT_RIDX, v)] \<and> drop_bit 16 v \<le> lst \<and>
      Rd FTTR_RPT_CNT c \<in> set (dba_io s') \<and> p' = c AND 0xFFFF \<and> set (dba_io s) \<subseteq> set (dba_io s')"
    using e(2) by (auto simp: fttr_rd_eq)
qed

lemma drain_loop_all:
  assumes "lst \<le> 0xFFFF"
  shows "drain_loop dev mem lst n (r, p, i, s) = (r', p', i', s') \<Longrightarrow> 0 < n \<Longrightarrow>
    (\<exists>vs c. writes (dba_io s') = writes (dba_io s) @ map (Pair FTTR_RPT_RIDX) vs \<and> vs \<noteq> [] \<and>
      length vs \<le> n \<and> (\<forall>v \<in> set vs. drop_bit 16 v \<le> lst) \<and> set (dba_io s) \<subseteq> set (dba_io s') \<and>
      (length vs < n \<longrightarrow> Rd FTTR_RPT_CNT c \<in> set (dba_io s') \<and> c AND 0xFFFF = 0)) \<and>
    (dba_wf s \<longrightarrow> dba_wf s')"
proof (induction n arbitrary: r p i s)
  case (Suc n)
  obtain r1 p1 i1 s1 where st: "drain_step dev mem lst (r, p, i, s) = (r1, p1, i1, s1)"
    using prod_cases4 by blast
  obtain v c where one: "writes (dba_io s1) = writes (dba_io s) @ [(FTTR_RPT_RIDX, v)]" "drop_bit 16 v \<le> lst"
      "Rd FTTR_RPT_CNT c \<in> set (dba_io s1)" "p1 = c AND 0xFFFF" "set (dba_io s) \<subseteq> set (dba_io s1)"
    using drain_step_all(1) [OF st assms] by blast
  note wf = drain_step_all(2) [OF st assms]
  show ?case
  proof (cases "n = 0 \<or> p1 = 0")
    case True
    then have "s1 = s'" using Suc.prems(1) st by simp
    then show ?thesis using one wf True
      by (intro conjI exI [of _ "[v]"] exI [of _ c]) auto
  next
    case False
    then have "drain_loop dev mem lst n (r1, p1, i1, s1) = (r', p', i', s')" "0 < n"
      using Suc.prems(1) st by simp_all
    from Suc.IH [OF this] obtain vs c' where
      "writes (dba_io s') = writes (dba_io s1) @ map (Pair FTTR_RPT_RIDX) vs" "vs \<noteq> []"
      "length vs \<le> n" "\<forall>v \<in> set vs. drop_bit 16 v \<le> lst" "set (dba_io s1) \<subseteq> set (dba_io s')"
      "length vs < n \<longrightarrow> Rd FTTR_RPT_CNT c' \<in> set (dba_io s') \<and> c' AND 0xFFFF = 0"
      "dba_wf s1 \<longrightarrow> dba_wf s'" by blast
    then show ?thesis using one wf
      by (intro conjI exI [of _ "v # vs"] exI [of _ c']) auto
  qed
qed simp

lemma rpt_drain_all:
  "(\<exists>w vs c. writes (dba_io (dba_rpt_drain dev mem s)) =
      writes (dba_io s) @ map (Pair FTTR_RPT_RIDX) vs \<and> length vs \<le> 80 \<and>
      Rd FTTR_RPT_WIDX w \<in> set (dba_io (dba_rpt_drain dev mem s)) \<and>
      (\<forall>v \<in> set vs. drop_bit 16 v \<le> drop_bit 16 w) \<and>
      (length vs < 80 \<longrightarrow>
        Rd FTTR_RPT_CNT c \<in> set (dba_io (dba_rpt_drain dev mem s)) \<and> c AND 0xFFFF = 0)) \<and>
   (dba_wf s \<longrightarrow> dba_wf (dba_rpt_drain dev mem s))"
proof -
  obtain r s1 where 1: "fttr_rd dev FTTR_RPT_RIDX s = (r, s1)" by (cases "fttr_rd dev FTTR_RPT_RIDX s")
  obtain c s2 where 2: "fttr_rd dev FTTR_RPT_CNT s1 = (c, s2)" by (cases "fttr_rd dev FTTR_RPT_CNT s1")
  obtain w s3 where 3: "fttr_rd dev FTTR_RPT_WIDX s2 = (w, s3)" by (cases "fttr_rd dev FTTR_RPT_WIDX s2")
  have wr: "writes (dba_io s3) = writes (dba_io s)"
    using writes_fttr(1) [of dev FTTR_RPT_RIDX s] writes_fttr(1) [of dev FTTR_RPT_CNT s1]
      writes_fttr(1) [of dev FTTR_RPT_WIDX s2] by (simp add: 1 2 3)
  have wf: "dba_wf s3 = dba_wf s"
    using fttr_wf(1) [of dev FTTR_RPT_RIDX s] fttr_wf(1) [of dev FTTR_RPT_CNT s1]
      fttr_wf(1) [of dev FTTR_RPT_WIDX s2] by (simp add: 1 2 3)
  have rd: "Rd FTTR_RPT_CNT c \<in> set (dba_io s3)" "Rd FTTR_RPT_WIDX w \<in> set (dba_io s3)"
    using 1 2 3 by (auto simp: fttr_rd_eq)
  show ?thesis
  proof (cases "c AND 0xFFFF = 0")
    case True
    then have "dba_rpt_drain dev mem s = s3" by (simp add: dba_rpt_drain_def 1 2 3)
    then show ?thesis using True wr wf rd
      by (intro conjI exI [of _ w] exI [of _ "[]"] exI [of _ c]) auto
  next
    case False
    have lst: "drop_bit 16 w \<le> (0xFFFF :: u32)"
    proof -
      have "unat w div 65536 \<le> 65535" using unat_lt32 [of w] by simp
      then show ?thesis by (simp add: word_le_nat_alt unat_drop_bit)
    qed
    obtain r' p' i' s' where l: "drain_loop dev mem (drop_bit 16 w) 80 (r, c AND 0xFFFF, drop_bit 16 r, s3) =
        (r', p', i', s')" using prod_cases4 by blast
    obtain vs c' where vs: "writes (dba_io s') = writes (dba_io s3) @ map (Pair FTTR_RPT_RIDX) vs"
      "length vs \<le> 80" "\<forall>v \<in> set vs. drop_bit 16 v \<le> drop_bit 16 w" "set (dba_io s3) \<subseteq> set (dba_io s')"
      "length vs < 80 \<longrightarrow> Rd FTTR_RPT_CNT c' \<in> set (dba_io s') \<and> c' AND 0xFFFF = 0"
      "dba_wf s3 \<longrightarrow> dba_wf s'"
      using drain_loop_all [OF lst l] by auto
    have e: "dba_rpt_drain dev mem s = (if dba_rpt_dump s' \<noteq> 0 then s'\<lparr>dba_rpt_dump := 0\<rparr> else s')"
      using False by (simp add: dba_rpt_drain_def 1 2 3 l)
    then have io: "dba_io (dba_rpt_drain dev mem s) = dba_io s'"
        "dba_wf (dba_rpt_drain dev mem s) = dba_wf s'" by (simp_all add: dba_wf_def)
    show ?thesis unfolding io using vs wr wf rd
      by (intro conjI exI [of _ w] exI [of _ vs] exI [of _ c']) auto
  qed
qed

lemma rpt_drain_wf: "dba_wf s \<Longrightarrow> dba_wf (dba_rpt_drain dev mem s)"
  using rpt_drain_all by blast

section \<open>The T-CONT table\<close>

lemma tcont_fill_length [simp]: "length (tcont_fill m md sl cs) = length cs"
  by (induction m md sl cs rule: tcont_fill.induct) (simp_all add: Let_def)

lemma tcont_fill_other:
  "i \<notin> (\<lambda>(onu, t). tc_slot m t onu) ` set sl \<Longrightarrow> tcont_fill m md sl cs ! i = cs ! i"
  by (induction m md sl cs rule: tcont_fill.induct) (auto simp: Let_def)

lemma tcont_fill_at:
  "distinct (map (\<lambda>(onu, t). tc_slot m t onu) sl) \<Longrightarrow> (onu, t) \<in> set sl \<Longrightarrow>
   tc_slot m t onu < length cs \<Longrightarrow>
   tcont_fill m md sl cs ! tc_slot m t onu = tcont_default m md onu t (cs ! tc_slot m t onu)"
proof (induction m md sl cs rule: tcont_fill.induct)
  case (2 m md o' t' sl cs)
  show ?case
  proof (cases "(onu, t) = (o', t')")
    case True
    then show ?thesis using "2.prems" by (auto simp: Let_def tcont_fill_other)
  next
    case False
    then have "(onu, t) \<in> set sl" using "2.prems" by auto
    moreover from this have "tc_slot m t onu \<noteq> tc_slot m t' o'" using "2.prems"(1)
      by (metis (no_types, lifting) case_prod_conv distinct.simps(2) image_eqI list.simps(9) set_map)
    ultimately show ?thesis using 2 by (simp add: Let_def)
  qed
qed simp

lemma tcont_slots_set: "set (tcont_slots m) = {..<unat (m_onu m)} \<times> {..<unat (m_tc m)}"
  by (auto simp: tcont_slots_def)

lemma tcont_slots_distinct: "distinct (map (\<lambda>(onu, t). tc_slot (dba_map_of md) t onu) (tcont_slots (dba_map_of md)))"
proof -
  have "distinct (tcont_slots m)" for m
    using distinct_product [of "[0..<unat (m_onu m)]" "[0..<unat (m_tc m)]"]
    by (simp add: tcont_slots_def product_concat_map)
  then show ?thesis using tc_slot_bij [of md] unfolding distinct_map tcont_slots_set
    by (auto simp: bij_betw_def)
qed

lemma tcont_init_at:
  assumes "length (tc_cfg s) = 128" "onu < unat (m_onu (dba_map_of (c32 (tc_mode (dba_tcont_init dev s)))))"
    "t < unat (m_tc (dba_map_of (c32 (tc_mode (dba_tcont_init dev s)))))"
  shows "\<exists>v. tc_mode (dba_tcont_init dev s) = c8 v \<and>
    tc_cfg (dba_tcont_init dev s) ! tc_slot (dba_map_of (c32 (c8 v))) t onu =
      tcont_default (dba_map_of (c32 (c8 v))) v onu t
        (tc_cfg s ! tc_slot (dba_map_of (c32 (c8 v))) t onu)"
proof -
  let ?v = "dev (dba_io s) FTTR_MAP_MODE"
  have "tc_mode (dba_tcont_init dev s) = c8 ?v" by (simp add: dba_tcont_init_def fttr_rd_eq Let_def)
  moreover have "tc_cfg (dba_tcont_init dev s) = tcont_fill (dba_map_of (c32 (c8 ?v))) ?v
      (tcont_slots (dba_map_of (c32 (c8 ?v)))) (tc_cfg s)"
    by (simp add: dba_tcont_init_def fttr_rd_eq Let_def)
  ultimately show ?thesis
    using assms tcont_fill_at [OF tcont_slots_distinct, of onu t "c32 (c8 ?v)" "tc_cfg s" ?v]
      tc_slot_less [of onu "c32 (c8 ?v)" t] by (auto simp: tcont_slots_set)
qed

lemma tcont_init_wf: "dba_wf s \<Longrightarrow> dba_wf (dba_tcont_init dev s)"
  by (simp add: dba_tcont_init_def fttr_rd_eq Let_def dba_wf_def)

lemma tcont_load_wf: "dba_wf s \<Longrightarrow> dba_wf (dba_tcont_load s)"
  by (auto simp: dba_tcont_load_def dba_wf_def ring_ok_def rpt_rd_def rpt_wr_def set_zip Ball_def)

section \<open>Host mail\<close>

lemma upd_onu_length [simp]: "length (upd_onu md onu f cs) = length cs"
  by (simp add: upd_onu_def)

lemma mail_set_faults:
  assumes "dba_wf s"
  shows "dba_mail_set dev m s = Inl f \<longleftrightarrow>
      ml_func_id m \<in> {6, 7, 8} \<and> 128 \<le> ml_tcont_id m \<and> f = Tcont_outside (unat (ml_tcont_id m)) \<or>
      ml_func_id m = 19 \<and> 64 \<le> ml_onu_id m \<and> f = Onu_outside (unat (ml_onu_id m))"
proof -
  have l: "length (tc_cfg s) = 128" "length (dba_onu_tx_burst s) = 64" using assms by (auto simp: dba_wf_def)
  show ?thesis
    by (auto simp: dba_mail_set_def upd_tcont_def Let_def l word_le_nat_alt)
qed

lemma mail_set_wf: "dba_wf s \<Longrightarrow> dba_mail_set dev m s = Inr s' \<Longrightarrow> dba_wf s'"
  by (auto simp: dba_mail_set_def upd_tcont_def Let_def dba_wf_def fttr_wr_def reg_rd_def split: if_splits)

lemma mail_faults:
  assumes "dba_wf s"
  shows "dba_mail_handler dev m s = Inl f \<longleftrightarrow>
      ml_func_type m = 1 \<and> ml_func_id m \<in> {6, 7, 8} \<and> 128 \<le> ml_tcont_id m \<and>
        f = Tcont_outside (unat (ml_tcont_id m)) \<or>
      (ml_func_type m = 1 \<and> ml_func_id m = 19 \<or> ml_func_type m = 3 \<and> ml_func_id m = 20) \<and>
        64 \<le> ml_onu_id m \<and> f = Onu_outside (unat (ml_onu_id m))"
    "dba_mail_handler dev m s = Inr (r, m', s') \<Longrightarrow> r = 1 \<and> dba_wf s'"
proof -
  have l: "length (dba_onu_tx_burst s) = 64" using assms by (auto simp: dba_wf_def)
  have g: "dba_mail_get dev m s = Inl f \<longleftrightarrow>
      ml_func_id m = 20 \<and> 64 \<le> ml_onu_id m \<and> f = Onu_outside (unat (ml_onu_id m))"
    by (auto simp: dba_mail_get_def l word_le_nat_alt fttr_rd_eq)
  show "dba_mail_handler dev m s = Inl f \<longleftrightarrow>
      ml_func_type m = 1 \<and> ml_func_id m \<in> {6, 7, 8} \<and> 128 \<le> ml_tcont_id m \<and>
        f = Tcont_outside (unat (ml_tcont_id m)) \<or>
      (ml_func_type m = 1 \<and> ml_func_id m = 19 \<or> ml_func_type m = 3 \<and> ml_func_id m = 20) \<and>
        64 \<le> ml_onu_id m \<and> f = Onu_outside (unat (ml_onu_id m))"
    using mail_set_faults [OF assms, of dev m f] g
    by (cases "dba_mail_set dev m s"; cases "dba_mail_get dev m s") (auto simp: dba_mail_handler_def)
  assume r: "dba_mail_handler dev m s = Inr (r, m', s')"
  then show "r = 1 \<and> dba_wf s'"
    using mail_set_wf [OF assms, of dev m] assms
    by (cases "dba_mail_set dev m s")
       (auto simp: dba_mail_handler_def dba_mail_get_def fttr_rd_eq dba_wf_def Let_def split: if_splits)
qed

lemma default_alloc_id:
  assumes "onu < unat (m_onu (dba_map_of md))" "t < unat (m_tc (dba_map_of md))"
  shows "c_alloc_id (tcont_default (dba_map_of md) v onu t c) = c16 (dba_aid_conv (of_nat onu) (of_nat t) md 5)"
proof -
  obtain k j sh where l: "layout (dba_map_of md) k j sh" using layout_map by blast
  have b: "bit onu i \<Longrightarrow> i < 8" for i
    using bit_below [of onu k i] assms(1) l by (auto simp: layout_def)
  have "of_nat onu = (c16 (c32 (c8 (of_nat onu :: u32))) :: u16)"
    by (rule bit_word_eqI) (auto simp: bit_simps bit_of_nat_iff dest: b)
  moreover have "m_tc_mask (dba_map_of md) AND c16 (push_bit (m_tc_shift (dba_map_of md)) (of_nat t :: u32)) =
      c16 (push_bit (m_tc_shift (dba_map_of md)) (of_nat t) AND c32 (m_tc_mask (dba_map_of md)))"
    by (rule bit_word_eqI) (auto simp: bit_simps bit_of_nat_iff)
  ultimately show ?thesis
    by (simp add: tcont_default_def dba_aid_conv_def Let_def unsigned_or_eq or.commute)
qed

lemma bit_3: "bit (3 :: 'a::semiring_bit_operations) k \<longleftrightarrow> bit (mask 2 :: 'a) k"
  by (simp add: mask_numeral)

lemma and_low_zero:
  fixes w :: u8
  assumes "\<And>i. bit w i \<Longrightarrow> 2 \<le> i"
  shows "w AND 3 = 0"
  by (rule bit_word_eqI)
     (auto simp: bit_and_iff bit_3 bit_mask_iff simp del: mask_numeral dest!: assms)

lemma default_flags: "c_flags (tcont_default m v onu t c) AND 3 = 0"
proof -
  have m: "(0xF0 :: u32) = push_bit 4 (mask 4)" by (simp add: mask_eq_exp_minus_1 push_bit_eq_mult)
  have "c8 (c32 (c_flags c) AND 0xF0 OR push_bit 2 (v AND 3)) AND 3 = 0"
    unfolding m by (rule and_low_zero) (auto simp: bit_simps simp del: push_bit_mask_eq)
  then show ?thesis by (simp add: tcont_default_def Let_def)
qed

section \<open>Properties\<close>



text \<open>
  The default table: whatever mode the FTTR block reports, every slot of the mode's layout gets
  its own alloc id, no valid bit, and the fixed grant of T-CONT 0 or best effort.
\<close>

theorem default_tcont_table:
  assumes "dba_wf s" "onu < unat (m_onu (dba_map_of (c32 (tc_mode (dba_tcont_init dev s)))))"
    "t < unat (m_tc (dba_map_of (c32 (tc_mode (dba_tcont_init dev s)))))"
  shows "\<exists>c. tc_cfg (dba_tcont_init dev s) ! tc_slot (dba_map_of (c32 (tc_mode (dba_tcont_init dev s)))) t onu = c \<and>
    c_alloc_id c = c16 (dba_aid_conv (of_nat onu) (of_nat t) (c32 (tc_mode (dba_tcont_init dev s))) 5) \<and>
    c_flags c AND 3 = 0 \<and>
    (c_type c, c_fix c, c_assure c, c_max c) = (if t = 0 then (1, 90, 0, 0) else (4, 0, 0, 19340))"
proof -
  obtain v where v: "tc_mode (dba_tcont_init dev s) = c8 v"
    "tc_cfg (dba_tcont_init dev s) ! tc_slot (dba_map_of (c32 (c8 v))) t onu =
      tcont_default (dba_map_of (c32 (c8 v))) v onu t
        (tc_cfg s ! tc_slot (dba_map_of (c32 (c8 v))) t onu)"
    using tcont_init_at [OF _ assms(2,3)] assms(1) by (auto simp: dba_wf_def)
  show ?thesis
    using default_alloc_id [OF assms(2,3) [unfolded v(1)], of v] default_flags
    unfolding v(1) v(2) by (auto simp: tcont_default_def Let_def)
qed

lemma boot_wf: "dba_wf (dba_boot\<lparr>dba_ctx := replicate 128 alloc_zero\<rparr>)"
  by (simp add: dba_wf_def dba_boot_def DBA_ALLOC_NUM_def ring_ok_def rpt_rd_def rpt_wr_def alloc_zero_def)

theorem default_tcont_table_witness:
  "\<exists>c. tc_cfg (dba_tcont_init (\<lambda>_ _. 1) (dba_boot\<lparr>dba_ctx := replicate 128 alloc_zero\<rparr>)) ! 53 = c \<and>
    c_alloc_id c = 0x305 \<and> c_type c = 4"
proof -
  have m: "tc_mode (dba_tcont_init (\<lambda>_ _. 1) s) = 1" for s
    by (simp add: dba_tcont_init_def fttr_rd_eq Let_def)
  have "5 < unat (m_onu (dba_map_of 1))" "3 < unat (m_tc (dba_map_of 1))" "tc_slot (dba_map_of 1) 3 5 = 53"
    "c16 (dba_aid_conv 5 3 1 5) = 0x305"
    by code_simp+
  then show ?thesis using default_tcont_table [OF boot_wf, of 5 "\<lambda>_ _. 1" 3] by (auto simp: m)
qed

text \<open>
  C19. The report ring of an alloc id keeps exactly its last two reports, whatever it held: after any
  reports, the previous and the current slot are the last two of what it held and received.
\<close>

theorem two_reports_kept:
  assumes "ring_ok a"
  shows "ring_ok (fold dba_rpt_push rs a) \<and>
    [rpt_prev (fold dba_rpt_push rs a), rpt_cur (fold dba_rpt_push rs a)] =
      drop (length rs) ([rpt_prev a, rpt_cur a] @ rs)"
  by (rule rpt_push_fold [OF assms])

theorem two_reports_kept_witness:
  "\<forall>r1 r2 r3. rpt_prev (fold dba_rpt_push [r1, r2, r3] alloc_zero) = r2 \<and>
    rpt_cur (fold dba_rpt_push [r1, r2, r3] alloc_zero) = r3"
proof -
  have "ring_ok alloc_zero" by (simp add: ring_ok_def rpt_rd_def rpt_wr_def alloc_zero_def)
  from two_reports_kept [OF this] have
    "[rpt_prev (fold dba_rpt_push [r1, r2, r3] alloc_zero), rpt_cur (fold dba_rpt_push [r1, r2, r3] alloc_zero)] =
      [r2, r3]" for r1 r2 r3 by (metis (no_types, lifting) append_Cons append_Nil drop_Suc_Cons drop0 length_Cons list.size(3))
  then show ?thesis by simp
qed

text \<open>
  C20. A drain ends after at most 80 pairs, whatever the FTTR block answers: it writes only the read
  index, at most 80 times, always with an index not past the write index it read, and it stops early
  only when the count read as zero. It leaves the tables well-formed.
\<close>

theorem drain_bounded:
  assumes "dba_wf s"
  shows "\<exists>w vs c. writes (dba_io (dba_rpt_drain dev mem s)) = writes (dba_io s) @ map (Pair FTTR_RPT_RIDX) vs \<and>
    length vs \<le> 80 \<and> Rd FTTR_RPT_WIDX w \<in> set (dba_io (dba_rpt_drain dev mem s)) \<and>
    (\<forall>v \<in> set vs. drop_bit 16 v \<le> drop_bit 16 w) \<and>
    (length vs < 80 \<longrightarrow> Rd FTTR_RPT_CNT c \<in> set (dba_io (dba_rpt_drain dev mem s)) \<and> c AND 0xFFFF = 0) \<and>
    dba_wf (dba_rpt_drain dev mem s)"
  using rpt_drain_all [of dev mem s] assms by blast

theorem drain_bounded_witness:
  "\<exists>vs. writes (dba_io (dba_rpt_drain (\<lambda>_ _. 0x50005) (\<lambda>_ _. \<lparr>h_non_idle = 0, h_bwmap_byte = 0, h_word = 0\<rparr>)
      (dba_boot\<lparr>dba_ctx := replicate 128 alloc_zero\<rparr>))) = map (Pair FTTR_RPT_RIDX) vs \<and> length vs \<le> 80"
  using drain_bounded [OF boot_wf, of "\<lambda>_ _. 0x50005" "\<lambda>_ _. \<lparr>h_non_idle = 0, h_bwmap_byte = 0, h_word = 0\<rparr>"]
  by (auto simp: dba_boot_def)


definition mail_example :: dba_mail where
  "mail_example =
     \<lparr>ml_alloc_id = 0, ml_fix_band = 0, ml_max_band = 0, ml_assure_band = 0, ml_func_type = 1,
      ml_func_id = 7, ml_get_timer_en = 0, ml_do_timer_en = 0, ml_enable = 0, ml_onu_id = 0,
      ml_state = 0, ml_sw_bwmap_test = 0, ml_dba_type = 0, ml_valid = 1, ml_fec = 0, ml_tcont_id = 200,
      ml_tcont_map_mode = 0, ml_ploamu_flag = 0, ml_reg = 0, ml_reg_val = 0, ml_olt_mode = 0,
      ml_all_band_to_single_onu = 0\<rparr>"


end
