(* ===== verification/Dba_Adapt.thy ===== *)
theory Dba_Adapt
  imports Dba_Table Dba_Grant
begin

text \<open>
  What an adaptation step of \<open>npu_dba.c\<close> leaves alone, the contract it keeps, and its one fault:
  the step count that divides in state 2 can have wrapped to zero.
\<close>

text \<open>What an adaptation step leaves alone: the configuration and the reports.\<close>

definition adapt_frame :: "dba_alloc \<Rightarrow> dba_alloc \<Rightarrow> bool" where
  "adapt_frame a b \<longleftrightarrow> a_cfg b = a_cfg a \<and> a_ring b = a_ring a \<and> a_ring_idx b = a_ring_idx a"

lemma adapt_frame_upd [simp]:
  "adapt_frame a (dba_set_state st b) = adapt_frame a b" "adapt_frame a (mark_dec b) = adapt_frame a b"
  "adapt_frame a (add_bw d b) = adapt_frame a b" "adapt_frame a (sub_bw d b) = adapt_frame a b"
  "adapt_frame a (b\<lparr>a_step := c\<rparr>) = adapt_frame a b" "adapt_frame a (b\<lparr>a_grow := c\<rparr>) = adapt_frame a b"
  "adapt_frame a (b\<lparr>a_hold := c\<rparr>) = adapt_frame a b" "adapt_frame a (b\<lparr>a_ref := r\<rparr>) = adapt_frame a b"
  "adapt_frame a (b\<lparr>a_idle_avg := d\<rparr>) = adapt_frame a b" "adapt_frame a (b\<lparr>a_state := c\<rparr>) = adapt_frame a b"
  "adapt_frame a (b\<lparr>a_bw := d\<rparr>) = adapt_frame a b" "adapt_frame a a"
  by (simp_all add: adapt_frame_def dba_set_state_def mark_dec_def add_bw_def sub_bw_def)

lemma adapt_1_frame: "adapt_frame a (adapt_1 olt w cur prev a)"
  by (simp add: adapt_1_def Let_def)

lemma adapt_2_frame: "adapt_2 olt w cur prev a = Inr b \<Longrightarrow> adapt_frame a b"
  by (clarsimp simp: adapt_2_def Let_def split: if_splits)

lemma adapt_3_frame: "adapt_frame a (adapt_3 olt w cur prev a)"
  by (simp add: adapt_3_def adapt_3_trim_def Let_def)

lemma adapt_4_frame: "adapt_frame a (adapt_4 olt cur a)"
  by (simp add: adapt_4_def adapt_4_grow_def Let_def)

lemma adapt_5_frame: "adapt_frame a (adapt_5 olt w cur prev a)"
  by (simp add: adapt_5_def Let_def)

lemma adapt_0_frame: "adapt_frame a (adapt_0 olt w cur a)"
  by (simp add: adapt_0_def)

lemma adapt_state_frame: "adapt_state olt w cur prev a = Inr b \<Longrightarrow> adapt_frame a b"
  using adapt_1_frame adapt_2_frame adapt_3_frame adapt_4_frame adapt_5_frame adapt_0_frame
  by (auto simp: adapt_state_def split: if_splits)

text \<open>The only fault: the step count wrapped to zero where it divides.\<close>

lemma adapt_2_fault:
  "adapt_2 olt w cur prev a = Inl f \<longleftrightarrow> f = Step_zero \<and> a_step a = 254 \<and>
     c16 (drop_bit 1 (c32 cur + c32 prev)) \<le> a_ref a \<and> (is_dec a \<or> 1 < acc w)"
proof -
  have "a_step a + 2 = 0 \<longleftrightarrow> a_step a = - 2" by (simp add: add_eq_0_iff2)
  moreover have "(- 2 :: u8) = 254" by simp
  ultimately have "a_step a + 2 = 0 \<longleftrightarrow> a_step a = 254" by simp
  moreover have "is_dec (mark_dec b)" for b
    by (simp add: is_dec_def mark_dec_def DBA_ST_DEC_def)
  moreover have "is_dec (b\<lparr>a_step := x\<rparr>) = is_dec b" for b x by (simp add: is_dec_def)
  moreover have "a_step (mark_dec b) = a_step b" "a_ref (mark_dec b) = a_ref b" for b
    by (simp_all add: mark_dec_def)
  ultimately show ?thesis
    by (auto simp: adapt_2_def Let_def not_less split: if_splits)
qed

definition first_tcont :: "tcont_cfg \<Rightarrow> bool" where
  "first_tcont c \<longleftrightarrow>
     (if drop_bit 2 (c_flags c) AND 3 = 3 then c_alloc_id c AND NOT 63 = 0 else c_alloc_id c AND NOT 31 = 0)"

text \<open>The most a contract allows; \<open>None\<close> for a type without one.\<close>

definition contract_max :: "bool \<Rightarrow> tcont_cfg \<Rightarrow> u32 option" where
  "contract_max dual c =
     (let lim = (if dual then c_max c * 2 else c_max c)
      in if c_type c = 3 \<or> c_type c = 4 then Some lim
         else if c_type c = 5 then Some (max lim (c_fix c))
         else if c_type c = 2 then Some (c_assure c) else None)"

lemma type_window: "(t :: u8) - 3 \<le> 2 \<longleftrightarrow> t = 3 \<or> t = 4 \<or> t = 5"
proof
  assume "t - 3 \<le> 2"
  then have "unat (t - 3) = 0 \<or> unat (t - 3) = 1 \<or> unat (t - 3) = 2" by (auto simp: word_le_nat_alt)
  then have "t - 3 = 0 \<or> t - 3 = 1 \<or> t - 3 = 2" by (auto simp: word_unat_eq_iff)
  then show "t = 3 \<or> t = 4 \<or> t = 5" by (auto simp: diff_eq_eq)
qed auto

lemma contract_bw_max: "contract_max dual c = Some m \<Longrightarrow> contract_bw dual c bw \<le> m"
  unfolding contract_max_def contract_bw_def type_window Let_def
  by (simp add: le_max_iff_disj split: if_splits) auto

lemma clamp_type_bw:
  "a_bw (clamp_type dual a) = contract_bw dual (a_cfg a) (if a_bw a <s 2 then 2 else a_bw a)"
  by (simp add: clamp_type_def Let_def)

lemma clamp_type_frame: "adapt_frame a (clamp_type dual a)"
  by (simp add: clamp_type_def Let_def)

lemma clamp_floor_eq:
  "clamp_floor dual a =
     (if \<not> first_tcont (a_cfg a) then a
      else if dual then (if a_bw a <=s 14 then a\<lparr>a_bw := 15\<rparr> else if 192 <s a_bw a then a\<lparr>a_bw := 192\<rparr> else a)
      else if a_bw a <s 27 then a\<lparr>a_bw := 27\<rparr> else a)"
  by (simp add: clamp_floor_def first_tcont_def Let_def)

lemma clamp_floor_frame: "adapt_frame a (clamp_floor dual a)"
  by (simp add: clamp_floor_eq)


lemma adapt_cases:
  assumes "dba_alloc_adapt dual olt a = Inr b" "dual \<or> rpt_rd a \<noteq> rpt_wr a"
  obtains c where "adapt_frame a c"
    "b = clamp_floor dual ((clamp_type dual c)\<lparr>a_ring_idx := (a_ring_idx a AND 0xF0) OR of_nat (rpt_wr a)\<rparr>)"
proof -
  let ?w = "if dual then view_dual a else view_single a"
  obtain c where c: "adapt_state olt ?w (r_dbru (a_ring a ! rpt_wr a)) (r_dbru (a_ring a ! rpt_rd a))
      (a\<lparr>a_idle_avg := drop_bit 1 (acc ?w)\<rparr>) = Inr c"
    "b = clamp_floor dual ((clamp_type dual c)\<lparr>a_ring_idx := (a_ring_idx (clamp_type dual c) AND 0xF0) OR of_nat (rpt_wr a)\<rparr>)"
    using assms by (auto simp: dba_alloc_adapt_def Let_def split: sum.splits if_splits)
  have "adapt_frame a c" using adapt_state_frame [OF c(1)] by (simp add: adapt_frame_def)
  moreover from this have "a_ring_idx (clamp_type dual c) = a_ring_idx a"
    using clamp_type_frame [of c dual] by (simp add: adapt_frame_def)
  ultimately show thesis using that c(2) by simp
qed

lemma ring_idx_caught_up:
  assumes "ring_ok a" "a_ring b = a_ring a" "a_ring_idx b = (a_ring_idx a AND 0xF0) OR of_nat (rpt_wr a)"
  shows "ring_ok b" "rpt_wr b = rpt_wr a" "rpt_rd b = rpt_wr a"
proof -
  have c: "rpt_wr a = 0 \<or> rpt_wr a = 1" using assms(1) by (auto simp: ring_ok_def)
  have m: "(0xF0 :: u8) = push_bit 4 (mask 4)" "(0xF :: u8) = mask 4"
    by (simp_all add: mask_eq_exp_minus_1 push_bit_eq_mult)
  have "a_ring_idx b AND 0xF = of_nat (rpt_wr a) AND 0xF"
    unfolding assms(3) m by (rule bit_word_eqI) (auto simp: bit_simps simp del: push_bit_mask_eq mask_numeral)
  moreover have "drop_bit 4 (a_ring_idx b) AND 0xF = drop_bit 4 (a_ring_idx a) AND 0xF"
  proof -
    have "drop_bit 4 (of_nat (rpt_wr a) :: u8) = 0" using c by auto
    then have "drop_bit 4 (a_ring_idx b) = drop_bit 4 (a_ring_idx a AND 0xF0)"
      unfolding assms(3) by (simp add: drop_bit_or)
    then show ?thesis unfolding m
      by simp (rule bit_word_eqI, auto simp: bit_simps simp del: push_bit_mask_eq mask_numeral)
  qed
  ultimately show w: "rpt_wr b = rpt_wr a" "rpt_rd b = rpt_wr a"
    using c by (auto simp: rpt_wr_def rpt_rd_def)
  show "ring_ok b" using assms(1,2) w by (simp add: ring_ok_def)
qed

lemma adapt_keeps:
  assumes "ring_ok a" "dba_alloc_adapt dual olt a = Inr b"
  shows "ring_ok b" "a_cfg b = a_cfg a" "a_ring b = a_ring a" "rpt_cur b = rpt_cur a" "rpt_rd b = rpt_wr b"
proof -
  have "ring_ok b \<and> a_cfg b = a_cfg a \<and> a_ring b = a_ring a \<and> rpt_cur b = rpt_cur a \<and> rpt_rd b = rpt_wr b"
  proof (cases "dual \<or> rpt_rd a \<noteq> rpt_wr a")
    case True
    obtain c where c: "adapt_frame a c"
      "b = clamp_floor dual ((clamp_type dual c)\<lparr>a_ring_idx := (a_ring_idx a AND 0xF0) OR of_nat (rpt_wr a)\<rparr>)"
      by (rule adapt_cases [OF assms(2) True])
    have f: "a_ring b = a_ring a" "a_cfg b = a_cfg a" "a_ring_idx b = (a_ring_idx a AND 0xF0) OR of_nat (rpt_wr a)"
      using c(1) clamp_type_frame [of c dual]
        clamp_floor_frame [of "(clamp_type dual c)\<lparr>a_ring_idx := (a_ring_idx a AND 0xF0) OR of_nat (rpt_wr a)\<rparr>" dual]
      unfolding c(2) by (simp_all add: adapt_frame_def)
    then show ?thesis using ring_idx_caught_up [OF assms(1) f(1,3)] by (simp add: rpt_cur_def)
  next
    case False
    then have "b = (if a_bw a = 0 then a\<lparr>a_bw := 2\<rparr> else a)"
      using assms(2) by (simp add: dba_alloc_adapt_def Let_def)
    then show ?thesis using assms(1) False by (auto simp: ring_ok_def rpt_rd_def rpt_wr_def rpt_cur_def)
  qed
  then show "ring_ok b" "a_cfg b = a_cfg a" "a_ring b = a_ring a" "rpt_cur b = rpt_cur a" "rpt_rd b = rpt_wr b" by auto
qed

lemma adapt_bw:
  assumes "dba_alloc_adapt dual olt a = Inr b" "dual \<or> rpt_rd a \<noteq> rpt_wr a"
  shows "\<exists>bw. (\<forall>m. contract_max dual (a_cfg a) = Some m \<longrightarrow> bw \<le> m) \<and>
    a_bw b = (if \<not> first_tcont (a_cfg a) then bw
      else if dual then (if bw <=s 14 then 15 else if 192 <s bw then 192 else bw)
      else if bw <s 27 then 27 else bw)"
proof -
  obtain c where c: "adapt_frame a c"
    "b = clamp_floor dual ((clamp_type dual c)\<lparr>a_ring_idx := (a_ring_idx a AND 0xF0) OR of_nat (rpt_wr a)\<rparr>)"
    by (rule adapt_cases [OF assms])
  have cfg: "a_cfg (clamp_type dual c) = a_cfg a" "a_cfg c = a_cfg a"
    using c(1) clamp_type_frame [of c dual] by (simp_all add: adapt_frame_def)
  show ?thesis
    using contract_bw_max [of dual "a_cfg a"] unfolding c(2)
    by (intro exI [of _ "a_bw (clamp_type dual c)"]) (auto simp: clamp_type_bw clamp_floor_eq cfg)
qed


lemma adapt_fault:
  assumes "dba_alloc_adapt dual olt a = Inl f"
  shows "f = Step_zero" "st_of a = 2" "a_step a = 254"
proof -
  let ?w = "if dual then view_dual a else view_single a"
  let ?a = "a\<lparr>a_idle_avg := drop_bit 1 (acc ?w)\<rparr>"
  have "adapt_state olt ?w (r_dbru (a_ring a ! rpt_wr a)) (r_dbru (a_ring a ! rpt_rd a)) ?a = Inl f"
    using assms by (auto simp: dba_alloc_adapt_def Let_def split: sum.splits if_splits)
  then show "f = Step_zero" "st_of a = 2" "a_step a = 254"
    by (auto simp: adapt_state_def adapt_2_fault st_of_def split: if_splits)
qed

section \<open>A run that divides by zero\<close>

fun adapt_run :: "bool \<Rightarrow> dba_rpt list \<Rightarrow> dba_alloc \<Rightarrow> dba_fault + dba_alloc" where
  "adapt_run olt [] a = Inr a"
| "adapt_run olt (r # rs) a =
     (case dba_alloc_adapt False olt (dba_rpt_push r a) of Inl f \<Rightarrow> Inl f | Inr a \<Rightarrow> adapt_run olt rs a)"

lemma adapt_run_append:
  "adapt_run olt (rs @ rs') a = (case adapt_run olt rs a of Inl f \<Rightarrow> Inl f | Inr b \<Rightarrow> adapt_run olt rs' b)"
  by (induction rs arbitrary: a) (auto split: sum.split)

definition rpt :: "u16 \<Rightarrow> u16 \<Rightarrow> u16 \<Rightarrow> dba_rpt" where
  "rpt i b d = \<lparr>r_non_idle = i, r_bwmap_byte = b, r_dbru = d\<rparr>"

text \<open>A best-effort T-CONT 1 whose grants go unused while it is in state 5.\<close>

definition unused :: "u8 \<Rightarrow> u8 \<Rightarrow> s32 \<Rightarrow> u8 \<Rightarrow> dba_alloc" where
  "unused i st b x =
     \<lparr>a_cfg = \<lparr>c_flags = 1, c_alloc_id = 0x105, c_type = 4, c_fix = 0, c_assure = 0, c_max = 19340\<rparr>,
      a_ring_idx = i, a_step = st, a_grow = 0, a_hold = 0, a_ring = [rpt 8 25 0, rpt 8 25 0], a_bw = b,
      a_ref = 0, a_idle_avg = 0, a_state = x\<rparr>"

lemma bw_tenth_big:
  assumes "unat b < 20000"
  shows "unat (bw_tenth b) = unat b div 10 + 16"
proof -
  have b: "sint b = int (unat b)" using assms by (intro sint_small) simp
  have "sint (sdivc b 10) = int (unat b) div 10" using sdivc_pos [of b 10] b by simp
  also have "\<dots> = int (unat b div 10)" by (simp add: zdiv_int)
  finally have "unat (sdivc b 10) = unat b div 10" 
    using sint_nonneg [of "sdivc b 10"] by (metis of_nat_0_le_iff of_nat_eq_iff)
  then show ?thesis using assms by (simp add: bw_tenth_def unat_add_small)
qed

lemma unused_push:
  "dba_rpt_push (rpt 8 25 0) (unused 0 st b x) = unused 0x10 st b x"
  "dba_rpt_push (rpt 8 25 0) (unused 0x11 st b x) = unused 0x01 st b x"
  by (simp_all add: unused_def dba_rpt_push_def Let_def)

lemma unused_view:
  assumes "i = 0x10 \<or> i = 0x01"
  shows "view_single (unused i st b 0x45) = \<lparr>gap_r = 17, gap_w = 17, need = 0, acc = 34\<rparr>"
    "rpt_rd (unused i st b x) \<noteq> rpt_wr (unused i st b x)" "st_of (unused i st b 0x45) = 5"
    "(i AND 0xF0) OR of_nat (rpt_wr (unused i st b x)) = (if i = 0x10 then 0x11 else 0)"
    "r_dbru (a_ring (unused i st b x) ! rpt_rd (unused i st b x)) = 0"
    "r_dbru (a_ring (unused i st b x) ! rpt_wr (unused i st b x)) = 0"
  using assms by (auto simp: view_single_def gap_one_def rpt_rd_def rpt_wr_def unused_def rpt_def st_of_def
      DBA_ST_MASK_def Let_def)

lemma unused_shrink:
  assumes "\<not> st + 2 \<le> 7" "\<not> bw_tenth b * 2 < 2" "2 < bw_tenth b"
  shows "adapt_5 False \<lparr>gap_r = 17, gap_w = 17, need = 0, acc = 34\<rparr> 0 0 ((unused i st b 0x45)\<lparr>a_idle_avg := 17\<rparr>) =
    unused i (st + 2) (b - 2) 0x45"
  using assms by (simp add: adapt_5_def unused_def Let_def olt_half_def sub_bw_def mark_dec_def DBA_ST_DEC_def)

lemma unused_step:
  assumes "i = 0 \<or> i = 0x11" "6 \<le> unat st" "unat st \<le> 252" "9 \<le> unat b" "unat b < 1000"
  shows "dba_alloc_adapt False False (dba_rpt_push (rpt 8 25 0) (unused i st b 0x45)) =
    Inr (unused (0x11 - i) (st + 2) (b - 2) (if unat b \<le> 10 then 0x40 else 0x45))"
proof -
  have st: "\<not> st + 2 \<le> 7" using assms(2,3) by (simp add: word_le_nat_alt unat_add_small)
  have d: "\<not> bw_tenth b * 2 < 2" "2 < bw_tenth b"
  proof -
    have "unat (bw_tenth b) = unat b div 10 + 16" using assms(5) by (intro bw_tenth_big) simp
    moreover from this have "unat (bw_tenth b * 2) = unat (bw_tenth b) * 2"
      using assms(5) by (simp add: unat_word_ariths)
    ultimately show "\<not> bw_tenth b * 2 < 2" "2 < bw_tenth b" by (simp_all add: word_less_nat_alt)
  qed
  have u: "unat (b - 2) = unat b - 2" using assms(4) unat_sub_small [of 2 b] by (simp add: word_le_nat_alt)
  then have sb: "sint (b - 2) = int (unat b - 2)" using sint_small [of "b - 2"] assms(5) by simp
  have c: "b - 2 <=s 8 \<longleftrightarrow> unat b \<le> 10" "\<not> b - 2 <s 2" "\<not> 19340 < b - 2"
  proof -
    define n where "n = unat b"
    have n: "9 \<le> n" "n < 1000" "unat (b - 2) = n - 2" "sint (b - 2) = int n - 2"
      using assms(4,5) u sb unfolding n_def [symmetric] by auto
    show "b - 2 <=s 8 \<longleftrightarrow> unat b \<le> 10" "\<not> b - 2 <s 2" "\<not> 19340 < b - 2"
      unfolding n_def [symmetric] using n by (auto simp: word_sle_eq word_sless_alt word_less_nat_alt)
  qed
  define j :: u8 where "j = (if i = 0 then 0x10 else 0x01)"
  have j: "j = 0x10 \<or> j = 0x01" "dba_rpt_push (rpt 8 25 0) (unused i st b 0x45) = unused j st b 0x45"
    using assms(1) unused_push by (auto simp: j_def)
  let ?c = "unused j (st + 2) (b - 2) 0x45"
  have "adapt_state False \<lparr>gap_r = 17, gap_w = 17, need = 0, acc = 34\<rparr> 0 0
      ((unused j st b 0x45)\<lparr>a_idle_avg := drop_bit 1 34\<rparr>) = Inr ?c"
    using unused_shrink [OF st d, of j] unused_view(3) [OF j(1)] by (simp add: adapt_state_def st_of_def)
  then have "dba_alloc_adapt False False (unused j st b 0x45) =
      Inr (clamp_floor False ((clamp_type False ?c)\<lparr>a_ring_idx :=
        (a_ring_idx (clamp_type False ?c) AND 0xF0) OR of_nat (rpt_wr (unused j st b 0x45))\<rparr>))"
    using unused_view [OF j(1)] by (simp add: dba_alloc_adapt_def Let_def)
  moreover have "clamp_type False ?c = unused j (st + 2) (b - 2) (if unat b \<le> 10 then 0x40 else 0x45)"
    using c by (simp add: clamp_type_def contract_bw_def unused_def DBA_ST_MASK_def)
  moreover have "(unused j (st + 2) (b - 2) y)\<lparr>a_ring_idx := k\<rparr> = unused k (st + 2) (b - 2) y" for k y
    by (simp add: unused_def)
  moreover have "clamp_floor False (unused k (st + 2) (b - 2) y) = unused k (st + 2) (b - 2) y" for k y
    by (simp add: clamp_floor_def unused_def)
  moreover have "(if j = 0x10 then 0x11 else 0) = 0x11 - i" using assms(1) by (auto simp: j_def)
  moreover have "a_ring_idx (unused j (st + 2) (b - 2) y) = j" for y by (simp add: unused_def)
  ultimately show ?thesis unfolding j(2) using unused_view(4) [OF j(1), of st b "0x45"] by simp
qed

lemma unused_run:
  "i = 0 \<or> i = 0x11 \<Longrightarrow> 6 \<le> unat st \<Longrightarrow> unat st + 2 * n \<le> 254 \<Longrightarrow> 9 + 2 * n \<le> unat b \<Longrightarrow> unat b < 1000 \<Longrightarrow>
   adapt_run False (replicate n (rpt 8 25 0)) (unused i st b 0x45) =
     Inr (unused (if even n then i else 0x11 - i) (st + of_nat (2 * n)) (b - of_nat (2 * n)) 0x45)"
proof (induction n arbitrary: i st b)
  case (Suc n)
  have b: "unat (b - 2) = unat b - 2" using Suc.prems unat_sub_small [of 2 b] by (simp add: word_le_nat_alt)
  have st: "unat (st + 2) = unat st + 2" using Suc.prems by (simp add: unat_add_small)
  have "adapt_run False (replicate n (rpt 8 25 0)) (unused (0x11 - i) (st + 2) (b - 2) 0x45) =
      Inr (unused (if even n then 0x11 - i else 0x11 - (0x11 - i)) (st + 2 + of_nat (2 * n))
        (b - 2 - of_nat (2 * n)) 0x45)"
    using Suc.prems by (intro Suc.IH) (auto simp: b st)
  then show ?case using Suc.prems unused_step [of i st b] by (simp add: algebra_simps)
qed simp

definition unused_start :: dba_alloc where
  "unused_start = alloc_zero\<lparr>a_cfg :=
     \<lparr>c_flags = 1, c_alloc_id = 0x105, c_type = 4, c_fix = 0, c_assure = 0, c_max = 19340\<rparr>\<rparr>"

lemma unused_head: "adapt_run False ([rpt 0 0 12] @ replicate 3 (rpt 8 10 0) @ replicate 10 (rpt 8 25 0)) unused_start =
   Inr (unused 0 10 251 0x45)"
  by code_simp

lemma unused_tail: "adapt_run False (replicate 3 (rpt 0 0 100)) (unused 0 254 7 0x40) = Inl Step_zero"
  by code_simp

section \<open>Properties\<close>

text \<open>
  C22. One adaptation keeps the T-CONT contract: it consumes the current report, leaves the
  configuration, and the grant is at most what the type allows; the first T-CONT of an ONU, which
  answers for the whole burst, is then kept between 15 and 192 units over two frames, or at least 27.
\<close>

theorem adapt_contract:
  assumes "ring_ok a" "dba_alloc_adapt dual olt a = Inr b" "dual \<or> rpt_rd a \<noteq> rpt_wr a"
  shows "ring_ok b \<and> a_cfg b = a_cfg a \<and> rpt_prev b = rpt_cur a \<and> rpt_cur b = rpt_cur a \<and>
    (if first_tcont (a_cfg a)
     then (if dual then 15 \<le> sint (a_bw b) \<and> sint (a_bw b) \<le> 192
           else 27 \<le> sint (a_bw b) \<and> (\<forall>m. contract_max dual (a_cfg a) = Some m \<longrightarrow> a_bw b \<le> max m 27))
     else (\<forall>m. contract_max dual (a_cfg a) = Some m \<longrightarrow> a_bw b \<le> m))"
proof -
  note k = adapt_keeps [OF assms(1,2)]
  obtain bw where bw: "\<forall>m. contract_max dual (a_cfg a) = Some m \<longrightarrow> bw \<le> m"
    "a_bw b = (if \<not> first_tcont (a_cfg a) then bw
      else if dual then (if bw <=s 14 then 15 else if 192 <s bw then 192 else bw)
      else if bw <s 27 then 27 else bw)"
    using adapt_bw [OF assms(2,3)] by blast
  show ?thesis
    using k bw by (auto simp: rpt_prev_def rpt_cur_def word_sle_eq word_sless_alt le_max_iff_disj)
qed

theorem adapt_contract_witness:
  "\<exists>b. dba_alloc_adapt False False (dba_rpt_push (rpt 0 0 1000) unused_start) = Inr b \<and> a_bw b \<le> 19340 \<and>
    r_dbru (rpt_prev b) = 1000"
proof -
  let ?a = "dba_rpt_push (rpt 0 0 1000) unused_start"
  have r: "ring_ok unused_start" by (simp add: unused_start_def ring_ok_def rpt_rd_def rpt_wr_def alloc_zero_def)
  have n: "st_of ?a \<noteq> 2" "rpt_rd ?a \<noteq> rpt_wr ?a" "\<not> first_tcont (a_cfg ?a)"
    "contract_max False (a_cfg ?a) = Some 19340" by code_simp+
  obtain b where b: "dba_alloc_adapt False False ?a = Inr b"
    using adapt_fault(2) n(1) by (cases "dba_alloc_adapt False False ?a") auto
  show ?thesis
    using adapt_contract [OF rpt_push_views(1) [OF r] b] n rpt_push_views(2) [OF r, of "rpt 0 0 1000"] b
    by (auto simp: rpt_def)
qed

text \<open>
  C23. From a fresh best-effort T-CONT 1, 139 reports lead the state machine to a division by a
  step count of zero: state 5 counts the steps of an unused grant up to 254, a grant of 8 or less
  restarts the machine without clearing them, and state 2 adds 2 before it divides.
\<close>

theorem step_count_reaches_zero:
  "adapt_run False ([rpt 0 0 12] @ replicate 3 (rpt 8 10 0) @ replicate 132 (rpt 8 25 0) @
     replicate 3 (rpt 0 0 100)) unused_start = Inl Step_zero"
proof -
  define h where "h = [rpt 0 0 12] @ replicate 3 (rpt 8 10 0) @ replicate 10 (rpt 8 25 0)"
  have "(132 :: nat) = 10 + (121 + Suc 0)" by simp
  then have "[rpt 0 0 12] @ replicate 3 (rpt 8 10 0) @ replicate 132 (rpt 8 25 0) @ replicate 3 (rpt 0 0 100) =
      h @ replicate 121 (rpt 8 25 0) @ [rpt 8 25 0] @ replicate 3 (rpt 0 0 100)"
    by (simp only: h_def replicate_add replicate_Suc replicate_0 append_assoc)
  moreover have "adapt_run False (replicate 121 (rpt 8 25 0)) (unused 0 10 251 0x45) = Inr (unused 0x11 252 9 0x45)"
    using unused_run [where i = 0 and st = 10 and n = 121 and b = 251] by simp
  moreover have "adapt_run False [rpt 8 25 0] (unused 0x11 252 9 0x45) = Inr (unused 0 254 7 0x40)"
    using unused_step [where i = "0x11" and st = 252 and b = 9] by simp
  ultimately show ?thesis
    using unused_head [folded h_def] unused_tail by (simp only: adapt_run_append sum.case)
qed

end
