(* ===== verification/Dba_Budget.thy ===== *)
theory Dba_Budget
  imports Dba_Fit Dba_Adapt Dba_Frame
begin

text \<open>
  The grants of one map against the budget: the pass over the alloc ids keeps every grant within its
  contract and the list of sharers in order of grant, and the fit brings the sum down to the
  budget, as long as no assured part is above the share; with one, the sum can exceed it.
\<close>

section \<open>One alloc id\<close>

definition small_cfg :: "tcont_cfg \<Rightarrow> bool" where
  "small_cfg c \<longleftrightarrow> unat (c_fix c) < 65536 \<and> unat (c_assure c) < 65536 \<and> unat (c_max c) < 65536"

definition fits :: "dba_alloc \<Rightarrow> bool" where
  "fits a \<longleftrightarrow> ring_ok a \<and> unat (a_bw a) < 65536 \<and> small_cfg (a_cfg a)"

definition contract_type :: "u8 \<Rightarrow> bool" where
  "contract_type t \<longleftrightarrow> t = 2 \<or> t = 3 \<or> t = 4 \<or> t = 5"

lemma adapt_fits:
  assumes "fits a" "dba_alloc_adapt False olt a = Inr b"
  shows "ring_ok b" "a_cfg b = a_cfg a" "contract_type (c_type (a_cfg a)) \<Longrightarrow> fits b"
proof -
  have r: "ring_ok a" using assms(1) by (simp add: fits_def)
  show k: "ring_ok b" "a_cfg b = a_cfg a" by (rule adapt_keeps [OF r assms(2)])+
  assume t: "contract_type (c_type (a_cfg a))"
  have "unat (a_bw b) < 65536"
  proof (cases "rpt_rd a = rpt_wr a")
    case True
    then have "b = (if a_bw a = 0 then a\<lparr>a_bw := 2\<rparr> else a)"
      using assms(2) by (simp add: dba_alloc_adapt_def Let_def)
    then show ?thesis using assms(1) by (simp add: fits_def)
  next
    case False
    obtain m where m: "contract_max False (a_cfg a) = Some m" "unat m < 65536"
      using t assms(1) by (auto simp: contract_max_def contract_type_def Let_def fits_def small_cfg_def max_def)
    have "a_bw b \<le> max m 27"
      using adapt_bw [OF assms(2)] m(1) False by (auto simp: le_max_iff_disj split: if_splits)
    then show ?thesis using m(2) by (auto simp: word_le_nat_alt max_def split: if_splits)
  qed
  then show "fits b" using k assms(1) by (simp add: fits_def)
qed

lemma fits_grant: "fits a \<Longrightarrow> sint (a_bw a) = int (unat (a_bw a))"
  by (intro sint_small) (simp add: fits_def)

lemma fits_sint: "fits a \<Longrightarrow> 0 \<le> sint (a_bw a) \<and> sint (a_bw a) < 65536"
proof -
  assume f: "fits a"
  then have "int (unat (a_bw a)) < int 65536" unfolding of_nat_less_iff by (simp add: fits_def)
  then show ?thesis using fits_grant [OF f] by (metis of_nat_0_le_iff of_nat_numeral)
qed

section \<open>The pass\<close>

definition summed :: "dba_alloc list \<Rightarrow> nat list \<Rightarrow> nat" where
  "summed ctx ls = sum_list (map (\<lambda>i. unat (a_bw (ctx ! i))) ls)"

definition valid_below :: "dba_alloc list \<Rightarrow> nat \<Rightarrow> nat list" where
  "valid_below ctx k = filter (\<lambda>i. valid (ctx ! i)) [0..<k]"

definition pass_ok :: "dba_alloc list \<Rightarrow> dba_budget \<Rightarrow> nat \<Rightarrow> request \<Rightarrow> bool" where
  "pass_ok ctx b k q \<longleftrightarrow>
     length (q_ctx q) = length ctx \<and> (\<forall>i < length ctx. fits (q_ctx q ! i) \<and> a_cfg (q_ctx q ! i) = a_cfg (ctx ! i)) \<and>
     distinct (q_list q) \<and> set (q_list q) \<subseteq> set (valid_below ctx k) \<and>
     (\<forall>i \<in> set (q_list q). grp_of (q_ctx q ! i) \<noteq> DBA_GRP_ASSURE) \<and>
     sorted (map (grant (q_ctx q)) (q_list q)) \<and> q_over q = 0 \<and> b_over_assure (q_b q) = 0 \<and>
     b_share (q_b q) = b_share b \<and> b_total (q_b q) = b_total b \<and>
     unat (b_demand (q_b q)) = summed (q_ctx q) (valid_below ctx k) \<and>
     unat (b_over_share (q_b q)) = summed (q_ctx q) (q_list q) \<and>
     (\<forall>i \<in> set (valid_below ctx k) - set (q_list q).
        c_type (a_cfg (ctx ! i)) \<in> {3, 4, 5} \<longrightarrow> unat (a_bw (q_ctx q ! i)) \<le> unat (b_share b))"

text \<open>What the grant of one alloc id does to the request.\<close>

lemma request_grant_cases:
  assumes "i < length (q_ctx q)" "ring_ok a" "small_cfg (a_cfg a)"
    "contract_type (c_type (a_cfg a)) \<longrightarrow> unat (a_bw a) < 65536"
    "c_type (a_cfg a) = 3 \<or> c_type (a_cfg a) = 5 \<longrightarrow> c_assure (a_cfg a) \<le> c32 (b_share (q_b q))"
  obtains (keep) a' where "request_grant False i a q = q\<lparr>q_ctx := (q_ctx q)[i := a']\<rparr>" "fits a'" "a_cfg a' = a_cfg a"
      "c_type (a_cfg a) \<in> {3, 4, 5} \<longrightarrow> unat (a_bw a') \<le> unat (b_share (q_b q))"
  | (share) "request_grant False i a q = request_share i a q" "fits a" "c_type (a_cfg a) \<in> {3, 4, 5}"
proof -
  let ?t = "c_type (a_cfg a)"
  have sh: "sint (c32 (b_share (q_b q))) = int (unat (b_share (q_b q)))"
    using unat_lt16 [of "b_share (q_b q)"] sint_small [of "c32 (b_share (q_b q))"] by simp
  have le: "a_bw a <=s c32 (b_share (q_b q)) \<longleftrightarrow> unat (a_bw a) \<le> unat (b_share (q_b q))"
    if "unat (a_bw a) < 65536"
  proof -
    have "sint (a_bw a) = int (unat (a_bw a))" using that by (intro sint_small) simp
    then show ?thesis by (simp only: word_sle_eq sh of_nat_le_iff)
  qed
  have fits_upd: "fits (set_grp g a)" if "fits a" for g
    using that by (simp add: fits_def set_grp_def ring_ok_def rpt_rd_def rpt_wr_def)
  show thesis
  proof (cases "contract_type ?t")
    case True
    then have f: "fits a" "unat (a_bw a) < 65536" using assms(2-4) by (auto simp: fits_def)
    consider "?t = 2" | "?t = 3 \<or> ?t = 5" | "?t = 4" using True by (auto simp: contract_type_def)
    then show thesis
    proof cases
      case 1
      then show thesis using keep [of a] f by (simp add: request_grant_def Let_def)
    next
      case 2
      have a: "c_assure (a_cfg a) \<le> c32 (b_share (q_b q))" using assms(5) 2 by blast
      show thesis
      proof (cases "a_bw a \<le> c_assure (a_cfg a) \<or> a_bw a <=s c32 (b_share (q_b q))")
        case True
        have "unat (a_bw a) \<le> unat (b_share (q_b q))"
          using True a le [OF f(2)] by (auto simp: word_le_nat_alt)
        then show thesis using keep [of a] f True 2 by (auto simp: request_grant_def Let_def)
      next
        case False
        then show thesis using share f 2 a by (auto simp: request_grant_def Let_def)
      qed
    next
      case 3
      have g: "a_bw (set_grp 0 a) = a_bw a" "a_cfg (set_grp 0 a) = a_cfg a" by (simp_all add: set_grp_def)
      show thesis
        using 3 keep [of "set_grp 0 a"] share f le [OF f(2)] fits_upd [OF f(1), of 0] g
        by (cases "a_bw a <=s c32 (b_share (q_b q))") (simp_all add: request_grant_def Let_def)
    qed
  next
    case False
    then have t: "?t \<noteq> 2" "?t \<noteq> 3" "?t \<noteq> 4" "?t \<noteq> 5" by (auto simp: contract_type_def)
    have r: "ring_ok (a\<lparr>a_bw := x\<rparr>)" for x using assms(2) by (simp add: ring_ok_def rpt_rd_def rpt_wr_def)
    show thesis
      using keep [of "a\<lparr>a_bw := (if ?t = 1 then c_fix (a_cfg a) else 2)\<rparr>"] r assms(3) t
      by (auto simp: request_grant_def Let_def fits_def small_cfg_def)
  qed
qed


lemma summed_update: "i \<notin> set ls \<Longrightarrow> summed (ctx[i := a]) ls = summed ctx ls"
  unfolding summed_def by (rule arg_cong [where f = sum_list], rule map_cong) (auto, metis nth_list_update_neq)

lemma summed_le: "\<forall>i \<in> set ls. unat (a_bw (ctx ! i)) < 65536 \<Longrightarrow> summed ctx ls \<le> length ls * 65535"
proof (induction ls)
  case (Cons i ls)
  then show ?case by (simp add: summed_def)
qed (simp add: summed_def)

lemma summed_append [simp]: "summed ctx (xs @ ys) = summed ctx xs + summed ctx ys" "summed ctx [i] = unat (a_bw (ctx ! i))"
    "summed ctx [] = 0"
  by (simp_all add: summed_def)

lemma summed_mset: "mset xs = mset ys \<Longrightarrow> summed ctx xs = summed ctx ys"
  unfolding summed_def by (metis mset_map sum_mset_sum_list)

text \<open>One more alloc id in the list, in its place.\<close>

lemma request_share_sorted:
  assumes "\<forall>j \<in> set (q_list q). j \<noteq> i \<and> j < length (q_ctx q) \<and> fits (q_ctx q ! j)" "fits a"
    "i < length (q_ctx q)" "sorted (map (grant (q_ctx q)) (q_list q))"
  shows "mset (q_list (request_share i a q)) = add_mset i (mset (q_list q)) \<and>
    sorted (map (grant (q_ctx (request_share i a q))) (q_list (request_share i a q)))"
proof -
  let ?c = "(q_ctx q)[i := set_grp DBA_GRP_SHARE a]"
  let ?ls = "q_list q"
  have gi: "a_bw (?c ! i) = a_bw a" using assms(3) by (simp add: set_grp_def)
  have other: "grant ?c j = grant (q_ctx q) j" if "j \<in> set ?ls" for j
    using assms(1) that by (metis grant_def nth_list_update_neq)
  then have m: "map (grant ?c) ?ls = map (grant (q_ctx q)) ?ls" by simp
  have key: "sint (c32 (c16 (a_bw (?c ! i)))) = grant ?c i"
    using fits_sint [OF assms(2)] unfolding gi grant_def by (intro key_of_grant) auto
  let ?stop = "\<lambda>j. a_bw (?c ! j) <=s c32 (c16 (a_bw (?c ! i)))"
  have s: "\<exists>ys. sink ?stop i 0 (length ?ls) (?ls @ [i]) = ys \<and>
      mset ys = mset (?ls @ [i]) \<and> sorted (map (grant ?c) ys)"
    using sink_sort [where f = "grant ?c" and xs = ?ls and stop = ?stop and x = i and pre = "[]"] assms(4)
    by (simp add: m key word_sle_eq flip: grant_def)
  have "\<exists>ys. dba_sort_bw ?c (?ls @ [i]) (length ?ls + 1) 0 = ys \<and>
      mset ys = mset (?ls @ [i]) \<and> sorted (map (grant ?c) ys)"
  proof (cases "?ls = []")
    case True
    then show ?thesis by (simp add: dba_sort_bw_def)
  next
    case False
    then show ?thesis using s by (simp add: dba_sort_bw_def Let_def nth_append)
  qed
  then show ?thesis by (simp add: request_share_def Let_def)
qed

lemma valid_below_Suc: "valid_below ctx (Suc k) = valid_below ctx k @ (if valid (ctx ! k) then [k] else [])"
  by (simp add: valid_below_def)

lemma valid_below_less: "i \<in> set (valid_below ctx k) \<Longrightarrow> i < k"
  by (simp add: valid_below_def)

lemma valid_cfg: "a_cfg a = a_cfg b \<Longrightarrow> valid a = valid b"
  by (simp add: valid_def)

lemma pass_sum_bound:
  assumes "pass_ok ctx b k q" "k < length ctx" "length ctx \<le> 128"
  shows "summed (q_ctx q) (valid_below ctx k) + 65536 \<le> 128 * 65536"
    "summed (q_ctx q) (q_list q) + 65536 \<le> 128 * 65536"
proof -
  have l: "length (valid_below ctx k) \<le> k" unfolding valid_below_def by (metis length_filter_le length_upt minus_nat.diff_0)
  have f: "\<forall>i < length ctx. unat (a_bw (q_ctx q ! i)) < 65536" using assms(1) by (auto simp: pass_ok_def fits_def)
  have "summed (q_ctx q) (valid_below ctx k) \<le> length (valid_below ctx k) * 65535"
    using f valid_below_less assms(2) by (intro summed_le) force
  also have "\<dots> \<le> 127 * 65535" using l assms(2,3) by (intro mult_le_mono) auto
  finally show "summed (q_ctx q) (valid_below ctx k) + 65536 \<le> 128 * 65536" by simp
  have "distinct (q_list q)" "set (q_list q) \<subseteq> set (valid_below ctx k)" using assms(1) by (auto simp: pass_ok_def)
  then have "card (set (q_list q)) = length (q_list q)" "card (set (q_list q)) \<le> card (set (valid_below ctx k))"
    using distinct_card [of "q_list q"] card_mono [of "set (valid_below ctx k)" "set (q_list q)"] by blast+
  then have "length (q_list q) \<le> k" using l card_length [of "valid_below ctx k"] by linarith
  moreover have "summed (q_ctx q) (q_list q) \<le> length (q_list q) * 65535"
  proof (rule summed_le, rule ballI)
    fix i assume "i \<in> set (q_list q)"
    then have "i \<in> set (valid_below ctx k)" using assms(1) by (auto simp: pass_ok_def)
    then show "unat (a_bw (q_ctx q ! i)) < 65536" using f assms(2) valid_below_less [of i ctx k] by simp
  qed
  ultimately have "summed (q_ctx q) (q_list q) \<le> 127 * 65535" using assms(2,3) by linarith
  then show "summed (q_ctx q) (q_list q) + 65536 \<le> 128 * 65536" by simp
qed

lemma fits_set_grp: "fits a \<Longrightarrow> fits (a\<lparr>a_state := st\<rparr>)"
  by (simp add: fits_def ring_ok_def rpt_rd_def rpt_wr_def)

lemma grp_of_set: "grp_of (set_grp DBA_GRP_SHARE a) \<noteq> DBA_GRP_ASSURE"
proof -
  have "bit (grp_of (set_grp DBA_GRP_SHARE a)) 3" "\<not> bit DBA_GRP_ASSURE 3"
    by (simp_all add: grp_of_def set_grp_def DBA_GRP_SHARE_def DBA_GRP_MASK_def DBA_GRP_ASSURE_def bit_simps)
  then show ?thesis by metis
qed

lemma request_one_ok:
  assumes ok: "pass_ok ctx b k q" and k: "k < length ctx" "length ctx \<le> 128"
    and sh: "valid (ctx ! k) \<Longrightarrow> c_type (a_cfg (ctx ! k)) \<in> {3, 5} \<Longrightarrow> c_assure (a_cfg (ctx ! k)) \<le> c32 (b_share b)"
    and one: "request_one False olt k q = Inr q'"
  shows "pass_ok ctx b (Suc k) q'"
proof (cases "valid (ctx ! k)")
  case False
  moreover have "valid (q_ctx q ! k) = valid (ctx ! k)" using ok k by (intro valid_cfg) (simp add: pass_ok_def)
  ultimately have "q' = q" using one by (simp add: request_one_def Let_def)
  then show ?thesis using ok False by (simp add: pass_ok_def valid_below_Suc)
next
  case True
  note ok' = ok [unfolded pass_ok_def]
  let ?q = "q\<lparr>q_left := q_left q + 1\<rparr>"
  have v: "valid (q_ctx q ! k)" using True valid_cfg [of "q_ctx q ! k" "ctx ! k"] ok' k by simp
  obtain a where a: "(if c_type (a_cfg (q_ctx q ! k)) \<noteq> 1 then dba_alloc_adapt False olt (q_ctx q ! k)
        else Inr (q_ctx q ! k)) = Inr a"
      and q': "q' = add_demand k (request_grant False k a ?q)"
    using one v by (auto simp: request_one_def Let_def split: sum.splits)
  have fk: "fits (q_ctx q ! k)" "a_cfg (q_ctx q ! k) = a_cfg (ctx ! k)" using ok' k by auto
  have ar: "ring_ok a" "a_cfg a = a_cfg (ctx ! k)" "contract_type (c_type (a_cfg a)) \<Longrightarrow> fits a"
    using a adapt_fits [OF fk(1), of olt a] fk by (auto simp: fits_def split: if_splits)
  have sm: "small_cfg (a_cfg a)" using fk ar(2) by (simp add: fits_def)
  have nk: "k \<notin> set (valid_below ctx k)" using valid_below_less by blast
  have lk: "k \<notin> set (q_list q)" using nk ok' by blast
  have b: "b_share (q_b ?q) = b_share b" using ok' by simp
  note sums = pass_sum_bound [OF ok k]
  have k': "k < length (q_ctx ?q)" using ok' k by simp
  have lt: "contract_type (c_type (a_cfg a)) \<longrightarrow> unat (a_bw a) < 65536" using ar(3) by (simp add: fits_def)
  have as: "c_type (a_cfg a) = 3 \<or> c_type (a_cfg a) = 5 \<longrightarrow> c_assure (a_cfg a) \<le> c32 (b_share (q_b ?q))"
    using sh True ar(2) b by auto
  have vb: "valid_below ctx (Suc k) = valid_below ctx k @ [k]" using True by (simp add: valid_below_Suc)
  from request_grant_cases [OF k' ar(1) sm lt as] show ?thesis
  proof cases
    case (1 a')
    let ?c = "(q_ctx q)[k := a']"
    have "unat (a_bw a') < 65536" using 1(2) by (simp add: fits_def)
    then have d: "unat (b_demand (q_b q) + a_bw a') = summed (q_ctx q) (valid_below ctx k) + unat (a_bw a')"
      using sums(1) ok' by (subst unat_add_lem [THEN iffD1]) simp_all
    have su: "summed ?c (valid_below ctx k) = summed (q_ctx q) (valid_below ctx k)"
        "summed ?c (q_list q) = summed (q_ctx q) (q_list q)"
      using nk lk by (simp_all add: summed_update)
    have oth: "?c ! i = q_ctx q ! i" if "i \<in> set (valid_below ctx k)" for i using that nk by (metis nth_list_update_neq)
    have g: "map (grant ?c) (q_list q) = map (grant (q_ctx q)) (q_list q)" using lk ok' oth by (auto simp: grant_def)
    have q'_eq: "q' = q\<lparr>q_left := q_left q + 1, q_ctx := ?c, q_b := (q_b q)\<lparr>b_demand := b_demand (q_b q) + a_bw a'\<rparr>\<rparr>"
      unfolding q' 1(1) add_demand_def using k' by simp
    have fits': "\<forall>i < length ctx. fits (?c ! i) \<and> a_cfg (?c ! i) = a_cfg (ctx ! i)"
      using ok' k 1(2,3) ar(2) by (simp add: nth_list_update)
    have sub: "set (q_list q) \<subseteq> set (valid_below ctx k)" using ok' by blast
    have rest: "\<forall>i \<in> set (valid_below ctx (Suc k)) - set (q_list q).
        c_type (a_cfg (ctx ! i)) \<in> {3, 4, 5} \<longrightarrow> unat (a_bw (?c ! i)) \<le> unat (b_share b)"
      using ok' oth 1(4) ar(2) b k' by (auto simp: vb)
    have grp: "\<forall>i \<in> set (q_list q). grp_of (?c ! i) \<noteq> DBA_GRP_ASSURE" using ok' oth sub by (auto dest!: subsetD)
    have so: "sorted (map (grant ?c) (q_list q))" unfolding g using ok' by blast
    have sub': "set (q_list q) \<subseteq> set (valid_below ctx (Suc k))" using sub by (auto simp: vb)
    have de: "unat (b_demand (q_b q) + a_bw a') = summed ?c (valid_below ctx (Suc k))"
      using d su(1) k' by (simp add: vb)
    show ?thesis
      unfolding pass_ok_def q'_eq using ok' sub' fits' rest grp so de su(2) by simp
  next
    case 2
    let ?r = "request_share k a ?q"
    let ?c = "(q_ctx q)[k := set_grp DBA_GRP_SHARE a]"
    have ctx: "q_ctx ?r = ?c" by (simp add: request_share_def Let_def)
    have fa: "fits a" "a_bw (?c ! k) = a_bw a" using 2(2) k' by (simp_all add: set_grp_def)
    have old: "\<forall>j \<in> set (q_list ?q). j \<noteq> k \<and> j < length (q_ctx ?q) \<and> fits (q_ctx ?q ! j)"
      using lk ok' k valid_below_less [of _ ctx k] by (force dest!: subsetD)
    obtain m: "mset (q_list ?r) = add_mset k (mset (q_list q))"
      and so: "sorted (map (grant ?c) (q_list ?r))"
      using request_share_sorted [OF old fa(1) k'] ok' unfolding ctx by simp
    have sm: "set (q_list ?r) = insert k (set (q_list q))" using m by (metis set_mset_add_mset_insert set_mset_mset)
    have di: "distinct (q_list ?r)" using m lk ok' by (metis distinct_count_atmost_1 distinct.simps(2) mset.simps(2) mset_eq_imp_distinct_iff)
    have "unat (a_bw a) < 65536" using fa by (simp add: fits_def)
    then have d: "unat (b_demand (q_b q) + a_bw a) = summed (q_ctx q) (valid_below ctx k) + unat (a_bw a)"
        "unat (b_over_share (q_b q) + a_bw a) = summed (q_ctx q) (q_list q) + unat (a_bw a)"
      using sums ok' by (subst unat_add_lem [THEN iffD1]; simp)+
    have su: "summed ?c (valid_below ctx k) = summed (q_ctx q) (valid_below ctx k)"
        "summed ?c (q_list q) = summed (q_ctx q) (q_list q)"
      using nk lk by (simp_all add: summed_update)
    have oth: "?c ! i = q_ctx q ! i" if "i \<in> set (valid_below ctx k)" for i using that nk by (metis nth_list_update_neq)
    have q'_eq: "q' = ?r\<lparr>q_b := (q_b ?r)\<lparr>b_demand := b_demand (q_b q) + a_bw a\<rparr>\<rparr>"
      unfolding q' 2(1) add_demand_def using fa(2) by (simp add: request_share_def Let_def)
    have b': "q_b ?r = (q_b q)\<lparr>b_over_share := b_over_share (q_b q) + a_bw a\<rparr>" "q_over ?r = q_over q"
      by (simp_all add: request_share_def Let_def)
    have sub: "set (q_list q) \<subseteq> set (valid_below ctx k)" using ok' by blast
    have fits': "\<forall>i < length ctx. fits (?c ! i) \<and> a_cfg (?c ! i) = a_cfg (ctx ! i)"
      using ok' k fits_set_grp [OF fa(1)] ar(2) by (simp add: nth_list_update set_grp_def)
    have grp: "\<forall>i \<in> set (q_list ?r). grp_of (?c ! i) \<noteq> DBA_GRP_ASSURE"
      using ok' oth sub k' by (auto simp: sm grp_of_set dest!: subsetD)
    have sub': "set (q_list ?r) \<subseteq> set (valid_below ctx (Suc k))" using sub by (auto simp: vb sm)
    have de: "unat (b_demand (q_b q) + a_bw a) = summed ?c (valid_below ctx (Suc k))"
      using d(1) su(1) fa(2) by (simp add: vb)
    have ov: "unat (b_over_share (q_b q) + a_bw a) = summed ?c (q_list ?r)"
    proof -
      have "summed ?c (q_list ?r) = summed ?c (k # q_list q)" by (rule summed_mset) (simp add: m)
      then show ?thesis using d(2) su(2) fa(2) by (simp add: summed_def)
    qed
    have rest: "\<forall>i \<in> set (valid_below ctx (Suc k)) - set (q_list ?r).
        c_type (a_cfg (ctx ! i)) \<in> {3, 4, 5} \<longrightarrow> unat (a_bw (?c ! i)) \<le> unat (b_share b)"
      using ok' oth by (auto simp: vb sm)
    show ?thesis
      unfolding pass_ok_def q'_eq using ok' sub' fits' rest grp so de di ov ctx b' by simp
  qed
qed

lemma request_all_ok:
  assumes "k \<le> n" "n \<le> length ctx" "length ctx \<le> 128" "pass_ok ctx b k q"
    "\<forall>i \<in> set (valid_below ctx n). c_type (a_cfg (ctx ! i)) \<in> {3, 5} \<longrightarrow> c_assure (a_cfg (ctx ! i)) \<le> c32 (b_share b)"
    "request_all False olt [k..<n] q = Inr q'"
  shows "pass_ok ctx b n q'"
  using assms(1,4,6)
proof (induction "n - k" arbitrary: k q)
  case (Suc d)
  then have k: "k < n" "[k..<n] = k # [Suc k..<n]" by (simp_all add: upt_conv_Cons)
  obtain r where r: "request_one False olt k q = Inr r" "request_all False olt [Suc k..<n] r = Inr q'"
    using Suc.prems(3) by (auto simp: k(2) split: sum.splits)
  have "pass_ok ctx b (Suc k) r"
    using assms(2,3,5) k(1) Suc.prems(2) r(1) by (intro request_one_ok) (auto simp: valid_below_def)
  then show ?case using Suc.hyps(1) [of "Suc k" r] Suc.hyps(2) k(1) r(2) by simp
qed simp

lemma capped_nonneg: "0 \<le> rem \<Longrightarrow> \<forall>c \<in> set (capped bs rem). 0 \<le> c"
proof (induction bs arbitrary: rem)
  case (Cons b bs)
  let ?s = "rem div int (length (b # bs))"
  have "0 \<le> ?s" "?s \<le> rem" using Cons.prems zdiv_mono2 [of rem 1 "int (length (b # bs))"]
    by (simp_all add: pos_imp_zdiv_nonneg_iff)
  then show ?case using Cons.IH [of "rem - ?s"] by (simp add: Let_def)
qed simp

lemma fair_nonneg: "0 \<le> rem \<Longrightarrow> \<forall>b \<in> set bs. 0 \<le> b \<Longrightarrow> \<forall>c \<in> set (fair bs rem). 0 \<le> c"
proof (induction bs arbitrary: rem)
  case (Cons b bs)
  let ?s = "rem div int (length (b # bs))"
  have s: "?s \<le> rem" using Cons.prems(1) zdiv_mono2 [of rem 1 "int (length (b # bs))"] by simp
  show ?case
  proof (cases "?s < b")
    case True
    then show ?thesis using capped_nonneg [OF Cons.prems(1), of "b # bs"] by (simp del: capped.simps)
  next
    case False
    then show ?thesis using Cons.IH [of "rem - b"] Cons.prems s by simp
  qed
qed simp

text \<open>Nothing left for the sharers.\<close>

lemma drop_grants:
  "\<forall>k \<in> set ls. k < length ctx \<Longrightarrow>
   same_but (set ls) ctx (fold (\<lambda>k c. c[k := (c ! k)\<lparr>a_bw := 0\<rparr>]) ls ctx) \<and>
   (\<forall>k \<in> set ls. a_bw (fold (\<lambda>k c. c[k := (c ! k)\<lparr>a_bw := 0\<rparr>]) ls ctx ! k) = 0)"
proof (induction ls arbitrary: ctx)
  case (Cons k ks)
  let ?c = "ctx[k := (ctx ! k)\<lparr>a_bw := 0\<rparr>]"
  let ?r = "fold (\<lambda>k c. c[k := (c ! k)\<lparr>a_bw := 0\<rparr>]) ks ?c"
  have ih: "same_but (set ks) ?c ?r" "\<forall>j \<in> set ks. a_bw (?r ! j) = 0" using Cons.IH [of ?c] Cons.prems by simp_all
  have "a_bw (?r ! k) = 0"
    using ih same_but_at [OF ih(1), of k] Cons.prems by (cases "k \<in> set ks") simp_all
  then show ?case using ih same_but_upd [OF ih(1)] by simp
qed (simp add: same_but_refl)

lemma summed_grant:
  "\<forall>i \<in> set ls. 0 \<le> grant ctx i \<Longrightarrow> int (summed ctx ls) = sum_list (map (grant ctx) ls)"
  by (induction ls) (simp_all add: summed_def grant_def sint_nonneg)

lemma summed_split:
  assumes "distinct vs" "distinct ls" "set ls \<subseteq> set vs"
  shows "summed ctx vs = summed ctx ls + summed ctx (filter (\<lambda>i. i \<notin> set ls) vs)"
proof -
  have "distinct (ls @ filter (\<lambda>i. i \<notin> set ls) vs)" "set (ls @ filter (\<lambda>i. i \<notin> set ls) vs) = set vs"
    using assms by auto
  then have "mset (ls @ filter (\<lambda>i. i \<notin> set ls) vs) = mset vs"
    using assms(1) set_eq_iff_mset_eq_distinct by blast
  from summed_mset [OF this] show ?thesis by simp
qed

section \<open>The fit\<close>

definition in_budget :: "dba_alloc list \<Rightarrow> dba_budget \<Rightarrow> dba_alloc list \<Rightarrow> bool" where
  "in_budget ctx b ctx' \<longleftrightarrow>
     summed ctx' (valid_below ctx (length ctx)) \<le> unat (b_total b) \<or>
     (\<forall>i \<in> set (valid_below ctx (length ctx)). c_type (a_cfg (ctx ! i)) \<in> {3, 4, 5} \<longrightarrow>
        unat (a_bw (ctx' ! i)) \<le> unat (b_share b))"

lemma same_but_keeps: "same_but A ctx ctx' \<Longrightarrow> a_cfg (ctx' ! i) = a_cfg (ctx ! i) \<and> length ctx' = length ctx"
  unfolding same_but_def by (metis (no_types, lifting) dba_alloc.select_convs(1) dba_alloc.surjective dba_alloc.update_convs(7))

lemma fit_request_ok:
  assumes ok: "pass_ok ctx b (length ctx) q" and n: "length ctx \<le> 128"
  shows "in_budget ctx b (fst (fit_request q)) \<and> same_but UNIV (q_ctx q) (fst (fit_request q))"
proof -
  note ok' = ok [unfolded pass_ok_def]
  let ?vs = "valid_below ctx (length ctx)" and ?ls = "q_list q" and ?c = "q_ctx q"
  let ?rest = "filter (\<lambda>i. i \<notin> set ?ls) ?vs"
  let ?D = "summed ?c ?vs" and ?O = "summed ?c ?ls" and ?T = "unat (b_total b)"
  have sub: "set ?ls \<subseteq> set ?vs" "distinct ?vs" "distinct ?ls" using ok' by (auto simp: valid_below_def)
  have vs: "\<forall>i \<in> set ?vs. i < length ctx \<and> fits (?c ! i)" using ok' valid_below_less by blast
  have D: "?D = ?O + summed ?c ?rest" using summed_split [OF sub(2,3,1)] .
  have same: "summed x ?rest = summed ?c ?rest" if "same_but (set ?ls) ?c x" for x
    unfolding summed_def using same_but_at [OF that] by (intro arg_cong [where f = sum_list] map_cong) auto
  have small: "\<forall>i \<in> set ?rest. c_type (a_cfg (ctx ! i)) \<in> {3, 4, 5} \<longrightarrow> unat (a_bw (?c ! i)) \<le> unat (b_share b)"
    using ok' by auto
  let ?b = "q_b q"
  let ?rem = "c32 (b_total ?b) - b_demand ?b + b_over_share ?b"
  have dlt: "?D \<le> 128 * 65535"
  proof -
    have "?D \<le> length ?vs * 65535" using vs by (intro summed_le) (simp add: fits_def)
    also have "\<dots> \<le> 128 * 65535" using n length_filter_le [of "\<lambda>i. valid (ctx ! i)" "[0..<length ctx]"]
      by (intro mult_le_mono) (simp_all add: valid_below_def)
    finally show ?thesis .
  qed
  show ?thesis
  proof (cases "b_demand ?b \<le> c32 (b_total ?b)")
    case True
    then have "?D \<le> ?T" using ok' by (simp add: word_le_nat_alt)
    then show ?thesis using True by (simp add: fit_request_def in_budget_def Let_def same_but_refl)
  next
    case False
    have tlt: "?T < 65536" using unat_lt16 [of "b_total b"] by simp
    have dt: "?T < ?D" using False ok' by (simp add: word_le_nat_alt)
    have si: "sint (b_demand ?b) = int ?D" "sint (b_over_share ?b) = int ?O" "sint (c32 (b_total ?b)) = int ?T"
      using ok' dlt D tlt sint_small [of "b_demand ?b"] sint_small [of "b_over_share ?b"] sint_small [of "c32 (b_total ?b)"]
      by simp_all
    have tu: "0 \<le> uint (b_total b)" "uint (b_total b) < 65536" using uint_lt2p [of "b_total b"] by simp_all
    have r0: "sint (c32 (b_total ?b) - b_demand ?b) = int ?T - int ?D"
      using sint_sub_small [of "c32 (b_total ?b)" "b_demand ?b"] dlt tu unfolding si by simp
    have rem: "sint ?rem = int ?T - int ?D + int ?O"
      using sint_add_small [of "c32 (b_total ?b) - b_demand ?b" "b_over_share ?b"] dlt tu D unfolding r0 si by simp
    show ?thesis
    proof (cases "?rem <=s 0")
      case True
      let ?x = "fold (\<lambda>k ctx. ctx[k := (ctx ! k)\<lparr>a_bw := 0\<rparr>]) ?ls ?c"
      have x: "fst (fit_request q) = ?x" using False True by (simp add: fit_request_def Let_def)
      have d: "same_but (set ?ls) ?c ?x" "\<forall>k \<in> set ?ls. a_bw (?x ! k) = 0"
        using drop_grants [of ?ls ?c] sub(1) vs ok' by auto
      have "unat (a_bw (?x ! i)) \<le> unat (b_share b)"
        if "i \<in> set ?vs" "c_type (a_cfg (ctx ! i)) \<in> {3, 4, 5}" for i
        using that d same_but_at [OF d(1), of i] small by (cases "i \<in> set ?ls") auto
      then show ?thesis using same_but_mono [OF d(1)] unfolding x by (simp add: in_budget_def)
    next
      case False': False
      then have pos: "0 < sint ?rem" by (simp add: word_sle_eq)
      then have "?O \<noteq> 0" using rem dt by linarith
      then have ne: "?ls \<noteq> []" by auto
      have lt: "sint ?rem < 65536" using rem tlt D by linarith
      have gr: "\<forall>k \<in> set ?ls. 0 \<le> grant ?c k" using vs sub(1) fits_sint unfolding grant_def by blast
      have len: "length ?ls \<le> 128" using sub(1,3) distinct_card [OF sub(3)] card_mono [of "set ?vs" "set ?ls"] 
          card_length [of ?vs] length_filter_le [of "\<lambda>i. valid (ctx ! i)" "[0..<length ctx]"] n
        by (simp add: valid_below_def)
      have h: "\<forall>k \<in> set ?ls. k < length ?c \<and> grp_of (?c ! k) \<noteq> DBA_GRP_ASSURE \<and> 0 \<le> grant ?c k"
      proof
        fix k assume k: "k \<in> set ?ls"
        then have "k < length ctx" using sub(1) vs by blast
        then show "k < length ?c \<and> grp_of (?c ! k) \<noteq> DBA_GRP_ASSURE \<and> 0 \<le> grant ?c k"
          using ok' gr k by simp
      qed
      obtain r x where f: "fit ?ls (int (length ?ls)) 0 0 ?rem ?c = (r, 0, x)" "same_but (set ?ls) ?c x"
          "map (grant x) ?ls = fair (map (grant ?c) ?ls) (sint ?rem)"
        using fit_fair [OF sub(3) h less_imp_le [OF pos] lt len] by blast
      have x: "fst (fit_request q) = x" using False False' ne f(1) ok' by (simp add: fit_request_def Let_def)
      have nn: "\<forall>g \<in> set (map (grant ?c) ?ls). 0 \<le> g" using gr by auto
      have "\<forall>g \<in> set (map (grant x) ?ls). 0 \<le> g" unfolding f(3) using fair_nonneg [OF less_imp_le [OF pos] nn] .
      then have "int (summed x ?ls) = sum_list (map (grant x) ?ls)" by (intro summed_grant) auto
      also have "\<dots> \<le> sint ?rem" unfolding f(3) using fair_sum [of "sint ?rem" "map (grant ?c) ?ls"] ok' nn pos by simp
      finally have "int (summed x ?ls) \<le> int ?T - int (summed ?c ?rest)" using rem D by simp
      then have "summed x ?vs \<le> ?T" using summed_split [OF sub(2,3,1), of x] same [OF f(2)] by linarith
      then show ?thesis using same_but_mono [OF f(2)] unfolding x by (simp add: in_budget_def)
    qed
  qed
qed


text \<open>Two ONUs with one T-CONT each, no report pending.\<close>

definition two_onus :: "tcont_cfg \<Rightarrow> s32 \<Rightarrow> tcont_cfg \<Rightarrow> s32 \<Rightarrow> dba" where
  "two_onus c0 bw0 c1 bw1 =
     dba_boot\<lparr>dba_ctx := [alloc_zero\<lparr>a_cfg := c0, a_bw := bw0\<rparr>, alloc_zero\<lparr>a_cfg := c1, a_bw := bw1\<rparr>] @
       replicate 126 alloc_zero\<rparr>"

definition best_effort :: tcont_cfg where
  "best_effort = \<lparr>c_flags = 1, c_alloc_id = 0x100, c_type = 4, c_fix = 0, c_assure = 0, c_max = 19340\<rparr>"

definition assured :: tcont_cfg where
  "assured = \<lparr>c_flags = 1, c_alloc_id = 0x101, c_type = 3, c_fix = 0, c_assure = 15000, c_max = 19340\<rparr>"

definition grants2 :: "dba \<Rightarrow> (u16 \<times> u16 \<times> s32 list) option" where
  "grants2 s =
     (let (b, s) = dba_budget_calc s budget_zero
      in case dba_bw_request b s of
           Inl f \<Rightarrow> None | Inr (_, t) \<Rightarrow> Some (b_total b, b_share b, map a_bw (take 2 (dba_ctx t))))"

text \<open>Two best-effort T-CONTs: the one that asks for the frame gets what the other leaves.\<close>

lemma grants2_best_effort: "grants2 (two_onus best_effort 19340 best_effort 2000) = Some (19248, 9624, [17248, 2000])"
  by code_simp



end
