(* ===== verification/Dba_Safe.thy ===== *)
theory Dba_Safe
  imports Dba_Table Dba_Frame Dba_Adapt
begin

text \<open>
  One turn of core 5 keeps the tables in shape, whatever the FTTR block answers and whatever the
  host sent before: every table keeps its size and every alloc id its two report slots. The only
  faults are the list of four ONUs of the new DBA mode and the step count of zero.
\<close>

section \<open>What keeps the table of alloc ids in shape\<close>

definition ctx_ok :: "dba_alloc list \<Rightarrow> bool" where
  "ctx_ok ctx \<longleftrightarrow> length ctx = 128 \<and> (\<forall>i < 128. ring_ok (ctx ! i))"

lemma wf_ctx: "dba_wf s \<longleftrightarrow> length (tc_cfg s) = 128 \<and> length (dba_onu_tx_burst s) = 64 \<and> ctx_ok (dba_ctx s)"
  by (auto simp: dba_wf_def ctx_ok_def all_set_conv_all_nth)

lemma ring_ok_upd [simp]:
  "ring_ok (a\<lparr>a_bw := x\<rparr>) = ring_ok a" "ring_ok (a\<lparr>a_state := st\<rparr>) = ring_ok a" "ring_ok (set_grp g a) = ring_ok a"
  by (simp_all add: ring_ok_def rpt_rd_def rpt_wr_def set_grp_def)

lemma ctx_ok_put: "ctx_ok ctx \<Longrightarrow> ring_ok a \<Longrightarrow> ctx_ok (ctx[i := a])"
  by (cases "i < 128") (auto simp: ctx_ok_def nth_list_update list_update_beyond)

lemma ctx_ok_upd:
  assumes "ctx_ok ctx" "\<And>a. ring_ok a \<Longrightarrow> ring_ok (f a)"
  shows "ctx_ok (ctx[i := f (ctx ! i)])"
  using assms by (cases "i < 128") (auto simp: ctx_ok_def nth_list_update list_update_beyond)

lemma ctx_ok_grp [simp]: "ctx_ok ctx \<Longrightarrow> ctx_ok (ctx[i := set_grp g (ctx ! i)])"
  by (rule ctx_ok_upd) simp_all

lemma ctx_ok_bw [simp]: "ctx_ok ctx \<Longrightarrow> ctx_ok (ctx[i := (ctx ! i)\<lparr>a_bw := x\<rparr>])"
  using ctx_ok_upd [of ctx "\<lambda>a. a\<lparr>a_bw := x\<rparr>"] by simp

lemma ctx_ok_alloc [simp]: "ctx_ok ctx \<Longrightarrow> (\<And>a. ring_ok a \<Longrightarrow> ring_ok (f a)) \<Longrightarrow> ctx_ok (upd_alloc i f ctx)"
  by (simp add: upd_alloc_def ctx_ok_upd)

section \<open>Grants\<close>

lemma request_share_ok: "ctx_ok (q_ctx q) \<Longrightarrow> ring_ok a \<Longrightarrow> ctx_ok (q_ctx (request_share i a q))"
  by (simp add: request_share_def Let_def ctx_ok_put)

lemma request_assure_ok: "ctx_ok (q_ctx q) \<Longrightarrow> ctx_ok (q_ctx (request_assure i q))"
  by (simp add: request_assure_def Let_def)

lemma request_grant_ok: "ctx_ok (q_ctx q) \<Longrightarrow> ring_ok a \<Longrightarrow> ctx_ok (q_ctx (request_grant dual i a q))"
  using request_share_ok request_assure_ok by (auto simp: request_grant_def Let_def intro!: ctx_ok_put)

lemma request_one_wf:
  assumes "ctx_ok (q_ctx q)" "i < 128" "request_one dual olt i q = Inr q'"
  shows "ctx_ok (q_ctx q')"
proof -
  have r: "ring_ok (q_ctx q ! i)" using assms(1,2) by (auto simp: ctx_ok_def)
  then have "ring_ok a" if "dba_alloc_adapt dual olt (q_ctx q ! i) = Inr a" for a using adapt_keeps(1) that by blast
  then show ?thesis
    using assms r request_grant_ok [of "q\<lparr>q_left := q_left q + 1\<rparr>"]
    by (auto simp: request_one_def add_demand_def Let_def split: if_splits sum.splits)
qed

lemma request_one_fault: "request_one dual olt i q = Inl f \<Longrightarrow> f = Step_zero"
  using adapt_fault(1) by (auto simp: request_one_def Let_def split: if_splits sum.splits)

lemma request_all_wf:
  "ctx_ok (q_ctx q) \<Longrightarrow> \<forall>i \<in> set is. i < 128 \<Longrightarrow>
   case request_all dual olt is q of Inl f \<Rightarrow> f = Step_zero | Inr q' \<Rightarrow> ctx_ok (q_ctx q')"
  by (induction dual olt "is" q rule: request_all.induct)
     (auto dest: request_one_fault request_one_wf split: sum.splits)

lemma drop_back_wf: "ctx_ok ctx \<Longrightarrow> ctx_ok (fst (drop_back share js (ctx, n, oa)))"
  by (induction js arbitrary: ctx n oa) (simp_all add: Let_def ctx_ok_upd)

lemma fit_capped_wf: "ctx_ok ctx \<Longrightarrow> ctx_ok (snd (fit_capped ks n rem ctx))"
  by (induction ks arbitrary: n rem ctx) (simp_all add: Let_def)

lemma fit_wf: "ctx_ok ctx \<Longrightarrow> ctx_ok (snd (snd (fit ks n n_over oa rem ctx)))"
proof (induction ks arbitrary: n n_over oa rem)
  case (Cons k ks)
  have "ctx_ok (snd (fit_capped js m r c))" if "drop_back sh xs (ctx, no, o1) = (c, no', o2)" for js m r c sh xs no o1 no' o2
    using drop_back_wf [OF Cons.prems, of sh xs no o1] that fit_capped_wf [of c] by simp
  then show ?case using Cons
    by (auto simp: Let_def simp del: drop_back.simps fit_capped.simps split: prod.split)
       (metis snd_conv)+
qed simp

lemma fold_zero_wf: "ctx_ok ctx \<Longrightarrow> ctx_ok (fold (\<lambda>k ctx. ctx[k := (ctx ! k)\<lparr>a_bw := 0\<rparr>]) ls ctx)"
  by (induction ls arbitrary: ctx) simp_all

lemma fit_request_wf: "ctx_ok (q_ctx q) \<Longrightarrow> ctx_ok (fst (fit_request q))"
  using fit_wf [of "q_ctx q"] by (auto simp: fit_request_def Let_def fold_zero_wf split: prod.split) (metis snd_conv)

lemma bw_request_wf:
  "dba_wf s \<Longrightarrow> case dba_bw_request b s of Inl f \<Rightarrow> f = Step_zero | Inr (_, t) \<Rightarrow> dba_wf t"
  using request_all_wf [of "\<lparr>q_ctx = dba_ctx s, q_b = b, q_list = [], q_over = 0, q_left = 0\<rparr>" "[0..<DBA_ALLOC_NUM]"
      "dba_new_act s \<noteq> 0" "tc_olt_mode s \<noteq> 0"]
  by (auto simp: dba_bw_request_def wf_ctx DBA_ALLOC_NUM_def split: sum.splits prod.splits)
     (metis fit_request_wf fst_conv)

section \<open>Maps\<close>

lemma wf_upd [simp]:
  "dba_wf (s\<lparr>bw_ctrl := v\<rparr>) = dba_wf s" "dba_wf (s\<lparr>bw_stop := w\<rparr>) = dba_wf s" "dba_wf (s\<lparr>bw_start := w\<rparr>) = dba_wf s"
  "dba_wf (s\<lparr>dba_bwmap_pos := w\<rparr>) = dba_wf s" "dba_wf (s\<lparr>dba_bwmap_left := b\<rparr>) = dba_wf s"
  "dba_wf (s\<lparr>dba_log_en := b\<rparr>) = dba_wf s" "dba_wf (s\<lparr>dba_cross_pos := v\<rparr>) = dba_wf s"
  "dba_wf (s\<lparr>dba_bwmap_nonempty := b\<rparr>) = dba_wf s" "dba_wf (s\<lparr>dba_new_pass_cnt := v\<rparr>) = dba_wf s"
  "dba_wf (s\<lparr>dba_burst_ovh := v\<rparr>) = dba_wf s" "dba_wf (s\<lparr>dba_frame_cnt := v\<rparr>) = dba_wf s"
  by (simp_all add: dba_wf_def)

lemma wf_alloc [simp]:
  "dba_wf s \<Longrightarrow> (\<And>a. ring_ok a \<Longrightarrow> ring_ok (f a)) \<Longrightarrow> dba_wf (s\<lparr>dba_ctx := upd_alloc i f (dba_ctx s)\<rparr>)"
  by (simp add: wf_ctx)

lemma window_wf [simp]: "dba_wf (set_window a b s) = dba_wf s" "dba_wf (window_bw p w s) = dba_wf s"
  by (simp_all add: set_window_def window_bw_def)

lemma log_wf [simp]: "dba_wf (log_off s) = dba_wf s" "dba_wf (log_short s) = dba_wf s" "dba_wf (cut_stop s) = dba_wf s"
  by (simp_all add: log_off_def log_short_def cut_stop_def)

lemma set_bw_wf [simp]: "dba_wf s \<Longrightarrow> dba_wf (set_bw i b s)"
  by (simp add: set_bw_def)

lemma entry_wf [simp]:
  "dba_wf (dba_bwmap_write dev w0 w1 s) = dba_wf s" "dba_wf (dba_bwmap_emit dev aid fl s) = dba_wf s"
  by (simp_all add: dba_bwmap_write_def dba_bwmap_emit_def Let_def)

lemma fttr_rd_wfD: "fttr_rd dev reg s = (v, t) \<Longrightarrow> dba_wf t = dba_wf s"
  by (metis fttr_wf(1) snd_conv)

lemma bank_getD: "dba_bwmap_bank_get dev s = (v, w, t) \<Longrightarrow> dba_wf t = dba_wf s"
  by (auto simp: dba_bwmap_bank_get_def dest: fttr_rd_wfD split: prod.splits)

lemma bank_wf [simp]:
  "dba_wf (dba_bwmap_bank_set dev b s) = dba_wf s" "dba_wf (dba_bwmap_empty_set dev b s) = dba_wf s"
  by (auto simp: dba_bwmap_bank_set_def dba_bwmap_empty_set_def dest: fttr_rd_wfD split: prod.split)

lemma bank_flip_wf [simp]: "dba_wf (bank_flip dev old s) = dba_wf s"
  by (auto simp: bank_flip_def Let_def dest: bank_getD split: prod.split)

lemma handler_wf [simp]: "dba_wf (dba_config_bwmap_handler dev idx fec slot onu s) = dba_wf s"
  by (simp add: dba_config_bwmap_handler_def Let_def)

lemma emit_grants_wf [simp]: "dba_wf (emit_grants dev fec onu sl s) = dba_wf s"
  by (induction dev fec onu sl s rule: emit_grants.induct) (simp_all add: emit_grant_def Let_def)

lemma fec_align_wf: "ctx_ok ctx \<Longrightarrow> ctx_ok (fec_align olt tot ks ctx)"
  by (induction ks arbitrary: olt tot ctx) (simp_all add: Let_def split: prod.split)

lemma burst_wf [simp]: "dba_wf (s\<lparr>dba_onu_tx_burst := (dba_onu_tx_burst s)[i := v]\<rparr>) = dba_wf s"
  by (simp add: dba_wf_def)

lemma fec_wf: "dba_wf s \<Longrightarrow> dba_wf (s\<lparr>dba_onu_tx_burst := (dba_onu_tx_burst s)[i := v], dba_ctx := fec_align olt tot ks (dba_ctx s)\<rparr>)"
  by (simp add: wf_ctx fec_align_wf)

lemma onu_map_wf: "dba_wf s \<Longrightarrow> dba_wf (onu_map dev m onu s)"
  by (simp add: onu_map_def Let_def fec_wf)

lemma bwmap_switch_wf: "dba_wf s \<Longrightarrow> dba_wf (dba_bwmap_switch dev s)"
proof -
  assume "dba_wf s"
  moreover have "dba_wf t \<Longrightarrow> dba_wf (fold (onu_map dev m) onus t)" for m onus t
    by (induction onus arbitrary: t) (simp_all add: onu_map_wf)
  ultimately show ?thesis by (simp add: dba_bwmap_switch_def Let_def)
qed

subsection \<open>The new mode\<close>

lemma pair_wf: "dba_wf s \<Longrightarrow> dba_wf (snd (snd (dba_bwmap_pair dev order k l w (pos, wrap, s))))"
  by (simp add: dba_bwmap_pair_def Let_def split: prod.split)

lemma short_slots_wf: "dba_wf s \<Longrightarrow> dba_wf (snd (short_slots dev order is (pos, s)))"
  by (induction "is" arbitrary: pos s) (auto simp: dba_bwmap_short_def Let_def)

lemma fill_wf: "dba_wf s \<Longrightarrow> dba_wf (snd (dba_bwmap_fill dev order k (pos, s)))"
  by (simp add: dba_bwmap_fill_def Let_def)

lemma cross_parts_wf [simp]:
  "dba_wf (snd (cross_end dev cur aid s)) = dba_wf s"
  "dba_wf (snd (cross_split dev cur aid bw s)) = dba_wf s"
  "dba_wf (snd (cross_fit dev cur aid aid' bw s)) = dba_wf s"
  by (simp_all add: cross_end_def cross_split_def cross_fit_def Let_def)

lemma cross_partsD:
  "cross_end dev cur aid s = (v, t) \<Longrightarrow> dba_wf t = dba_wf s"
  "cross_split dev cur aid bw s = (v, t) \<Longrightarrow> dba_wf t = dba_wf s"
  "cross_fit dev cur aid aid' bw s = (v, t) \<Longrightarrow> dba_wf t = dba_wf s"
  by (metis cross_parts_wf snd_conv)+

lemma cross_wf: "dba_wf s \<Longrightarrow> dba_wf (snd (snd (dba_cross_first_frame dev order k (pos, wrap, s))))"
proof -
  assume w: "dba_wf s"
  have "dba_wf (snd (cross_next dev c i j s))" for c i j
    using w by (auto simp: cross_next_def Let_def dest: cross_partsD split: prod.split)
  moreover have "dba_wf (snd (cross_last dev c i j s))" for c i j
    using w by (auto simp: cross_last_def Let_def dest: cross_partsD split: prod.splits if_splits)
  ultimately show ?thesis by (simp add: dba_cross_first_frame_def Let_def split: prod.split) (metis snd_conv)
qed

lemma onu_floor_wf: "dba_wf s \<Longrightarrow> dba_wf (onu_floor onu w s)"
  by (simp add: onu_floor_def Let_def)

lemma place_onu_wf: "dba_wf s \<Longrightarrow> dba_wf (snd (snd (place_onu dev bw order k (pos, wrap, s))))"
proof -
  assume "dba_wf s"
  then have w: "dba_wf (onu_floor (order ! k) (bw (order ! k)) s)" by (rule onu_floor_wf)
  have p: "dba_wf t'" if "dba_bwmap_pair dev order k l e (pos, v, t) = (x, y, t')" "dba_wf t" for l e v t x y t'
    using pair_wf [OF that(2), of dev order k l e pos v] that(1) by simp
  have f: "dba_wf t'" if "dba_bwmap_fill dev order k (pos, t) = (x, t')" "dba_wf t" for t x t'
    using fill_wf [OF that(2), of dev order k pos] that(1) by simp
  have h: "dba_wf t'" if "short_slots dev order is (q, t) = (x, t')" "dba_wf t" for "is" q t x t'
    using short_slots_wf [OF that(2), of dev order "is" q] that(1) by simp
  show ?thesis
    using w pair_wf [OF w] cross_wf [OF w]
    by (auto simp: place_onu_def Let_def dest!: f h p split: prod.splits)
qed

lemma place_onus_wf: "dba_wf s \<Longrightarrow> dba_wf (snd (snd (place_onus dev bw order ks (pos, wrap, s))))"
proof (induction ks arbitrary: pos wrap s)
  case (Cons k ks)
  obtain p w t where q: "place_onu dev bw order k (pos, wrap, s) = (p, w, t)" by (metis prod_cases3)
  then show ?case using Cons.IH [of t p w] place_onu_wf [OF Cons.prems, of dev bw order k pos wrap] by simp
qed simp

lemma order_onus_fault: "order_onus m ctx onus order = Inl f \<Longrightarrow> f = Order_overflow"
  by (induction m ctx onus order rule: order_onus.induct) (auto split: if_splits)

lemma new_switch_wf:
  "dba_wf s \<Longrightarrow> case dba_new_bwmap_switch dev s of Inl f \<Rightarrow> f = Order_overflow | Inr t \<Rightarrow> dba_wf t"
proof -
  assume w: "dba_wf s"
  have p: "dba_wf t'" if "place_onus dev bw order ks (pos, v, t) = (x, y, t')" "dba_wf t" for bw order ks pos v t x y t'
    using place_onus_wf [OF that(2), of dev bw order ks pos v] that(1) by simp
  show ?thesis using w
    by (auto simp: dba_new_bwmap_switch_def Let_def dest: order_onus_fault dest!: p split: sum.splits prod.splits)
qed

section \<open>The frame\<close>

lemma write_map_wf [simp]: "dba_wf (write_map dev es s) = dba_wf s"
  by (induction dev es s rule: write_map.induct) simp_all

lemma sw_flip_wf [simp]: "dba_wf (snd (dba_sw_bwmap_flip dev s)) = dba_wf s"
  by (auto simp: dba_sw_bwmap_flip_def dest: bank_getD split: prod.split)

lemma sw_run_wf [simp]: "dba_wf (dba_sw_bwmap_run dev s) = dba_wf s"
  by (simp add: dba_sw_bwmap_run_def Let_def)

lemma stats_wf [simp]: "dba_wf (fst (dba_frame_stats s)) = dba_wf s"
  by (simp add: dba_frame_stats_def dba_frame_tick_def Let_def dba_wf_def)

lemma mode_wf [simp]: "dba_wf (dba_new_mode_update s) = dba_wf s" "dba_wf (dba_act_sync s) = dba_wf s"
    "dba_wf (dba_single_onu_check s) = dba_wf s"
  by (simp_all add: dba_new_mode_update_def dba_act_sync_def dba_single_onu_check_def Let_def dba_wf_def)

lemma apply_wf: "dba_wf s \<Longrightarrow> dba_wf (dba_apply_changes dev (dba_new_en_apply s))"
proof -
  assume "dba_wf s"
  moreover have u: "dba_wf (u\<lparr>dba_mode := x\<rparr>) = dba_wf u" "dba_wf (u\<lparr>dba_single_onu_ok := y\<rparr>) = dba_wf u"
      "dba_wf (u\<lparr>dba_new_en_cur := z\<rparr>) = dba_wf u" for u x y z
    by (simp_all add: dba_wf_def)
  ultimately have "dba_wf (dba_new_en_apply s)" by (simp add: dba_new_en_apply_def Let_def)
  then show ?thesis
    by (simp add: dba_apply_changes_def Let_def tcont_init_wf tcont_load_wf u)
qed

lemma budget_calc_wf: "dba_budget_calc s b = (b', t) \<Longrightarrow> dba_wf t = dba_wf s"
  by (auto simp: dba_budget_calc_def Let_def split: prod.splits if_splits)

lemma single_grant_wf: "dba_wf s \<Longrightarrow> dba_wf (dba_single_onu_grant s)"
  by (simp add: dba_single_onu_grant_def Let_def)

definition turn_ok :: "dba_fault + dba \<Rightarrow> bool" where
  "turn_ok r = (case r of Inl f \<Rightarrow> f = Order_overflow \<or> f = Step_zero | Inr t \<Rightarrow> dba_wf t)"

lemma next_map_wf: "dba_wf s \<Longrightarrow> turn_ok (dba_next_map dev s)"
proof -
  assume w: "dba_wf s"
  obtain b t where b: "dba_budget_calc s budget_zero = (b, t)" by (cases "dba_budget_calc s budget_zero")
  then have "dba_wf t" using w budget_calc_wf by blast
  then have t: "dba_wf t" "dba_wf (dba_single_onu_grant t)"
      "case dba_bw_request b t of Inl f \<Rightarrow> f = Step_zero | Inr (_, t) \<Rightarrow> dba_wf t"
    using single_grant_wf bw_request_wf by blast+
  have sw: "turn_ok (if dba_new_act u \<noteq> 0 then dba_new_bwmap_switch dev u else Inr (dba_bwmap_switch dev u))"
    if "dba_wf u" for u
    using new_switch_wf [OF that, of dev] bwmap_switch_wf [OF that] by (simp add: turn_ok_def split: sum.splits)
  have inl: "turn_ok (Inl Step_zero)" by (simp add: turn_ok_def)
  show ?thesis
  proof (cases "dba_single_onu_ok t \<noteq> 0 \<and> dba_single_onu_en t \<noteq> 0")
    case True
    then show ?thesis using sw [OF t(2)] by (simp add: dba_next_map_def b)
  next
    case False
    then show ?thesis using sw t(3) inl unfolding dba_next_map_def b
      by (cases "dba_bw_request b t") (auto simp del: not_gr_zero)
  qed
qed

lemma frame_wf: "dba_wf s \<Longrightarrow> turn_ok (dba_frame_handler dev mem s)"
proof -
  assume w: "dba_wf s"
  define t where "t = (if dba_get_timer_en s \<noteq> 0
    then dba_rpt_drain dev mem (dba_apply_changes dev (dba_new_en_apply (fst (dba_frame_stats s)))) else s)"
  define u where "u = (if dba_log_en t = 0 \<and> dba_rpt_tick t mod 16000 = 0 then t\<lparr>dba_log_en := 1\<rparr> else t)"
  have "dba_wf t" using w rpt_drain_wf apply_wf by (simp add: t_def)
  then have u: "dba_wf u" by (simp add: u_def)
  then have "turn_ok (if dba_frame_cnt u AND 1 \<noteq> 0
      then if dba_do_timer_en (dba_sw_bwmap_run dev u) \<noteq> 0 then dba_next_map dev (dba_sw_bwmap_run dev u)
        else Inr (dba_sw_bwmap_run dev u) else Inr u)"
    using next_map_wf [of "dba_sw_bwmap_run dev u" dev] by (simp add: turn_ok_def)
  then show ?thesis
    unfolding dba_frame_handler_def Let_def t_def [symmetric] u_def [symmetric]
    by (auto simp: turn_ok_def split: sum.splits)
qed

lemma turn_wf: "dba_wf s \<Longrightarrow> turn_ok (core5_dba_turn dev mem s)"
  using frame_wf by (auto simp: core5_dba_turn_def turn_ok_def dest: fttr_rd_wfD split: prod.splits)

section \<open>Every reachable state\<close>

text \<open>Core 5 after its start: mails of the host and turns of its loop, in any order, over any device.\<close>

inductive dba_step :: "dba \<Rightarrow> dba \<Rightarrow> bool" where
  mail: "dba_mail_handler dev m s = Inr (r, m', t) \<Longrightarrow> dba_step s t"
| turn: "core5_dba_turn dev mem s = Inr t \<Longrightarrow> dba_step s t"

inductive_cases dba_step_cases: "dba_step s t"

lemma step_wf: "dba_step s t \<Longrightarrow> dba_wf s \<Longrightarrow> dba_wf t"
proof (erule dba_step_cases)
  fix dev mem assume "core5_dba_turn dev mem s = Inr t" "dba_wf s"
  then show "dba_wf t" using turn_wf [of s dev mem] by (simp add: turn_ok_def)
qed (use mail_faults(2) in blast)

lemma steps_wf: "dba_step\<^sup>*\<^sup>* s t \<Longrightarrow> dba_wf s \<Longrightarrow> dba_wf t"
  by (induction rule: rtranclp_induct) (auto dest: step_wf)

lemma wf_io: "dba_wf (s\<lparr>dba_io := io\<rparr>) = dba_wf s"
  by (simp add: dba_wf_def)

lemma core5_init_wf: "core5_dba_init v dev (m, dba_boot) = Inr (m', s) \<Longrightarrow> dba_wf s"
proof -
  assume i: "core5_dba_init v dev (m, dba_boot) = Inr (m', s)"
  then obtain base where s: "s = dba_cfg_init dev (fttr_ring_init dev
      (dba_boot\<lparr>dba_ctx := replicate 128 alloc_zero, npu_fttr_base := base\<rparr>))"
    by (auto simp: core5_dba_init_def DBA_ALLOC_NUM_def Let_def split: sum.splits)
  have "dba_wf (dba_boot\<lparr>dba_ctx := replicate 128 alloc_zero, npu_fttr_base := base\<rparr>)"
    using boot_wf by (simp add: dba_wf_def)
  then have "dba_wf (fttr_ring_init dev (dba_boot\<lparr>dba_ctx := replicate 128 alloc_zero, npu_fttr_base := base\<rparr>))"
    by (simp add: fttr_ring_init_def fttr_rd_eq Let_def wf_io)
  then show ?thesis unfolding s by (simp add: dba_cfg_init_def tcont_init_wf tcont_load_wf)
qed


text \<open>The start of core 5, a mail that enables the timers, and a turn.\<close>

definition timer_mail :: dba_mail where
  "timer_mail =
     \<lparr>ml_alloc_id = 0, ml_fix_band = 0, ml_max_band = 0, ml_assure_band = 0, ml_func_type = 1,
      ml_func_id = 3, ml_get_timer_en = 1, ml_do_timer_en = 1, ml_enable = 0, ml_onu_id = 0, ml_state = 0,
      ml_sw_bwmap_test = 0, ml_dba_type = 0, ml_valid = 0, ml_fec = 0, ml_tcont_id = 0,
      ml_tcont_map_mode = 0, ml_ploamu_flag = 0, ml_reg = 0, ml_reg_val = 0, ml_olt_mode = 0,
      ml_all_band_to_single_onu = 0\<rparr>"


section \<open>The print of the non-idle counts\<close>

lemma tick_on:
  assumes "dba_print_en s = 0" "dba_print_no_idle_en s \<noteq> 0" "dba_rpt_tick s + 1 \<noteq> 8000"
  shows "dba_frame_tick s = s\<lparr>dba_rpt_tick := dba_rpt_tick s + 1\<rparr>"
  using assms by (simp add: dba_frame_tick_def Let_def)

text \<open>
  The print of the non-idle counts can be missed for days. The tick runs on from before the mail,
  and the print waits for the value 8000 itself: with a tick that is already there, no print comes
  before the 32-bit tick wraps, about 150 hours of 8000 frames a second.
\<close>

theorem no_idle_print_missed:
  assumes "dba_print_en s = 0" "dba_print_no_idle_en s \<noteq> 0" "8000 \<le> unat (dba_rpt_tick s)"
    and "unat (dba_rpt_tick s) + n < 4294967296"
  shows "(dba_frame_tick ^^ n) s = s\<lparr>dba_rpt_tick := dba_rpt_tick s + of_nat n\<rparr>"
  using assms(4)
proof (induction n)
  case (Suc n)
  let ?s = "s\<lparr>dba_rpt_tick := dba_rpt_tick s + of_nat n\<rparr>"
  have n: "unat (dba_rpt_tick s + of_nat n + 1) = unat (dba_rpt_tick s) + Suc n"
    using Suc.prems by (simp add: unat_word_ariths unat_of_nat)
  then have "dba_rpt_tick ?s + 1 \<noteq> 8000" using assms(3) by auto
  then have "dba_frame_tick ?s = s\<lparr>dba_rpt_tick := dba_rpt_tick s + of_nat (Suc n)\<rparr>"
    using tick_on [of ?s] assms(1,2) by (simp add: add.commute add.left_commute)
  then show ?case using Suc by simp
qed simp

theorem no_idle_print_missed_witness:
  "dba_no_idle_dump ((dba_frame_tick ^^ 1000000) (dba_boot\<lparr>dba_rpt_tick := 8000, dba_print_no_idle_en := 1\<rparr>)) = 0"
  using no_idle_print_missed [of "dba_boot\<lparr>dba_rpt_tick := 8000, dba_print_no_idle_en := 1\<rparr>" 1000000]
  by (simp add: dba_boot_def)

end
