(* ===== verification/Dba_Map.thy ===== *)
theory Dba_Map
  imports Dba_Safe Dba_Budget
begin

text \<open>
  The standard bandwidth map: what \<open>dba_bwmap_switch\<close> writes is an ordered list of windows inside
  the frame. A relation between the states before and after a part of the walk carries the windows
  written and the cost in units; it composes, so the walk is one induction per loop of the code.
\<close>

section \<open>Windows\<close>

type_synonym entry = "u16 \<times> u16 \<times> u32"

definition entry_writes :: "entry list \<Rightarrow> (u32 \<times> u32) list" where
  "entry_writes es = concat (map (\<lambda>(a, b, c). [(FTTR_BWMAP_W0, BWMAP_W0 a b), (FTTR_BWMAP_W1, c)]) es)"

text \<open>Windows from \<open>lo\<close> up to below \<open>hi\<close>, each after the one before it.\<close>

definition windows :: "nat \<Rightarrow> nat \<Rightarrow> entry list \<Rightarrow> bool" where
  "windows lo hi es \<longleftrightarrow> lo \<le> hi \<and> sorted_wrt (\<lambda>(a, b, c) (a', b', c'). b < a') es \<and>
     (\<forall>(a, b, c) \<in> set es. lo \<le> unat a \<and> a < b \<and> b \<le> DBA_STOP_MAX \<and> unat b < hi)"

lemma entry_writes_append [simp]: "entry_writes (es @ fs) = entry_writes es @ entry_writes fs" "entry_writes [] = []"
  by (simp_all add: entry_writes_def)

lemma windows_nil: "windows lo hi [] \<longleftrightarrow> lo \<le> hi"
  by (simp add: windows_def)

lemma windows_one:
  "lo \<le> unat a \<Longrightarrow> a < b \<Longrightarrow> b \<le> DBA_STOP_MAX \<Longrightarrow> unat b < hi \<Longrightarrow> windows lo hi [(a, b, c)]"
  by (auto simp: windows_def word_less_nat_alt)

lemma windows_append: "windows lo mid es \<Longrightarrow> windows mid hi fs \<Longrightarrow> windows lo hi (es @ fs)"
  unfolding windows_def sorted_wrt_append by (fastforce simp: word_less_nat_alt)

section \<open>A part of the walk\<close>

definition emitted :: "nat \<Rightarrow> dba \<Rightarrow> dba \<Rightarrow> bool" where
  "emitted c s t \<longleftrightarrow> dba_ctx t = dba_ctx s \<and> dba_burst_ovh t = dba_burst_ovh s \<and>
     unat (dba_bwmap_pos t) \<le> unat (dba_bwmap_pos s) + c \<and>
     (\<exists>es. writes (dba_io t) = writes (dba_io s) @ entry_writes es \<and>
        windows (unat (dba_bwmap_pos s)) (unat (dba_bwmap_pos t)) es)"

definition emits :: "nat \<Rightarrow> dba \<Rightarrow> dba \<Rightarrow> bool" where
  "emits c s t \<longleftrightarrow> (unat (dba_bwmap_pos s) + c < 65536 \<longrightarrow> emitted c s t)"

lemma emitted_trans:
  assumes "emitted c s t" "emitted d t u"
  shows "emitted (c + d) s u"
proof -
  obtain es fs where w: "writes (dba_io t) = writes (dba_io s) @ entry_writes es"
      "windows (unat (dba_bwmap_pos s)) (unat (dba_bwmap_pos t)) es"
      "writes (dba_io u) = writes (dba_io t) @ entry_writes fs"
      "windows (unat (dba_bwmap_pos t)) (unat (dba_bwmap_pos u)) fs"
    using assms by (auto simp: emitted_def)
  then have "writes (dba_io u) = writes (dba_io s) @ entry_writes (es @ fs)" by simp
  then have "\<exists>gs. writes (dba_io u) = writes (dba_io s) @ entry_writes gs \<and>
      windows (unat (dba_bwmap_pos s)) (unat (dba_bwmap_pos u)) gs"
    using windows_append [OF w(2,4)] by blast
  then show ?thesis using assms by (simp add: emitted_def)
qed

lemma emits_trans: "emits c s t \<Longrightarrow> emits d t u \<Longrightarrow> emits (c + d) s u"
  using emitted_trans [of c s t d u] by (auto simp: emits_def emitted_def [of c s t])

lemma emitted_refl: "emitted c s s"
  by (auto simp: emitted_def windows_nil intro!: exI [of _ "[]"])

lemma emits_mono: "emits c s t \<Longrightarrow> c \<le> d \<Longrightarrow> emits d s t"
  by (auto simp: emits_def emitted_def)

text \<open>One grant.\<close>

definition ovh :: "dba \<Rightarrow> nat" where "ovh s = unat (c16 (dba_burst_ovh s))"

lemma log_off_same [simp]:
  "dba_ctx (log_off s) = dba_ctx s" "dba_burst_ovh (log_off s) = dba_burst_ovh s"
  "dba_bwmap_pos (log_off s) = dba_bwmap_pos s" "dba_io (log_off s) = dba_io s"
  by (simp_all add: log_off_def)

lemma fttr_wr_same [simp]:
  "dba_ctx (fttr_wr dev r v s) = dba_ctx s" "dba_burst_ovh (fttr_wr dev r v s) = dba_burst_ovh s"
  "dba_bwmap_pos (fttr_wr dev r v s) = dba_bwmap_pos s"
  by (simp_all add: fttr_wr_def Let_def split: prod.split)

lemma end_pos: "unat (p :: u16) + unat b < 65536 \<Longrightarrow> unat (c16 (b + c32 p)) = unat p + unat (b :: u32)"
  by (simp add: unat_c16_c32 unat_add_small)

lemma handler_emits: "emits (unat (a_bw (dba_ctx s ! idx)) + ovh s) s (dba_config_bwmap_handler dev idx fec slot onu s)"
  unfolding emits_def
proof (rule impI)
  let ?bw = "a_bw (dba_ctx s ! idx)"
  let ?start = "if slot mod 4 = 0 \<and> dba_bwmap_pos s \<noteq> 0 then dba_bwmap_pos s + c16 (dba_burst_ovh s) else dba_bwmap_pos s"
  let ?fin = "c16 (?bw + c32 ?start)"
  assume small: "unat (dba_bwmap_pos s) + (unat ?bw + ovh s) < 65536"
  have st: "unat ?start \<le> unat (dba_bwmap_pos s) + ovh s" "unat (dba_bwmap_pos s) \<le> unat ?start"
    using small by (auto simp: ovh_def unat_add_small)
  have fin: "unat ?fin = unat ?start + unat ?bw"
    using st(1) small by (intro end_pos) linarith
  let ?t = "s\<lparr>bw_start := ?start, bw_stop := ?fin - 1, dba_bwmap_pos := ?fin\<rparr>"
  have skip: "emitted (unat ?bw + ovh s) s (log_off ?t)"
    using st fin by (auto simp: emitted_def windows_nil intro!: exI [of _ "[]"])
  show "emitted (unat ?bw + ovh s) s (dba_config_bwmap_handler dev idx fec slot onu s)"
  proof (cases "DBA_STOP_MAX < ?fin - 1 \<or> ?fin - 1 \<le> ?start")
    case True
    then show ?thesis using skip by (auto simp: dba_config_bwmap_handler_def Let_def)
  next
    case False
    define r where "r = dba_config_bwmap_handler dev idx fec slot onu s"
    obtain c where "writes (dba_io r) = writes (dba_io s) @ entry_writes [(?start, ?fin - 1, c)]"
        and r: "dba_ctx r = dba_ctx s" "dba_burst_ovh r = dba_burst_ovh s" "dba_bwmap_pos r = ?fin"
      using False unfolding r_def
      by (simp add: dba_config_bwmap_handler_def Let_def dba_bwmap_write_def entry_writes_def)
    moreover have "unat (?fin - 1) < unat ?fin"
    proof -
      have "?fin \<noteq> 0"
      proof
        assume "?fin = 0"
        then have "?fin - 1 = 0xFFFF" by simp
        then show False using False by (simp add: DBA_STOP_MAX_def)
      qed
      then show ?thesis using measure_unat by blast
    qed
    then have "windows (unat (dba_bwmap_pos s)) (unat ?fin) [(?start, ?fin - 1, c)]"
      using st(2) False by (intro windows_one) (blast intro: leI)+
    ultimately show ?thesis using st(1) fin unfolding r_def [symmetric] emitted_def by auto
  qed
qed

section \<open>The walk\<close>

definition grant_cost :: "nat \<Rightarrow> dba_alloc \<Rightarrow> nat" where
  "grant_cost v a = (if valid a then unat (a_bw a) + v else 0)"

lemma emit_grant_emits: "emits (grant_cost (ovh s) (dba_ctx s ! idx)) s (emit_grant dev fec onu slot idx s)"
  using handler_emits [of s idx dev fec slot onu] emitted_refl
  by (auto simp: emit_grant_def Let_def grant_cost_def emits_def emitted_def windows_nil intro: exI [of _ "[]"])

lemma emits_same:
  assumes "emits c s t" "unat (dba_bwmap_pos s) + c < 65536"
  shows "dba_ctx t = dba_ctx s" "ovh t = ovh s"
  using assms by (simp_all add: emits_def emitted_def ovh_def)

lemma emits_step:
  assumes "emits c s t" "dba_ctx t = dba_ctx s \<Longrightarrow> ovh t = ovh s \<Longrightarrow> emits d t u"
  shows "emits (c + d) s u"
proof (cases "unat (dba_bwmap_pos s) + c < 65536")
  case True
  then show ?thesis using emits_trans [OF assms(1)] assms(2) emits_same [OF assms(1)] by blast
qed (simp add: emits_def)

lemma emit_grants_emits:
  "emits (\<Sum>(slot, idx) \<leftarrow> sl. grant_cost (ovh s) (dba_ctx s ! idx)) s (emit_grants dev fec onu sl s)"
proof (induction dev fec onu sl s rule: emit_grants.induct)
  case (1 dev fec onu s)
  then show ?case by (simp add: emits_def emitted_refl)
next
  case (2 dev fec onu slot idx sl s)
  show ?case unfolding emit_grants.simps list.map sum_list.Cons prod.case
    by (rule emits_step [OF emit_grant_emits [where dev = dev and fec = fec and onu = onu and slot = slot]]) (use 2 in simp)
qed

lemma onu_map_emits:
  assumes "valid (dba_ctx s ! onu) \<Longrightarrow> c_flags (a_cfg (dba_ctx s ! onu)) AND 2 = 0"
  shows "emits (\<Sum>idx \<leftarrow> onu_slots m onu. grant_cost (ovh s) (dba_ctx s ! idx)) s (onu_map dev m onu s)"
proof (cases "valid (dba_ctx s ! onu)")
  case True
  let ?s = "s\<lparr>dba_onu_tx_burst := (dba_onu_tx_burst s)[onu := dba_onu_tx_burst s ! onu + 1]\<rparr>"
  have "(\<Sum>(slot, idx) \<leftarrow> enumerate 0 xs. f idx) = (\<Sum>idx \<leftarrow> xs. f idx)" for xs and f :: "nat \<Rightarrow> nat"
    by (simp add: case_prod_beta' flip: map_map [of f snd, unfolded comp_def])
  moreover have "emits c s t \<longleftrightarrow> emits c ?s t" for c t by (simp add: emits_def emitted_def)
  ultimately show ?thesis
    using emit_grants_emits [where sl = "enumerate 0 (onu_slots m onu)" and s = ?s and dev = dev and fec = False and onu = onu] True assms
    by (simp add: onu_map_def Let_def valid_def ovh_def)
next
  case False
  then have "onu_map dev m onu s = s" by (simp add: onu_map_def Let_def valid_def)
  then show ?thesis by (simp add: emits_def emitted_refl)
qed

lemma onus_emits:
  assumes "\<forall>onu \<in> set onus. valid (dba_ctx s ! onu) \<longrightarrow> c_flags (a_cfg (dba_ctx s ! onu)) AND 2 = 0"
  shows "emits (\<Sum>onu \<leftarrow> onus. \<Sum>idx \<leftarrow> onu_slots m onu. grant_cost (ovh s) (dba_ctx s ! idx)) s
    (fold (onu_map dev m) onus s)"
  using assms
proof (induction onus arbitrary: s)
  case Nil
  then show ?case by (simp add: emits_def emitted_refl)
next
  case (Cons onu onus)
  have "emits (\<Sum>idx \<leftarrow> onu_slots m onu. grant_cost (ovh s) (dba_ctx s ! idx)) s (onu_map dev m onu s)"
    using Cons.prems by (intro onu_map_emits) simp
  moreover have "emits (\<Sum>onu \<leftarrow> onus. \<Sum>idx \<leftarrow> onu_slots m onu. grant_cost (ovh s) (dba_ctx s ! idx)) t
      (fold (onu_map dev m) onus t)" if "dba_ctx t = dba_ctx s" "ovh t = ovh s" for t
    using Cons.IH [of t] Cons.prems that by simp
  ultimately have "emits ((\<Sum>idx \<leftarrow> onu_slots m onu. grant_cost (ovh s) (dba_ctx s ! idx)) +
      (\<Sum>onu \<leftarrow> onus. \<Sum>idx \<leftarrow> onu_slots m onu. grant_cost (ovh s) (dba_ctx s ! idx))) s
      (fold (onu_map dev m) onus (onu_map dev m onu s))"
    by (rule emits_step)
  then show ?case by simp
qed

text \<open>Every index is one slot of one ONU.\<close>

lemma slots_sum:
  fixes f :: "nat \<Rightarrow> nat"
  shows "(\<Sum>onu \<leftarrow> [0..<unat (m_onu (dba_map_of md))]. \<Sum>idx \<leftarrow> onu_slots (dba_map_of md) onu. f idx) = (\<Sum>i < 128. f i)"
proof -
  let ?m = "dba_map_of md"
  have "(\<Sum>onu \<leftarrow> [0..<unat (m_onu ?m)]. \<Sum>idx \<leftarrow> onu_slots ?m onu. f idx) =
      (\<Sum>onu < unat (m_onu ?m). \<Sum>t < unat (m_tc ?m). f (tc_slot ?m t onu))"
    by (simp add: onu_slots_def comp_def interv_sum_list_conv_sum_set_nat atLeast0LessThan)
  also have "\<dots> = (\<Sum>(onu, t) \<in> {..<unat (m_onu ?m)} \<times> {..<unat (m_tc ?m)}. f (tc_slot ?m t onu))"
    by (simp add: sum.cartesian_product)
  also have "\<dots> = (\<Sum>i < 128. f i)"
    using sum.reindex_bij_betw [OF tc_slot_bij [of md], of f] by (simp add: case_prod_beta')
  finally show ?thesis .
qed

lemma bank_writes:
  "\<exists>v. writes (dba_io (dba_bwmap_bank_set dev b s)) = writes (dba_io s) @ [(FTTR_BWMAP_CTRL, v)]"
  "\<exists>v. writes (dba_io (dba_bwmap_empty_set dev b s)) = writes (dba_io s) @ [(FTTR_BWMAP_CTRL, v)]"
  by (simp_all add: dba_bwmap_bank_set_def dba_bwmap_empty_set_def fttr_rd_eq Let_def)

lemma bank_get_writes: "dba_bwmap_bank_get dev s = (v, w, t) \<Longrightarrow> writes (dba_io t) = writes (dba_io s)"
  by (auto simp: dba_bwmap_bank_get_def fttr_rd_eq)

lemma bank_flip_writes:
  "\<exists>vs. writes (dba_io (bank_flip dev old s)) = writes (dba_io s) @ map (Pair FTTR_BWMAP_CTRL) vs \<and> length vs \<le> 2"
proof -
  obtain hw sw t where g: "dba_bwmap_bank_get dev s = (hw, sw, t)" by (metis prod_cases3)
  let ?u = "dba_bwmap_bank_set dev (if hw \<noteq> 0 then 0 else 1) t"
  let ?e = "dba_bwmap_empty_set dev (if dba_bwmap_nonempty ?u \<noteq> 0 then 0 else 1) ?u"
  obtain v where v: "writes (dba_io ?u) = writes (dba_io t) @ map (Pair FTTR_BWMAP_CTRL) [v]"
    using bank_writes(1) [of dev "if hw \<noteq> 0 then 0 else 1" t] by auto
  obtain w where "writes (dba_io ?e) = writes (dba_io ?u) @ [(FTTR_BWMAP_CTRL, w)]"
    using bank_writes(2) by blast
  then have w: "writes (dba_io ?e) = writes (dba_io t) @ map (Pair FTTR_BWMAP_CTRL) [v, w]" using v by simp
  have "bank_flip dev old s \<in> {t, ?u, ?e}" by (simp add: bank_flip_def g Let_def)
  then show ?thesis using v w bank_get_writes [OF g]
    by (elim insertE emptyE) (auto intro: exI [of _ "[]"] exI [of _ "[v]"] exI [of _ "[v, w]"])
qed

text \<open>
  C26. The windows of a map. Without FEC and with grants that (with one burst overhead each) stay below
  65536 units, the standard map is a list of windows inside the frame, each starting after the end
  of the one before, followed by nothing but the request for the other bank: no two ONUs are ever
  granted the same time, whatever the grants are.
\<close>

theorem bwmap_windows_disjoint:
  assumes "\<forall>onu < unat (m_onu (dba_map_of (c32 (tc_mode s)))).
      valid (dba_ctx s ! onu) \<longrightarrow> c_flags (a_cfg (dba_ctx s ! onu)) AND 2 = 0"
    and "(\<Sum>i < 128. grant_cost (unat (c16 (dba_burst_ovh s))) (dba_ctx s ! i)) < 65536"
  shows "\<exists>es vs. writes (dba_io (dba_bwmap_switch dev s)) =
      writes (dba_io s) @ entry_writes es @ map (Pair FTTR_BWMAP_CTRL) vs \<and>
    sorted_wrt (\<lambda>(a, b, c) (a', b', c'). b < a') es \<and> (\<forall>(a, b, c) \<in> set es. a < b \<and> b \<le> DBA_STOP_MAX)"
proof -
  let ?m = "dba_map_of (c32 (tc_mode s))"
  let ?s = "s\<lparr>dba_bwmap_nonempty := (if dba_bwmap_left s \<noteq> 0 then 1 else 0), dba_bwmap_pos := 0\<rparr>"
  let ?t = "fold (onu_map dev ?m) [0..<unat (m_onu ?m)] ?s"
  have "emits (\<Sum>i < 128. grant_cost (ovh ?s) (dba_ctx ?s ! i)) ?s ?t"
    unfolding slots_sum [where md = "c32 (tc_mode s)", symmetric]
    by (rule onus_emits) (use assms(1) in simp)
  then have "\<exists>es. writes (dba_io ?t) = writes (dba_io s) @ entry_writes es \<and> windows 0 (unat (dba_bwmap_pos ?t)) es"
    using assms(2) by (simp add: emits_def emitted_def ovh_def)
  then obtain es where es: "writes (dba_io ?t) = writes (dba_io s) @ entry_writes es"
      "windows 0 (unat (dba_bwmap_pos ?t)) es" by blast
  obtain vs where "writes (dba_io (dba_bwmap_switch dev s)) = writes (dba_io ?t) @ map (Pair FTTR_BWMAP_CTRL) vs"
    using bank_flip_writes [of dev "dba_bwmap_nonempty s" ?t] by (auto simp: dba_bwmap_switch_def Let_def)
  then show ?thesis using es by (auto simp: windows_def intro!: exI [of _ es] exI [of _ vs])
qed

theorem bwmap_windows_disjoint_witness:
  "\<exists>es vs. writes (dba_io (dba_bwmap_switch (\<lambda>_ _. 0) (two_onus best_effort 5000 best_effort 6000))) =
      entry_writes es @ map (Pair FTTR_BWMAP_CTRL) vs \<and>
    sorted_wrt (\<lambda>(a, b, c) (a', b', c'). b < a') es \<and> (\<forall>(a, b, c) \<in> set es. a < b \<and> b \<le> DBA_STOP_MAX)"
proof -
  let ?s = "two_onus best_effort 5000 best_effort 6000"
  have l: "length (dba_ctx ?s) = 128" by (simp add: two_onus_def)
  have v: "valid (alloc_zero\<lparr>a_cfg := best_effort, a_bw := b\<rparr>)" "\<not> valid alloc_zero" for b
    by (simp_all add: valid_def best_effort_def alloc_zero_def tcont_zero_def)
  have "(\<Sum>i < 128. grant_cost 46 (dba_ctx ?s ! i)) = sum_list (map (grant_cost 46) (dba_ctx ?s))"
    by (simp add: sum_list_sum_nth l atLeast0LessThan)
  also have "\<dots> = 11092"
    using v by (simp add: two_onus_def grant_cost_def)
  finally have c: "(\<Sum>i < 128. grant_cost (unat (c16 (dba_burst_ovh ?s))) (dba_ctx ?s ! i)) < 65536"
    by (simp add: two_onus_def dba_boot_def)
  have f: "c_flags (a_cfg a) AND 2 = 0" if "a \<in> set (dba_ctx ?s)" for a
    using that by (auto simp: two_onus_def best_effort_def alloc_zero_def tcont_zero_def)
  have "\<forall>onu < unat (m_onu (dba_map_of (c32 (tc_mode ?s)))).
      valid (dba_ctx ?s ! onu) \<longrightarrow> c_flags (a_cfg (dba_ctx ?s ! onu)) AND 2 = 0"
  proof (intro allI impI)
    fix onu assume "onu < unat (m_onu (dba_map_of (c32 (tc_mode ?s))))"
    then have "onu < length (dba_ctx ?s)" using layout_size(2) [of "c32 (tc_mode ?s)"] l by linarith
    then show "c_flags (a_cfg (dba_ctx ?s ! onu)) AND 2 = 0" by (rule f [OF nth_mem])
  qed
  from bwmap_windows_disjoint [OF this c, of "\<lambda>_ _. 0"] show ?thesis
    by (simp add: two_onus_def dba_boot_def)
qed

end
