(* ===== verification/Plic.thy ===== *)
theory Plic
  imports Mutex Contracts
begin

text \<open>
  \<open>npu_plic.c\<close>: the interrupt sources, numbered from 0 by this code and from 1 by the hardware.
  The table of handlers holds function pointers; what a handler does is an argument of the model.
\<close>

section \<open>State\<close>

datatype isr = No_isr | Default_isr | Isr u32

record plic =
  plic_isr_table :: "isr list"
  plic_isr_init_done :: u32
  plic_threshold_table :: "u8 list"
  plic_io :: "access list"

text \<open>The globals of the image: zeroed tables.\<close>

definition plic_boot :: plic where
  "plic_boot = \<lparr>plic_isr_table = replicate 192 No_isr, plic_isr_init_done = 0,
     plic_threshold_table = replicate 8 0, plic_io = []\<rparr>"

definition PLIC_PRIORITY :: "u32 \<Rightarrow> u32" where "PLIC_PRIORITY src = 0x0C000004 + src * 4"
definition PLIC_ENABLE_REG :: "u32 \<Rightarrow> u32" where "PLIC_ENABLE_REG w = 0x0C002000 + w * 4"
definition PLIC_MASK_REG :: "u32 \<Rightarrow> u32" where "PLIC_MASK_REG w = 0x0C003000 + w * 4"
definition PLIC_THRESHOLD_REG :: u32 where "PLIC_THRESHOLD_REG = 0x0C200000"
definition PLIC_CLAIM_REG :: u32 where "PLIC_CLAIM_REG = 0x0C200004"

definition plic_rd :: "device \<Rightarrow> u32 \<Rightarrow> plic \<Rightarrow> u32 \<times> plic" where
  "plic_rd dev a p = (let (v, tr) = reg_rd dev a (plic_io p) in (v, p\<lparr>plic_io := tr\<rparr>))"

definition plic_wr :: "u32 \<Rightarrow> u32 \<Rightarrow> plic \<Rightarrow> plic" where
  "plic_wr a v p = p\<lparr>plic_io := reg_wr a v (plic_io p)\<rparr>"

text \<open>\<open>REG32(a) |= b\<close> and \<open>REG32(a) &= ~b\<close>.\<close>

definition plic_set :: "device \<Rightarrow> u32 \<Rightarrow> u32 \<Rightarrow> plic \<Rightarrow> plic" where
  "plic_set dev a b p = (let (v, p) = plic_rd dev a p in plic_wr a (v OR b) p)"

definition plic_clear :: "device \<Rightarrow> u32 \<Rightarrow> u32 \<Rightarrow> plic \<Rightarrow> plic" where
  "plic_clear dev a b p = (let (v, p) = plic_rd dev a p in plic_wr a (v AND NOT b) p)"

section \<open>Operations\<close>

definition plic_set_threshold :: "u32 \<Rightarrow> plic \<Rightarrow> plic" where
  "plic_set_threshold hart p =
     plic_wr PLIC_THRESHOLD_REG (c32 (plic_threshold_table p ! unat hart) AND 0x1F) p"

definition plic_get_priority :: "device \<Rightarrow> u32 \<Rightarrow> plic \<Rightarrow> u32 \<times> plic" where
  "plic_get_priority dev src p =
     (if 191 < src then (16, p)
      else (let (v, p) = plic_rd dev (PLIC_PRIORITY src) p in (v AND 0x1F, p)))"

definition plic_set_priority :: "u32 \<Rightarrow> u8 \<Rightarrow> plic \<Rightarrow> plic" where
  "plic_set_priority src prio p =
     (if 191 < src then p else plic_wr (PLIC_PRIORITY src) (c32 prio AND 0x1F) p)"

definition plic_word :: "u32 \<Rightarrow> u32" where "plic_word src = drop_bit 5 (src + 1)"
definition plic_bit :: "u32 \<Rightarrow> u32" where "plic_bit src = push_bit (unat ((src + 1) AND 0x1F)) 1"

definition plic_enable :: "device \<Rightarrow> u32 \<Rightarrow> plic \<Rightarrow> plic" where
  "plic_enable dev src p =
     (if 191 < src then p
      else plic_set dev (PLIC_ENABLE_REG (plic_word src)) (plic_bit src)
             (plic_clear dev (PLIC_MASK_REG (plic_word src)) (plic_bit src) p))"

definition plic_disable :: "device \<Rightarrow> u32 \<Rightarrow> plic \<Rightarrow> plic" where
  "plic_disable dev src p =
     (if 191 < src then p
      else plic_clear dev (PLIC_ENABLE_REG (plic_word src)) (plic_bit src)
             (plic_set dev (PLIC_MASK_REG (plic_word src)) (plic_bit src) p))"

definition plic_enable_wrapper :: "device \<Rightarrow> u32 \<Rightarrow> plic \<Rightarrow> plic" where
  "plic_enable_wrapper dev src p = plic_enable dev src p"

definition plic_init_one :: "device \<Rightarrow> u32 \<Rightarrow> nat \<Rightarrow> plic \<Rightarrow> plic" where
  "plic_init_one dev hart i p =
     (let p = plic_disable dev (of_nat i) p;
          p = plic_wr (PLIC_PRIORITY (of_nat i)) (if i = 95 then 17 else 16) p
      in if hart = 0 \<and> plic_isr_init_done p = 0
         then p\<lparr>plic_isr_table := (plic_isr_table p)[i := Default_isr]\<rparr> else p)"

definition plic_init :: "device \<Rightarrow> u32 \<Rightarrow> plic \<Rightarrow> plic" where
  "plic_init dev hart p =
     (let p = fold (plic_init_one dev hart) [0..<192] (plic_set_threshold hart p)
      in if hart = 0 then p\<lparr>plic_isr_init_done := 1\<rparr> else p)"

definition plic_register_isr :: "device \<Rightarrow> u32 \<Rightarrow> isr \<Rightarrow> plic \<Rightarrow> plic" where
  "plic_register_isr dev src h p =
     plic_enable dev src
       (if 191 < src then p
        else
          (let cur = plic_isr_table p ! unat src
           in if h \<noteq> Default_isr \<and> h \<noteq> No_isr \<and> cur \<noteq> Default_isr \<and> cur \<noteq> No_isr then p
              else p\<lparr>plic_isr_table := (plic_isr_table p)[unat src := h]\<rparr>))"

text \<open>
  A call runs the handler (\<open>run\<close>, on the interrupt state and the rest \<open>'w\<close> of the system) and then
  completes the claim.
\<close>

definition call_isr_by_src :: "(isr \<Rightarrow> u32 \<Rightarrow> plic \<times> 'w \<Rightarrow> plic \<times> 'w) \<Rightarrow> u32 \<Rightarrow> plic \<times> 'w \<Rightarrow> plic \<times> 'w" where
  "call_isr_by_src run src q =
     (if 191 < src then q
      else
        (let h = plic_isr_table (fst q) ! unat src;
             (p, w) = (if h \<noteq> No_isr then run h src q else q)
         in (plic_wr PLIC_CLAIM_REG (src + 1) p, w)))"

section \<open>Registers that read back what was written\<close>

text \<open>The PLIC's enable and mask words are plain storage: a read returns the last write.\<close>

definition storage :: "(u32 \<Rightarrow> u32) \<Rightarrow> device" where
  "storage i tr a = fold (\<lambda>(a', v) w. if a' = a then v else w) (writes tr) (i a)"

lemma storage_wr: "storage i (reg_wr a v tr) b = (if a = b then v else storage i tr b)"
  by (simp add: storage_def reg_wr_def)

lemma storage_rd: "storage i (tr @ [Rd a v]) b = storage i tr b"
  by (simp add: storage_def)

abbreviation plic_reg :: "(u32 \<Rightarrow> u32) \<Rightarrow> plic \<Rightarrow> u32 \<Rightarrow> u32" where
  "plic_reg i p a \<equiv> storage i (plic_io p) a"

lemma plic_wr_reg [simp]: "plic_reg i (plic_wr a v p) b = (if a = b then v else plic_reg i p b)"
  by (simp add: plic_wr_def storage_wr)

lemma plic_upd_reg:
  "plic_reg i (plic_set (storage i) a m p) b = (if a = b then plic_reg i p a OR m else plic_reg i p b)"
  "plic_reg i (plic_clear (storage i) a m p) b = (if a = b then plic_reg i p a AND NOT m else plic_reg i p b)"
  by (simp_all add: plic_set_def plic_clear_def plic_rd_def plic_wr_def reg_rd_def storage_wr storage_rd Let_def)

text \<open>A source is delivered when its enable bit is set and its mask bit is not.\<close>

definition delivered :: "(u32 \<Rightarrow> u32) \<Rightarrow> plic \<Rightarrow> nat \<Rightarrow> bool" where
  "delivered i p s \<longleftrightarrow>
     bit (plic_reg i p (PLIC_ENABLE_REG (of_nat ((s + 1) div 32)))) ((s + 1) mod 32) \<and>
     \<not> bit (plic_reg i p (PLIC_MASK_REG (of_nat ((s + 1) div 32)))) ((s + 1) mod 32)"

lemma word_of_source: "k < 192 \<Longrightarrow> plic_word (of_nat k) = of_nat ((k + 1) div 32)"
proof -
  assume "k < 192"
  then have "unat (of_nat k + 1 :: u32) = k + 1" by (simp add: unat_word_ariths unat_of_nat)
  then show ?thesis
    using \<open>k < 192\<close> by (simp add: plic_word_def word_unat_eq_iff unat_drop_bit unat_of_nat div_le_dividend)
qed

lemma bit_of_source: "k < 192 \<Longrightarrow> plic_bit (of_nat k) = push_bit ((k + 1) mod 32) 1"
proof -
  assume "k < 192"
  then have "unat (of_nat k + 1 :: u32) = k + 1" by (simp add: unat_word_ariths unat_of_nat)
  moreover have "(0x1F :: u32) = mask 5" by (simp add: mask_eq_exp_minus_1)
  ultimately show ?thesis by (simp only: plic_bit_def unat_and_mask) simp
qed

lemma plic_reg_addr:
  "v < 7 \<Longrightarrow> unat (PLIC_ENABLE_REG (of_nat v)) = 0x0C002000 + 4 * v"
  "v < 7 \<Longrightarrow> unat (PLIC_MASK_REG (of_nat v)) = 0x0C003000 + 4 * v"
  by (simp_all add: PLIC_ENABLE_REG_def PLIC_MASK_REG_def unat_word_ariths unat_of_nat)

lemma plic_regs_apart:
  assumes "v < 7" "w < 7"
  shows "PLIC_ENABLE_REG (of_nat v) = PLIC_ENABLE_REG (of_nat w) \<longleftrightarrow> v = w"
    "PLIC_MASK_REG (of_nat v) = PLIC_MASK_REG (of_nat w) \<longleftrightarrow> v = w"
    "PLIC_ENABLE_REG (of_nat v) \<noteq> PLIC_MASK_REG (of_nat w)"
  using plic_reg_addr [OF assms(1)] plic_reg_addr [OF assms(2)] assms by (auto simp: word_unat_eq_iff)

lemma source_parts:
  fixes k j :: nat
  assumes "k < 192" "j < 192"
  shows "(k + 1) div 32 < 7" "(k + 1) div 32 = (j + 1) div 32 \<Longrightarrow> (k + 1) mod 32 = (j + 1) mod 32 \<Longrightarrow> j = k"
proof -
  show "(k + 1) div 32 < 7" using assms(1) by (simp add: less_mult_imp_div_less)
  assume "(k + 1) div 32 = (j + 1) div 32" "(k + 1) mod 32 = (j + 1) mod 32"
  then have "k + 1 = j + 1" by (metis div_mult_mod_eq)
  then show "j = k" by simp
qed

definition plic_turn :: "device \<Rightarrow> bool \<Rightarrow> nat \<Rightarrow> plic \<Rightarrow> plic" where
  "plic_turn dev b k = (if b then plic_enable dev (of_nat k) else plic_disable dev (of_nat k))"

lemma source_bit: "bit (push_bit (n mod 32) (1 :: u32)) x \<longleftrightarrow> x = n mod 32"
  by (auto simp: bit_push_bit_iff bit_1_iff simp del: push_bit_of_1)

lemma plic_turn_regs:
  assumes "k < 192" "w < 7"
  shows "plic_reg i (plic_turn (storage i) b k p) (PLIC_ENABLE_REG (of_nat w)) =
      (if w = (k + 1) div 32 then
         (if b then plic_reg i p (PLIC_ENABLE_REG (of_nat w)) OR push_bit ((k + 1) mod 32) 1
          else plic_reg i p (PLIC_ENABLE_REG (of_nat w)) AND NOT (push_bit ((k + 1) mod 32) 1))
       else plic_reg i p (PLIC_ENABLE_REG (of_nat w)))"
    "plic_reg i (plic_turn (storage i) b k p) (PLIC_MASK_REG (of_nat w)) =
      (if w = (k + 1) div 32 then
         (if b then plic_reg i p (PLIC_MASK_REG (of_nat w)) AND NOT (push_bit ((k + 1) mod 32) 1)
          else plic_reg i p (PLIC_MASK_REG (of_nat w)) OR push_bit ((k + 1) mod 32) 1)
       else plic_reg i p (PLIC_MASK_REG (of_nat w)))"
proof -
  have n: "\<not> (191 < (of_nat k :: u32))" using assms(1) by (simp add: word_less_nat_alt unat_of_nat)
  define v where "v = (k + 1) div 32"
  define m where "m = push_bit ((k + 1) mod 32) (1 :: u32)"
  have v: "v < 7" using source_parts(1) [of k k] assms(1) by (simp add: v_def)
  note ap = plic_regs_apart [OF v assms(2)] plic_regs_apart(3) [OF assms(2) v, symmetric] plic_regs_apart(3) [OF v v]
    plic_regs_apart(3) [OF v v, symmetric]
  have t: "plic_turn (storage i) b k p =
      (if b then plic_set (storage i) (PLIC_ENABLE_REG (of_nat v)) m (plic_clear (storage i) (PLIC_MASK_REG (of_nat v)) m p)
       else plic_clear (storage i) (PLIC_ENABLE_REG (of_nat v)) m (plic_set (storage i) (PLIC_MASK_REG (of_nat v)) m p))"
    using n by (simp add: plic_turn_def plic_enable_def plic_disable_def word_of_source bit_of_source assms(1) v_def m_def)
  show "plic_reg i (plic_turn (storage i) b k p) (PLIC_ENABLE_REG (of_nat w)) =
      (if w = (k + 1) div 32 then
         (if b then plic_reg i p (PLIC_ENABLE_REG (of_nat w)) OR push_bit ((k + 1) mod 32) 1
          else plic_reg i p (PLIC_ENABLE_REG (of_nat w)) AND NOT (push_bit ((k + 1) mod 32) 1))
       else plic_reg i p (PLIC_ENABLE_REG (of_nat w)))"
    unfolding t v_def [symmetric] m_def [symmetric] by (auto simp: plic_upd_reg ap)
  show "plic_reg i (plic_turn (storage i) b k p) (PLIC_MASK_REG (of_nat w)) =
      (if w = (k + 1) div 32 then
         (if b then plic_reg i p (PLIC_MASK_REG (of_nat w)) AND NOT (push_bit ((k + 1) mod 32) 1)
          else plic_reg i p (PLIC_MASK_REG (of_nat w)) OR push_bit ((k + 1) mod 32) 1)
       else plic_reg i p (PLIC_MASK_REG (of_nat w)))"
    unfolding t v_def [symmetric] m_def [symmetric] by (auto simp: plic_upd_reg ap)
qed

lemma plic_turn_delivered:
  assumes "k < 192" "j < 192"
  shows "delivered i (plic_turn (storage i) b k p) j \<longleftrightarrow> (if j = k then b else delivered i p j)"
proof -
  have "(k + 1) mod 32 < 32" by simp
  then show ?thesis
    using source_parts [OF assms] source_parts(1) [OF assms(2,1)]
    unfolding delivered_def plic_turn_regs [OF assms(1) source_parts(1) [OF assms(2,1)]]
    by (auto simp: bit_or_iff bit_and_iff bit_not_iff source_bit simp del: push_bit_of_1 One_nat_def Suc_eq_plus1_left add_Suc_right add_0_right)
qed

interpretation sources: switches "plic_turn (storage i)" "delivered i" "\<lambda>k. k < 192"
  by unfold_locales (rule plic_turn_delivered)

section \<open>Start\<close>

lemma priority_apart:
  assumes "k < 192" "w < 7"
  shows "PLIC_PRIORITY (of_nat k) \<noteq> PLIC_ENABLE_REG (of_nat w)" "PLIC_PRIORITY (of_nat k) \<noteq> PLIC_MASK_REG (of_nat w)"
proof -
  have "unat (PLIC_PRIORITY (of_nat k)) = 0x0C000004 + 4 * k"
    using assms(1) by (simp add: PLIC_PRIORITY_def unat_word_ariths unat_of_nat)
  then show "PLIC_PRIORITY (of_nat k) \<noteq> PLIC_ENABLE_REG (of_nat w)" "PLIC_PRIORITY (of_nat k) \<noteq> PLIC_MASK_REG (of_nat w)"
    using plic_reg_addr [OF assms(2)] assms by (auto simp: word_unat_eq_iff)
qed

lemma delivered_table [simp]: "delivered i (p\<lparr>plic_isr_table := t\<rparr>) j = delivered i p j"
    "delivered i (p\<lparr>plic_isr_init_done := d\<rparr>) j = delivered i p j"
  by (simp_all add: delivered_def)

lemma init_one_delivered:
  assumes "k < 192" "j < 192"
  shows "delivered i (plic_init_one (storage i) hart k p) j \<longleftrightarrow> j \<noteq> k \<and> delivered i p j"
proof -
  have d: "delivered i (plic_wr (PLIC_PRIORITY (of_nat k)) v q) j = delivered i q j" for v q
    using priority_apart [OF assms(1) source_parts(1) [OF assms(2,1)]] by (simp add: delivered_def)
  show ?thesis
    using plic_turn_delivered [OF assms, of i False p]
    by (auto simp: plic_init_one_def Let_def d plic_turn_def)
qed

lemma init_delivered: "j < 192 \<Longrightarrow> \<not> delivered i (plic_init (storage i) hart p) j"
proof -
  assume j: "j < 192"
  have "delivered i (fold (plic_init_one (storage i) hart) ks q) j \<longleftrightarrow> j \<notin> set ks \<and> delivered i q j"
    if "\<forall>k \<in> set ks. k < 192" for ks q
    using that by (induction ks arbitrary: q) (auto simp: init_one_delivered j)
  from this [of "[0..<192]" "plic_set_threshold hart p"]
  have "\<not> delivered i (fold (plic_init_one (storage i) hart) [0..<192] (plic_set_threshold hart p)) j" using j by simp
  moreover have "delivered i (plic_init (storage i) hart p) j =
      delivered i (fold (plic_init_one (storage i) hart) [0..<192] (plic_set_threshold hart p)) j"
    by (simp add: plic_init_def Let_def del: fold_simps)
  ultimately show ?thesis by blast
qed

lemma plic_upd_table [simp]:
  "plic_isr_table (plic_wr a v p) = plic_isr_table p" "plic_isr_table (plic_set dev a m p) = plic_isr_table p"
  "plic_isr_table (plic_clear dev a m p) = plic_isr_table p"
  "plic_isr_init_done (plic_wr a v p) = plic_isr_init_done p"
  "plic_isr_init_done (plic_set dev a m p) = plic_isr_init_done p"
  "plic_isr_init_done (plic_clear dev a m p) = plic_isr_init_done p"
  by (simp_all add: plic_wr_def plic_set_def plic_clear_def plic_rd_def reg_rd_def Let_def)

lemma plic_turn_table [simp]:
  "plic_isr_table (plic_enable dev src p) = plic_isr_table p" "plic_isr_table (plic_disable dev src p) = plic_isr_table p"
  "plic_isr_init_done (plic_enable dev src p) = plic_isr_init_done p"
  "plic_isr_init_done (plic_disable dev src p) = plic_isr_init_done p"
  by (simp_all add: plic_enable_def plic_disable_def)

lemma init_one_table:
  "plic_isr_init_done (plic_init_one dev hart k p) = plic_isr_init_done p"
  "plic_isr_table (plic_init_one dev hart k p) =
     (if hart = 0 \<and> plic_isr_init_done p = 0 then (plic_isr_table p)[k := Default_isr] else plic_isr_table p)"
  by (simp_all add: plic_init_one_def Let_def)

lemma init_all_table:
  "plic_isr_init_done (fold (plic_init_one dev hart) ks p) = plic_isr_init_done p \<and>
   plic_isr_table (fold (plic_init_one dev hart) ks p) =
     (if hart = 0 \<and> plic_isr_init_done p = 0 then fold (\<lambda>k t. t[k := Default_isr]) ks (plic_isr_table p)
      else plic_isr_table p)"
  by (induction ks arbitrary: p) (simp_all add: init_one_table)

lemma init_table:
  "plic_isr_init_done p \<noteq> 0 \<or> hart \<noteq> 0 \<Longrightarrow> plic_isr_table (plic_init dev hart p) = plic_isr_table p"
  "plic_isr_init_done (plic_init dev hart p) = (if hart = 0 then 1 else plic_isr_init_done p)"
  using init_all_table [of dev hart "[0..<192]" "plic_set_threshold hart p"]
  by (auto simp: plic_init_def Let_def plic_set_threshold_def simp del: fold_simps upt_conv_Cons)

lemma fold_fill: "fold (\<lambda>k t. t[k := x]) [0..<n] t = replicate (min n (length t)) x @ drop n t"
proof (induction n)
  case (Suc n)
  then show ?case
    by (cases "n < length t") (simp_all add: list_update_append list_update_beyond replicate_append_same
        flip: Cons_nth_drop_Suc)
qed simp

lemma init_first: "plic_isr_init_done p = 0 \<Longrightarrow> length (plic_isr_table p) = 192 \<Longrightarrow>
   plic_isr_table (plic_init dev 0 p) = replicate 192 Default_isr"
  using init_all_table [of dev 0 "[0..<192]" "plic_set_threshold 0 p"] fold_fill [of Default_isr 192 "plic_isr_table p"]
  by (simp add: plic_init_def Let_def plic_set_threshold_def del: fold_simps upt_conv_Cons)

section \<open>Properties\<close>

text \<open>
  C28. Which sources reach a hart. With enable and mask words that read back what was written,
  \<open>plic_init\<close> silences every source, and after any sequence of \<open>plic_enable\<close> and \<open>plic_disable\<close>
  a source is delivered exactly if the last of them on it was an enable: no call touches another source.
\<close>

theorem plic_delivery:
  assumes "\<forall>(k, b) \<in> set ops. k < 192" "j < 192"
  shows "delivered i (fold (\<lambda>(k, b). plic_turn (storage i) b k) ops (plic_init (storage i) hart p)) j \<longleftrightarrow>
    map_of (rev ops) j = Some True"
  using sources.turns [OF assms, where s = "plic_init (storage i) hart p"] init_delivered [OF assms(2)]
  by (auto split: option.splits)

theorem plic_delivery_witness:
  "delivered (\<lambda>_. 0xFFFFFFFF) (fold (\<lambda>(k, b). plic_turn (storage (\<lambda>_. 0xFFFFFFFF)) b k)
       [(31, True), (8, True), (63, True), (8, False)] (plic_init (storage (\<lambda>_. 0xFFFFFFFF)) 2 plic_boot)) 63 \<and>
   \<not> delivered (\<lambda>_. 0xFFFFFFFF) (fold (\<lambda>(k, b). plic_turn (storage (\<lambda>_. 0xFFFFFFFF)) b k)
       [(31, True), (8, True), (63, True), (8, False)] (plic_init (storage (\<lambda>_. 0xFFFFFFFF)) 2 plic_boot)) 8"
proof -
  let ?ops = "[(31, True), (8, True), (63, True), (8, False)] :: (nat \<times> bool) list"
  have "\<forall>(k, b) \<in> set ?ops. k < 192" by simp
  then show ?thesis
    using plic_delivery [of ?ops 63 "\<lambda>_. 0xFFFFFFFF" 2 plic_boot] plic_delivery [of ?ops 8 "\<lambda>_. 0xFFFFFFFF" 2 plic_boot]
    by simp
qed

text \<open>What the harts do to the interrupt state once hart 0 has set it up.\<close>

inductive plic_step :: "plic \<Rightarrow> plic \<Rightarrow> bool" where
  enable: "plic_step p (plic_enable dev src p)"
| disable: "plic_step p (plic_disable dev src p)"
| priority: "plic_step p (plic_set_priority src prio p)"
| init: "plic_step p (plic_init dev hart p)"
| register: "plic_step p (plic_register_isr dev src (Isr f) p)"

inductive_cases plic_step_cases: "plic_step p q"

definition keeps :: "nat \<Rightarrow> u32 \<Rightarrow> plic \<Rightarrow> bool" where
  "keeps src f p \<longleftrightarrow> plic_isr_init_done p \<noteq> 0 \<and> length (plic_isr_table p) = 192 \<and> plic_isr_table p ! src = Isr f"

lemma register_table:
  "plic_isr_table (plic_register_isr dev src h p) =
     (if 191 < src \<or> h \<noteq> Default_isr \<and> h \<noteq> No_isr \<and>
         plic_isr_table p ! unat src \<noteq> Default_isr \<and> plic_isr_table p ! unat src \<noteq> No_isr
      then plic_isr_table p else (plic_isr_table p)[unat src := h])"
  "plic_isr_init_done (plic_register_isr dev src h p) = plic_isr_init_done p"
  by (auto simp: plic_register_isr_def Let_def)

lemma step_keeps: "plic_step p q \<Longrightarrow> keeps src f p \<Longrightarrow> keeps src f q"
proof (erule plic_step_cases)
  fix dev s g assume "q = plic_register_isr dev s (Isr g) p" "keeps src f p"
  then show "keeps src f q" by (cases "unat s = src") (auto simp: keeps_def register_table)
qed (auto simp: keeps_def init_table plic_set_priority_def)

text \<open>
  The first handler of a source is final. Once hart 0 has run \<open>plic_init\<close>, a handler registered on
  a source that had none stays there whatever the harts do afterwards: enable, disable, set
  priorities, run \<open>plic_init\<close> themselves or register other handlers.
\<close>

theorem first_handler_kept:
  assumes "plic_isr_init_done p \<noteq> 0" "length (plic_isr_table p) = 192" "src < 192"
    and "plic_isr_table p ! unat src = Default_isr \<or> plic_isr_table p ! unat src = No_isr"
    and "plic_step\<^sup>*\<^sup>* (plic_register_isr dev src (Isr f) p) q"
  shows "plic_isr_table q ! unat src = Isr f"
proof -
  have "\<not> 191 < src" "unat src < 192" using assms(3) by (simp_all add: word_less_nat_alt)
  then have "keeps (unat src) f (plic_register_isr dev src (Isr f) p)"
    using assms(1,2,4) by (auto simp: keeps_def register_table)
  with assms(5) have "keeps (unat src) f q"
    by (induction rule: rtranclp_induct) (auto intro: step_keeps)
  then show ?thesis by (simp add: keeps_def)
qed

theorem first_handler_kept_witness:
  "\<exists>q. plic_step\<^sup>*\<^sup>* (plic_register_isr (\<lambda>_ _. 0) 18 (Isr 0x1000) (plic_init (\<lambda>_ _. 0) 0 plic_boot)) q \<and>
     q = plic_register_isr (\<lambda>_ _. 0) 18 (Isr 0x2000)
       (plic_init (\<lambda>_ _. 0) 3 (plic_register_isr (\<lambda>_ _. 0) 18 (Isr 0x1000) (plic_init (\<lambda>_ _. 0) 0 plic_boot))) \<and>
     plic_isr_table q ! 18 = Isr 0x1000"
proof -
  let ?p = "plic_init (\<lambda>_ _. 0) 0 plic_boot"
  let ?r = "plic_register_isr (\<lambda>_ _. 0) 18 (Isr 0x1000) ?p"
  let ?q = "plic_register_isr (\<lambda>_ _. 0) 18 (Isr 0x2000) (plic_init (\<lambda>_ _. 0) 3 ?r)"
  have t: "plic_isr_table ?p = replicate 192 Default_isr" by (rule init_first) (simp_all add: plic_boot_def)
  have d: "plic_isr_init_done ?p \<noteq> 0" by (simp add: init_table)
  have s: "plic_step\<^sup>*\<^sup>* ?r ?q"
    by (meson plic_step.init plic_step.register rtranclp.rtrancl_into_rtrancl rtranclp.rtrancl_refl)
  have "plic_isr_table ?q ! unat (18 :: u32) = Isr 0x1000"
    by (rule first_handler_kept [OF d _ _ _ s]) (simp_all add: t)
  then show ?thesis using s by auto
qed

end
