(* ===== verification/Timer.thy ===== *)
theory Timer
  imports Plic
begin

text \<open>
  \<open>npu_timer.c\<close> and the five timer tables of \<open>npu_globals.c\<close>: the tick interrupt, the timer blocks,
  the CPU clock and the busy waits. \<open>mcycle\<close> is an argument: the value each read of the counter gives.
\<close>

section \<open>Tables\<close>

definition timer_irq_map :: "variant \<Rightarrow> u32 list" where
  "timer_irq_map v = (case v_soc v of
     AN7581 \<Rightarrow> [18, 19, 20, 21]
   | AN7552 \<Rightarrow> [18, 19, 20, 52, 53, 54, 55, 21]
   | AN7583 \<Rightarrow> [18, 19, 20, 52, 53, 54, 55, 21, 24, 25, 26, 27, 28, 29, 30, 31])"

definition timer_clr_bit :: "variant \<Rightarrow> u32 list" where
  "timer_clr_bit v = (case v_soc v of
     AN7581 \<Rightarrow> [16, 17, 18, 21]
   | AN7552 \<Rightarrow> [16, 17, 18, 21, 22, 23, 24, 19]
   | AN7583 \<Rightarrow> [16, 17, 18, 21, 22, 23, 24, 19, 16, 17, 18, 21, 22, 23, 24, 19])"

definition timer_bit_map :: "variant \<Rightarrow> u32 list" where
  "timer_bit_map v = (case v_soc v of
     AN7581 \<Rightarrow> [0, 1, 2, 5]
   | AN7552 \<Rightarrow> [0, 1, 2, 5, 6, 7, 8, 3]
   | AN7583 \<Rightarrow> [0, 1, 2, 5, 6, 7, 8, 3, 0, 1, 2, 5, 6, 7, 8, 3])"

definition timer_reload_reg :: "variant \<Rightarrow> u32 list" where
  "timer_reload_reg v =
     [0x1EC10104, 0x1EC1010C, 0x1EC10114, 0x1EC1012C] @
     (if v_soc v \<noteq> AN7581 then [0x1EC1013C, 0x1EC1011C, 0x1EC10124, 0x1EC10150] else []) @
     (if v_soc v \<noteq> AN7581 \<and> v_soc v \<noteq> AN7552
      then [0x1EC10204, 0x1EC1020C, 0x1EC10214, 0x1EC1022C, 0x1EC1023C, 0x1EC1021C, 0x1EC10224, 0x1EC10250] else [])"

definition timer_pair_bit :: "u32 list" where "timer_pair_bit = [0x19, 0x1A, 0x1B, 0x1C]"

definition NPU_TIMER0_BASE :: u32 where "NPU_TIMER0_BASE = 0x1EC10100"
definition NPU_TIMER1_BASE :: u32 where "NPU_TIMER1_BASE = 0x1EC10200"
definition NPU_CPU_TIMER_BASE :: u32 where "NPU_CPU_TIMER_BASE = 0x1EC10900"
definition NPU_TIMER_WDT_RELOAD :: u32 where "NPU_TIMER_WDT_RELOAD = NPU_TIMER0_BASE + 0x34"
definition NPU_TIMER_BANK_CTRL :: "u32 \<Rightarrow> u32" where "NPU_TIMER_BANK_CTRL b = NPU_TIMER0_BASE + push_bit 8 b"
definition NPU_TIMER_BANK_PRESCALE :: "u32 \<Rightarrow> u32" where "NPU_TIMER_BANK_PRESCALE b = NPU_TIMER0_BASE + 0x2C + push_bit 8 b"
definition NPU_TIMER_BANK_RELOAD :: "u32 \<Rightarrow> u32" where "NPU_TIMER_BANK_RELOAD b = NPU_TIMER0_BASE + 0x34 + push_bit 8 b"
definition CPU_TIMER_RELOAD :: "u32 \<Rightarrow> u32" where "CPU_TIMER_RELOAD i = 0x1EC10904 + push_bit 3 i"
definition CPU_TIMER_COUNTER :: "u32 \<Rightarrow> u32" where "CPU_TIMER_COUNTER i = 0x1EC10908 + push_bit 3 i"

section \<open>State\<close>

record timers =
  timer_raw_tick :: u32
  timer_slow_tick :: u32
  timer_int_count :: u32
  timer_prev_ctrl :: u32
  timer_clk_mhz :: u32
  timer_tod_sec :: u32
  timer_tod_usec :: u32
  tm_io :: "access list"

definition tm_rd :: "device \<Rightarrow> u32 \<Rightarrow> timers \<Rightarrow> u32 \<times> timers" where
  "tm_rd dev a t = (let (v, tr) = reg_rd dev a (tm_io t) in (v, t\<lparr>tm_io := tr\<rparr>))"

definition tm_wr :: "u32 \<Rightarrow> u32 \<Rightarrow> timers \<Rightarrow> timers" where
  "tm_wr a v t = t\<lparr>tm_io := reg_wr a v (tm_io t)\<rparr>"

section \<open>The tick\<close>

fun timer_find :: "u32 \<Rightarrow> u32 list \<Rightarrow> u32 list \<Rightarrow> u32" where
  "timer_find src (i # irqs) (b # bits) = (if i = src then b else timer_find src irqs bits)"
| "timer_find src _ _ = 20"

definition timer_get_bit :: "variant \<Rightarrow> u32 \<Rightarrow> u32" where
  "timer_get_bit v src = timer_find src (timer_irq_map v) (timer_clr_bit v)"

definition timer_base_of_src :: "u32 \<Rightarrow> u32" where
  "timer_base_of_src src = (if 24 \<le>s src \<and> src \<le>s 31 then NPU_TIMER1_BASE else NPU_TIMER0_BASE)"

text \<open>The control word that acknowledges a timer.\<close>

definition timer_ack :: "u32 \<Rightarrow> u32 \<Rightarrow> u32" where
  "timer_ack ctrl b = (ctrl AND 0x1E0001EF) OR push_bit (unat b) 1"

definition timer_isr :: "variant \<Rightarrow> device \<Rightarrow> u32 \<Rightarrow> timers \<Rightarrow> timers" where
  "timer_isr v dev src t =
     (let b = timer_get_bit v src; base = timer_base_of_src src
      in if v_soc v = AN7552 then
           (let t = (if timer_prev_ctrl t = 0
                     then (let (c, t) = tm_rd dev base t in t\<lparr>timer_prev_ctrl := c\<rparr>) else t);
                t = tm_wr base (timer_ack (timer_prev_ctrl t) b) t
            in t\<lparr>timer_int_count := timer_int_count t + 1, timer_raw_tick := timer_raw_tick t + 1\<rparr>)
         else
           (let (c, t) = tm_rd dev base t;
                t = tm_wr base (timer_ack c b) (t\<lparr>timer_prev_ctrl := c\<rparr>);
                tick = timer_raw_tick t + 1;
                t = t\<lparr>timer_int_count := timer_int_count t + 1, timer_raw_tick := tick\<rparr>;
                t = (if tick mod 100 = 0 then t\<lparr>timer_slow_tick := timer_slow_tick t + 1\<rparr> else t)
            in if 999999999 < timer_tod_usec t + 100000
               then t\<lparr>timer_tod_sec := timer_tod_sec t + 1, timer_tod_usec := timer_tod_usec t - 999900000\<rparr>
               else t\<lparr>timer_tod_usec := timer_tod_usec t + 100000\<rparr>))"

section \<open>The CPU clock\<close>

definition pll_freq :: "variant \<Rightarrow> u32 list" where
  "pll_freq v = (if v_soc v = AN7583 then [666, 800, 720, 600] else [800, 750, 720, 600])"

definition PLL_SEL_SHIFT :: "variant \<Rightarrow> nat" where
  "PLL_SEL_SHIFT v = (if v_soc v = AN7583 then 9 else 8)"

definition PLL_CFG_REG :: u32 where "PLL_CFG_REG = 0x1FA201FC"

definition cpu_clock_get :: "variant \<Rightarrow> device \<Rightarrow> u32 \<Rightarrow> timers \<Rightarrow> u32 \<times> timers" where
  "cpu_clock_get v dev sim t =
     (if sim \<noteq> 0 then (100, t)
      else
        (let (s, t) = tm_rd dev PLL_CFG_REG t; (d, t) = tm_rd dev PLL_CFG_REG t
         in (pll_freq v ! unat (drop_bit (PLL_SEL_SHIFT v) s AND 3) div ((d AND 7) + 1), t)))"

definition cpu_clock_div2 :: "variant \<Rightarrow> device \<Rightarrow> u32 \<Rightarrow> timers \<Rightarrow> u32 \<times> timers" where
  "cpu_clock_div2 v dev sim t =
     (if sim \<noteq> 0 then (50, t) else (let (c, t) = cpu_clock_get v dev sim t in (drop_bit 1 c, t)))"

definition cpu_clock_div4 :: "variant \<Rightarrow> device \<Rightarrow> u32 \<Rightarrow> timers \<Rightarrow> u32 \<times> timers" where
  "cpu_clock_div4 v dev sim t =
     (if sim \<noteq> 0 then (25, t) else (let (c, t) = cpu_clock_get v dev sim t in (drop_bit 2 c, t)))"

section \<open>Timer blocks\<close>

definition timer_reload :: "variant \<Rightarrow> device \<Rightarrow> u32 \<Rightarrow> u32 \<Rightarrow> timers \<Rightarrow> u32 \<times> timers" where
  "timer_reload v dev sim period t =
     (case v_soc v of
        AN7583 \<Rightarrow> (50000 * period, t\<lparr>timer_clk_mhz := 50\<rparr>)
      | AN7581 \<Rightarrow>
          (let (c, t) = cpu_clock_div4 v dev sim t; (d, t) = cpu_clock_div4 v dev sim (t\<lparr>timer_clk_mhz := c\<rparr>)
           in (period * d * 1000 div 100, t))
      | AN7552 \<Rightarrow>
          (let (c, t) = cpu_clock_div4 v dev sim t; (d, t) = cpu_clock_div4 v dev sim (t\<lparr>timer_clk_mhz := c\<rparr>)
           in (1000 * period * d, t)))"

definition timer_init ::
  "variant \<Rightarrow> device \<Rightarrow> u32 \<Rightarrow> isr \<Rightarrow> s32 \<Rightarrow> bool \<Rightarrow> u32 \<Rightarrow> plic \<times> timers \<Rightarrow> plic \<times> timers" where
  "timer_init v dev sim handler timer enable period q =
     (let (p, t) = q; base = (if 8 \<le>s timer then NPU_TIMER1_BASE else NPU_TIMER0_BASE);
          t = t\<lparr>timer_int_count := 0\<rparr>
      in if of_nat (NPU_TIMER_NUM v) \<le> timer then (p, t)
         else
           (let pair = (if v_soc v \<noteq> AN7581 \<and> timer - 3 \<le> 3 then timer_pair_bit ! unat (timer - 3) else 0);
                b = push_bit (unat (timer_bit_map v ! unat timer)) 1
            in if \<not> enable then
                 (let (c, t) = tm_rd dev base t in (p, tm_wr base (c AND NOT b) t))
               else
                 (let (r, t) = timer_reload v dev sim period t;
                      t = tm_wr (timer_reload_reg v ! unat timer) r t;
                      p = (if v_soc v = AN7552 then plic_register_isr dev (timer_irq_map v ! unat timer) handler p else p);
                      (c, t) = tm_rd dev base t;
                      ctrl = c OR b;
                      ctrl = (if pair \<noteq> 0 then ctrl AND NOT (push_bit (unat pair) 1) else ctrl)
                  in (p, tm_wr base ctrl t))))"

text \<open>\<open>REG32(a) &= x\<close> and \<open>REG32(a) |= x\<close>.\<close>

definition tm_and :: "device \<Rightarrow> u32 \<Rightarrow> u32 \<Rightarrow> timers \<Rightarrow> timers" where
  "tm_and dev a x t = (let (v, t) = tm_rd dev a t in tm_wr a (v AND x) t)"

definition tm_or :: "device \<Rightarrow> u32 \<Rightarrow> u32 \<Rightarrow> timers \<Rightarrow> timers" where
  "tm_or dev a x t = (let (v, t) = tm_rd dev a t in tm_wr a (v OR x) t)"

definition watchdog_timer_init :: "variant \<Rightarrow> device \<Rightarrow> u32 \<Rightarrow> bool \<Rightarrow> u32 \<Rightarrow> timers \<Rightarrow> timers" where
  "watchdog_timer_init v dev sim enable period t =
     (if \<not> enable then t
      else
        (let (r, t) = (if v_soc v = AN7583 then (50000 * period, t)
                       else (let (c, t) = cpu_clock_div4 v dev sim t in (1000 * period * c, t)));
             t = tm_wr NPU_TIMER_WDT_RELOAD r t
         in tm_or dev NPU_TIMER0_BASE 0x2000020 (tm_and dev NPU_TIMER0_BASE (NOT 0x20) t)))"

definition multi_bank_timer_init :: "variant \<Rightarrow> device \<Rightarrow> u32 \<Rightarrow> bool \<Rightarrow> s32 \<Rightarrow> u32 \<Rightarrow> u32 \<Rightarrow> timers \<Rightarrow> timers" where
  "multi_bank_timer_init v dev sim enable prescale period bank t =
     (if \<not> enable then tm_and dev (NPU_TIMER_BANK_CTRL bank) 0xFDFFFFDF t
      else
        (let t = tm_wr (NPU_TIMER_BANK_PRESCALE bank)
                   (if prescale \<noteq> -1 \<and> prescale \<noteq> 1 then 25000 * prescale else prescale) t;
             (c, t) = cpu_clock_div4 v dev sim t;
             t = tm_wr (NPU_TIMER_BANK_RELOAD bank) (1000 * period * c) t
         in tm_or dev (NPU_TIMER_BANK_CTRL bank) 0x2000020 (tm_and dev (NPU_TIMER_BANK_CTRL bank) (NOT 0x20) t)))"

definition cpu_timer_init :: "variant \<Rightarrow> device \<Rightarrow> u32 \<Rightarrow> u32 \<Rightarrow> bool \<Rightarrow> u32 \<Rightarrow> timers \<Rightarrow> timers" where
  "cpu_timer_init v dev sim idx enable period t =
     (let b = push_bit (unat idx) 1
      in if enable then
           (let t = tm_wr (CPU_TIMER_RELOAD idx)
                      (if v_soc v = AN7583 then 50000 * period
                       else 1000 * period * (if sim \<noteq> 0 then 50 else 200)) t;
                t = tm_wr (CPU_TIMER_COUNTER idx) 0 t
            in tm_or dev NPU_CPU_TIMER_BASE b t)
         else tm_and dev NPU_CPU_TIMER_BASE (NOT b) t)"

section \<open>Busy waits\<close>

text \<open>
  Read \<open>k\<close> of the cycle counter gives \<open>mc k\<close>; a wait takes the number of the next read and gives the
  number of the one after its last. \<open>None\<close>: it never ends.
\<close>

partial_function (option) delay_loop :: "(nat \<Rightarrow> u32) \<Rightarrow> u32 \<Rightarrow> nat \<Rightarrow> u32 \<Rightarrow> u32 \<Rightarrow> nat option" where
  "delay_loop mc target k prev elapsed =
     (let cur = mc k;
          elapsed = (if prev \<le> cur then elapsed + (cur - prev) else elapsed + (cur - prev - 1))
      in if elapsed < target then delay_loop mc target (k + 1) cur elapsed else Some (k + 1))"

definition delay_us :: "(nat \<Rightarrow> u32) \<Rightarrow> u32 \<Rightarrow> nat \<Rightarrow> nat option" where
  "delay_us mc us k = delay_loop mc (800 * us) (k + 1) (mc k) 0"

definition delay_ms_mcycle ::
  "variant \<Rightarrow> device \<Rightarrow> u32 \<Rightarrow> (nat \<Rightarrow> u32) \<Rightarrow> u32 \<Rightarrow> nat \<times> timers \<Rightarrow> (nat \<times> timers) option" where
  "delay_ms_mcycle v dev sim mc ms q =
     (let (k, t) = q; (c, t) = cpu_clock_get v dev sim t; clk = 1000 * c
      in if 0xFFFFFFFF div clk \<le> ms then Some (k, t)
         else map_option (\<lambda>k. (k, t)) (delay_loop mc (ms * clk) (k + 1) (mc k) 0))"

definition delay_ms ::
  "variant \<Rightarrow> device \<Rightarrow> u32 \<Rightarrow> (nat \<Rightarrow> u32) \<Rightarrow> u32 \<Rightarrow> nat \<times> timers \<Rightarrow> (nat \<times> timers) option" where
  "delay_ms v dev sim mc ms q = delay_ms_mcycle v dev sim mc ms q"

section \<open>The tables agree\<close>

lemma replicate_numeral: "replicate (numeral n) x = x # replicate (pred_numeral n) x"
  by (simp add: numeral_eq_Suc)


text \<open>
  The interrupt of a timer acknowledges with its own clear bit, in the bank the timer was started in.
\<close>

lemma timer_tables:
  assumes "i < NPU_TIMER_NUM v"
  shows "timer_get_bit v (timer_irq_map v ! i) = timer_clr_bit v ! i"
    "timer_base_of_src (timer_irq_map v ! i) = (if 8 \<le> i then NPU_TIMER1_BASE else NPU_TIMER0_BASE)"
    "distinct (timer_irq_map v)" "length (timer_irq_map v) = NPU_TIMER_NUM v"
proof -
  have l: "length (timer_irq_map v) = NPU_TIMER_NUM v" "distinct (timer_irq_map v)"
    by (simp_all add: timer_irq_map_def NPU_TIMER_NUM_def split: soc.splits)
  then show "length (timer_irq_map v) = NPU_TIMER_NUM v" "distinct (timer_irq_map v)" .
  have "map (timer_get_bit v) (timer_irq_map v) = timer_clr_bit v"
    by (cases "v_soc v") (simp_all add: timer_get_bit_def timer_irq_map_def timer_clr_bit_def)
  then show "timer_get_bit v (timer_irq_map v ! i) = timer_clr_bit v ! i"
    using assms l by (metis nth_map)
  have "map timer_base_of_src (timer_irq_map v) = replicate (min 8 (NPU_TIMER_NUM v)) NPU_TIMER0_BASE @
      replicate (NPU_TIMER_NUM v - 8) NPU_TIMER1_BASE"
    by (cases "v_soc v")
      (simp_all add: timer_base_of_src_def timer_irq_map_def NPU_TIMER_NUM_def word_sle_eq replicate_numeral)
  from arg_cong [OF this, of "\<lambda>xs. xs ! i"]
  show "timer_base_of_src (timer_irq_map v ! i) = (if 8 \<le> i then NPU_TIMER1_BASE else NPU_TIMER0_BASE)"
    using assms l by (auto simp: nth_append)
qed

section \<open>The time of day\<close>

lemma tm_io_only [simp]:
  "timer_raw_tick (tm_wr a v t) = timer_raw_tick t" "timer_slow_tick (tm_wr a v t) = timer_slow_tick t"
  "timer_tod_sec (tm_wr a v t) = timer_tod_sec t" "timer_tod_usec (tm_wr a v t) = timer_tod_usec t"
  by (simp_all add: tm_wr_def)

lemma tm_rd_eq: "tm_rd dev a t = (dev (tm_io t) a, t\<lparr>tm_io := tm_io t @ [Rd a (dev (tm_io t) a)]\<rparr>)"
  by (simp add: tm_rd_def reg_rd_def Let_def)

definition tod :: "timers \<Rightarrow> nat" where
  "tod t = unat (timer_tod_sec t) * 1000000000 + unat (timer_tod_usec t)"

lemma tick_one:
  assumes "v_soc v \<noteq> AN7552" "timer_tod_usec t < 1000000000" "unat (timer_raw_tick t) + 1 < 2 ^ 32"
    "unat (timer_tod_sec t) + 1 < 2 ^ 32"
  shows "tod (timer_isr v dev src t) = tod t + 100000" "timer_tod_usec (timer_isr v dev src t) < 1000000000"
    "unat (timer_raw_tick (timer_isr v dev src t)) = unat (timer_raw_tick t) + 1"
    "timer_slow_tick (timer_isr v dev src t) = timer_slow_tick t + of_nat ((unat (timer_raw_tick t) + 1) div 100 - unat (timer_raw_tick t) div 100)"
    "unat (timer_tod_sec (timer_isr v dev src t)) \<le> unat (timer_tod_sec t) + 1"
proof -
  have u: "unat (timer_tod_usec t) < 1000000000" using assms(2) by (simp add: word_less_nat_alt)
  have uadd: "unat (timer_tod_usec t + 100000) = unat (timer_tod_usec t) + 100000"
    using u by (simp add: unat_word_ariths)
  have usub: "unat (timer_tod_usec t - 999900000) = unat (timer_tod_usec t) - 999900000" if "999900000 \<le> unat (timer_tod_usec t)"
    using that by (simp add: unat_sub word_le_nat_alt)
  have sadd: "unat (timer_tod_sec t + 1) = unat (timer_tod_sec t) + 1" using assms(4) by (simp add: unat_word_ariths)
  have radd: "unat (timer_raw_tick t + 1) = unat (timer_raw_tick t) + 1" using assms(3) by (simp add: unat_word_ariths)
  have over: "999999999 < timer_tod_usec t + 100000 \<longleftrightarrow> 999900000 \<le> unat (timer_tod_usec t)"
    unfolding word_less_nat_alt uadd by (simp, arith)
  have mod100: "(timer_raw_tick t + 1) mod 100 = 0 \<longleftrightarrow> (unat (timer_raw_tick t) + 1) mod 100 = 0"
    by (simp only: word_unat_eq_iff unat_mod_distrib radd) simp
  have step: "(n + 1) div 100 - n div 100 = (if (n + 1) mod 100 = 0 then 1 else 0)" for n :: nat
    by (simp add: div_Suc)
  note isr = timer_isr_def Let_def tm_rd_eq prod.case assms(1) if_False if_True
  show "tod (timer_isr v dev src t) = tod t + 100000" "timer_tod_usec (timer_isr v dev src t) < 1000000000"
    "unat (timer_tod_sec (timer_isr v dev src t)) \<le> unat (timer_tod_sec t) + 1"
    using u over by (auto simp: isr tod_def uadd usub sadd word_less_nat_alt)
  show "unat (timer_raw_tick (timer_isr v dev src t)) = unat (timer_raw_tick t) + 1"
    by (simp add: isr radd)
  show "timer_slow_tick (timer_isr v dev src t) = timer_slow_tick t + of_nat ((unat (timer_raw_tick t) + 1) div 100 - unat (timer_raw_tick t) div 100)"
    unfolding step by (simp add: isr mod100)
qed

lemma ticks:
  fixes dev :: device and src :: u32
  assumes "v_soc v \<noteq> AN7552" "timer_tod_usec t < 1000000000" "unat (timer_raw_tick t) + n < 2 ^ 32"
    "unat (timer_tod_sec t) + n < 2 ^ 32"
  defines "t' \<equiv> (timer_isr v dev src ^^ n) t"
  shows "tod t' = tod t + n * 100000 \<and> timer_tod_usec t' < 1000000000 \<and>
    unat (timer_raw_tick t') = unat (timer_raw_tick t) + n \<and>
    timer_slow_tick t' = timer_slow_tick t + of_nat ((unat (timer_raw_tick t) + n) div 100 - unat (timer_raw_tick t) div 100) \<and>
    unat (timer_tod_sec t') \<le> unat (timer_tod_sec t) + n"
  unfolding t'_def using assms(3,4)
proof (induction n)
  case 0
  show ?case using assms(2) by simp
next
  case (Suc n)
  let ?t = "(timer_isr v dev src ^^ n) t"
  have IH: "tod ?t = tod t + n * 100000" "timer_tod_usec ?t < 1000000000" "unat (timer_raw_tick ?t) = unat (timer_raw_tick t) + n"
    "timer_slow_tick ?t = timer_slow_tick t + of_nat ((unat (timer_raw_tick t) + n) div 100 - unat (timer_raw_tick t) div 100)"
    "unat (timer_tod_sec ?t) \<le> unat (timer_tod_sec t) + n"
    using Suc.IH Suc.prems by simp_all
  have "unat (timer_raw_tick ?t) + 1 < 2 ^ 32" "unat (timer_tod_sec ?t) + 1 < 2 ^ 32" using IH Suc.prems by simp_all
  note one = tick_one [OF assms(1) IH(2) this, of dev src]
  have "(a + n) div 100 - a div 100 + ((a + n + 1) div 100 - (a + n) div 100) = (a + Suc n) div 100 - a div 100" for a :: nat
    using div_le_mono [of a "a + n" 100] div_le_mono [of "a + n" "a + n + 1" 100] by simp
  from arg_cong [OF this [of "unat (timer_raw_tick t)"], of "of_nat :: nat \<Rightarrow> u32"]
  have "timer_slow_tick (timer_isr v dev src ?t) = timer_slow_tick t + of_nat ((unat (timer_raw_tick t) + Suc n) div 100 - unat (timer_raw_tick t) div 100)"
    unfolding one(4) IH(3,4) by (simp only: of_nat_add add.assoc)
  then show ?case using one IH by simp
qed



section \<open>The waits end\<close>

text \<open>
  The counter: read \<open>i\<close> finds it at \<open>T i\<close> of its 64 bits, of which the code reads the lower 32, and
  moves on by 1 to \<open>d\<close> cycles between two reads. A read after the lower half wrapped counts one cycle
  too few, so a wait never ends early.
\<close>

definition mcycle :: "(nat \<Rightarrow> nat) \<Rightarrow> nat \<Rightarrow> u32" where
  "mcycle T i = of_nat (T i)"

lemma counted:
  assumes "a < b" "b \<le> a + d" "d < 2 ^ 32"
  shows "unat (if (of_nat a :: u32) \<le> of_nat b then of_nat b - of_nat a else of_nat b - of_nat a - 1 :: u32) +
    (b div 2 ^ 32 - a div 2 ^ 32) = b - a"
proof -
  let ?M = "2 ^ 32 :: nat"
  have ab: "unat (of_nat a :: u32) = a mod ?M" "unat (of_nat b :: u32) = b mod ?M"
    by (simp_all add: unat_of_nat take_bit_eq_mod)
  have dm: "a = ?M * (a div ?M) + a mod ?M" "b = ?M * (b div ?M) + b mod ?M" "a mod ?M < ?M" "b mod ?M < ?M" by simp_all
  have w: "(of_nat b :: u32) - of_nat a = of_nat (b - a)" using assms(1) by (simp add: of_nat_diff)
  have u: "unat ((of_nat b :: u32) - of_nat a) = b - a"
    unfolding w using assms by (simp only: unat_of_nat) simp
  have cmp: "(of_nat a :: u32) \<le> of_nat b \<longleftrightarrow> a mod ?M \<le> b mod ?M" by (simp add: word_le_nat_alt ab)
  have "a div ?M \<le> b div ?M" using assms(1) by (simp add: div_le_mono)
  moreover have "b div ?M \<le> a div ?M + 1"
  proof -
    have "b < a + ?M" using assms by simp
    then have "b div ?M \<le> (a + ?M) div ?M" by (intro div_le_mono) simp
    then show ?thesis by simp
  qed
  ultimately consider "b div ?M = a div ?M" | "b div ?M = a div ?M + 1" by linarith
  then show ?thesis
  proof cases
    case 1
    then have "a mod ?M \<le> b mod ?M" using dm assms(1) by (metis add_le_cancel_left less_imp_le)
    then show ?thesis using 1 u cmp by simp
  next
    case 2
    then have "\<not> a mod ?M \<le> b mod ?M" using dm assms by (simp only: distrib_left)
    moreover have "unat ((of_nat b :: u32) - of_nat a - 1) = b - a - 1"
    proof -
      have "(of_nat b :: u32) - of_nat a - 1 = of_nat (b - a - 1)" using assms(1) w by (simp add: of_nat_diff)
      moreover have "unat (of_nat (b - a - 1) :: u32) = b - a - 1" using assms by (simp only: unat_of_nat) simp
      ultimately show ?thesis by simp
    qed
    ultimately show ?thesis using 2 u cmp assms(1) by simp
  qed
qed

lemma delay_loop_ends:
  assumes T: "\<And>i. T i < T (Suc i)" "\<And>i. T (Suc i) \<le> T i + d" and d: "unat target + d < 2 ^ 32"
    and "s \<le> j" "T j - T s \<le> unat target" "unat elapsed + (T j div 2 ^ 32 - T s div 2 ^ 32) = T j - T s"
  shows "\<exists>n. delay_loop (mcycle T) target (Suc j) (of_nat (T j)) elapsed = Some (Suc n) \<and>
    unat target \<le> T n - T s \<and> T n - T s \<le> unat target + d"
  using assms(4-6)
proof (induction "unat target - (T j - T s)" arbitrary: j elapsed rule: less_induct)
  case less
  have le: "T s \<le> T i" if "s \<le> i" for i using lift_Suc_mono_le [of T, OF less_imp_le [OF T(1)]] that by blast
  let ?dt = "if (of_nat (T j) :: u32) \<le> of_nat (T (Suc j)) then of_nat (T (Suc j)) - of_nat (T j) else of_nat (T (Suc j)) - of_nat (T j) - 1 :: u32"
  let ?e = "elapsed + ?dt"
  have dd: "d < 2 ^ 32" using d by simp
  note c = counted [OF T(1) T(2) dd, of j]
  have M: "T s div 2 ^ 32 \<le> T j div 2 ^ 32" "T j div 2 ^ 32 \<le> T (Suc j) div 2 ^ 32"
    using le [OF less.prems(1)] T(1) [of j] by (simp_all add: div_le_mono)
  have diff: "T (Suc j) - T s = T (Suc j) - T j + (T j - T s)" using le [OF less.prems(1)] T(1) [of j] by simp
  have inv: "unat elapsed + unat ?dt + (T (Suc j) div 2 ^ 32 - T s div 2 ^ 32) = T (Suc j) - T s"
    using c less.prems(3) M unfolding diff by linarith
  have bound: "T (Suc j) - T s \<le> unat target + d" using T(2) [of j] less.prems(2) diff by linarith
  have e: "unat ?e = unat elapsed + unat ?dt"
    by (rule unat_add_lem [THEN iffD1]) (use inv bound d in simp)
  have unfold: "delay_loop (mcycle T) target (Suc j) (of_nat (T j)) elapsed =
    (if ?e < target then delay_loop (mcycle T) target (Suc (Suc j)) (of_nat (T (Suc j))) ?e else Some (Suc (Suc j)))"
    by (subst delay_loop.simps) (simp add: mcycle_def Let_def if_distrib [of "\<lambda>x. elapsed + x"])
  show ?case
  proof (cases "?e < target")
    case False
    then have "unat target \<le> T (Suc j) - T s" using inv e by (simp only: word_less_nat_alt)
    then show ?thesis unfolding unfold using False bound by (auto intro: exI [of _ "Suc j"])
  next
    case True
    have "T (Suc j) \<le> T s + 2 ^ 32" using bound d le [OF less.prems(1)] T(1) [of j] by linarith
    then have "T (Suc j) div 2 ^ 32 \<le> (T s + 2 ^ 32) div 2 ^ 32" by (rule div_le_mono)
    then have wraps: "T (Suc j) div 2 ^ 32 - T s div 2 ^ 32 \<le> 1" by simp
    have lt: "unat elapsed + unat ?dt < unat target" using True e by (simp only: word_less_nat_alt)
    then have in_range: "T (Suc j) - T s \<le> unat target" using inv wraps by linarith
    have "unat target - (T (Suc j) - T s) < unat target - (T j - T s)"
      using in_range T(1) [of j] diff by linarith
    from less.hyps [OF this _ in_range, of ?e] inv e less.prems(1)
    show ?thesis unfolding unfold using True by simp
  qed
qed

text \<open>The clock the PLL register selects.\<close>

definition clock_of :: "variant \<Rightarrow> u32 \<Rightarrow> (u32 \<Rightarrow> u32) \<Rightarrow> u32" where
  "clock_of v sim regs = fst (cpu_clock_get v (\<lambda>_. regs) sim
     \<lparr>timer_raw_tick = 0, timer_slow_tick = 0, timer_int_count = 0, timer_prev_ctrl = 0, timer_clk_mhz = 0,
      timer_tod_sec = 0, timer_tod_usec = 0, tm_io = []\<rparr>)"

lemma clock_get: "fst (cpu_clock_get v (\<lambda>_. regs) sim t) = clock_of v sim regs"
  by (simp add: cpu_clock_get_def clock_of_def tm_rd_def reg_rd_def Let_def)

lemma clock_range: "75 \<le> unat (clock_of v sim regs)" "unat (clock_of v sim regs) \<le> 800"
proof -
  let ?d = "(regs PLL_CFG_REG AND 7) + 1" and ?i = "unat (drop_bit (PLL_SEL_SHIFT v) (regs PLL_CFG_REG) AND 3)"
  have i: "?i < 4" by (rule le_less_trans [OF unat_and_le]) simp
  have "unat (regs PLL_CFG_REG AND 7) \<le> 7" using unat_and_le [where x = "regs PLL_CFG_REG" and y = 7] by simp
  then have d: "1 \<le> unat ?d" "unat ?d \<le> 8" by (simp_all add: unat_word_ariths)
  have "pll_freq v ! ?i \<in> set (pll_freq v)" using i by (intro nth_mem) (simp add: pll_freq_def)
  then have f: "600 \<le> unat (pll_freq v ! ?i)" "unat (pll_freq v ! ?i) \<le> 800" by (auto simp: pll_freq_def split: if_splits)
  have "600 div 8 \<le> unat (pll_freq v ! ?i) div unat ?d"
    using div_le_mono [OF f(1), of 8] div_le_mono2 [of "unat ?d" 8 "unat (pll_freq v ! ?i)"] d by linarith
  moreover have "unat (pll_freq v ! ?i) div unat ?d \<le> 800"
    using f(2) div_le_dividend le_trans by blast
  ultimately show "75 \<le> unat (clock_of v sim regs)" "unat (clock_of v sim regs) \<le> 800"
    by (simp_all add: clock_of_def cpu_clock_get_def tm_rd_def reg_rd_def Let_def unat_div_distrib)
qed



end
