(* ===== verification/Mbox.thy ===== *)
theory Mbox
  imports Plic
begin

text \<open>
  \<open>npu_mbox.c\<close>: the mailbox the host reaches the firmware through. The dispatch table is bytes, as
  the code declares it, because its three views of a row (stored addresses, stored lengths, handlers)
  overlap. What a handler does is an argument: a function of the pointer called, of the two mail words
  and of the rest \<open>'w\<close> of the system. The trace ring of \<open>npu_dbg.c\<close> and the prints are left out.
\<close>

section \<open>Bytes\<close>

definition ld16 :: "u8 list \<Rightarrow> nat \<Rightarrow> u16" where
  "ld16 m i = c16 (m ! i) OR push_bit 8 (c16 (m ! (i + 1)))"

definition st16 :: "u8 list \<Rightarrow> nat \<Rightarrow> u16 \<Rightarrow> u8 list" where
  "st16 m i v = m[i := c8 v, i + 1 := c8 (drop_bit 8 v)]"

definition ld32 :: "u8 list \<Rightarrow> nat \<Rightarrow> u32" where
  "ld32 m i = c32 (ld16 m i) OR push_bit 16 (c32 (ld16 m (i + 2)))"

definition st32 :: "u8 list \<Rightarrow> nat \<Rightarrow> u32 \<Rightarrow> u8 list" where
  "st32 m i v = st16 (st16 m i (c16 v)) (i + 2) (c16 (drop_bit 16 v))"

lemma st_length [simp]: "length (st16 m i v) = length m" "length (st32 m i w) = length m"
  by (simp_all add: st16_def st32_def)

lemma ld16_st16:
  "i + 1 < length m \<Longrightarrow> ld16 (st16 m i v) i = v"
  "j + 2 \<le> i \<or> i + 2 \<le> j \<Longrightarrow> ld16 (st16 m i v) j = ld16 m j"
proof -
  show "ld16 (st16 m i v) i = v" if "i + 1 < length m"
    using that by (simp add: ld16_def st16_def) (rule bit_word_eqI, auto simp: bit_simps)
  show "ld16 (st16 m i v) j = ld16 m j" if "j + 2 \<le> i \<or> i + 2 \<le> j"
    using that by (auto simp: ld16_def st16_def)
qed

lemma ld32_st32:
  "i + 3 < length m \<Longrightarrow> ld32 (st32 m i v) i = v"
  "j + 4 \<le> i \<or> i + 4 \<le> j \<Longrightarrow> ld32 (st32 m i v) j = ld32 m j"
  "j + 2 \<le> i \<or> i + 4 \<le> j \<Longrightarrow> ld16 (st32 m i v) j = ld16 m j"
  "j + 4 \<le> i \<or> i + 2 \<le> j \<Longrightarrow> ld32 (st16 m i w) j = ld32 m j"
proof -
  show "ld32 (st32 m i v) i = v" if "i + 3 < length m"
  proof -
    have "ld16 (st32 m i v) i = c16 v" "ld16 (st32 m i v) (i + 2) = c16 (drop_bit 16 v)"
      using that by (simp_all add: st32_def ld16_st16)
    then have "ld32 (st32 m i v) i = c32 (c16 v) OR push_bit 16 (c32 (c16 (drop_bit 16 v)))"
      by (simp only: ld32_def)
    also have "\<dots> = v" by (rule bit_word_eqI) (auto simp: bit_simps)
    finally show ?thesis .
  qed
qed (auto simp: ld32_def st32_def ld16_st16)

section \<open>State\<close>

record ndbg_hart =
  nh_loop :: u32
  nh_beat :: u32
  nh_in_isr :: u32
  nh_trace_wr :: u32
  nh_mails :: u32
  nh_last_mail :: u32
  nh_trap_cnt :: u32
  nh_mcause :: u32
  nh_mepc :: u32
  nh_mtval :: u32
  nh_ra :: u32
  nh_sp :: u32

record mbox =
  mbox_dispatch :: "u8 list"
  mbox_notify_mutex :: "u32 \<times> u32"
  mbox_harts :: "ndbg_hart list"
  mbox_io :: "access list"

datatype mbox_fault = Dispatch_outside nat

definition NPU_MBOX_BASE :: u32 where "NPU_MBOX_BASE = 0x1EC0C000"
definition MBOX_INT_STS :: u32 where "MBOX_INT_STS = NPU_MBOX_BASE"
definition MBOX_INT_MASK :: "u32 \<Rightarrow> u32" where "MBOX_INT_MASK n = NPU_MBOX_BASE + 0x004 + n * 4"
definition MBQ_CTRL0 :: "u32 \<Rightarrow> u32" where "MBQ_CTRL0 q = NPU_MBOX_BASE + 0x030 + q * 0x10"
definition MBQ_CTRL1 :: "u32 \<Rightarrow> u32" where "MBQ_CTRL1 q = NPU_MBOX_BASE + 0x034 + q * 0x10"
definition MBQ_CTRL2 :: "u32 \<Rightarrow> u32" where "MBQ_CTRL2 q = NPU_MBOX_BASE + 0x038 + q * 0x10"
definition MBQ_CTRL3 :: "u32 \<Rightarrow> u32" where "MBQ_CTRL3 q = NPU_MBOX_BASE + 0x03C + q * 0x10"
definition MBQ_NOTIFY :: u32 where "MBQ_NOTIFY = 8"

definition mb_rd :: "device \<Rightarrow> u32 \<Rightarrow> mbox \<Rightarrow> u32 \<times> mbox" where
  "mb_rd dev a m = (let (v, tr) = reg_rd dev a (mbox_io m) in (v, m\<lparr>mbox_io := tr\<rparr>))"

definition mb_wr :: "u32 \<Rightarrow> u32 \<Rightarrow> mbox \<Rightarrow> mbox" where
  "mb_wr a v m = m\<lparr>mbox_io := reg_wr a v (mbox_io m)\<rparr>"

text \<open>Offsets in the table: a stored address, a stored length, a handler.\<close>

definition data_at :: "nat \<Rightarrow> nat \<Rightarrow> nat" where "data_at core k = core * 80 + k * 4"
definition len_at :: "nat \<Rightarrow> nat \<Rightarrow> nat" where "len_at core k = core * 80 + 32 + k * 2"
definition callback_at :: "nat \<Rightarrow> nat \<Rightarrow> nat" where "callback_at core k = core * 80 + 48 + k * 4"

lemmas slot_at = data_at_def len_at_def callback_at_def

section \<open>Notify\<close>

text \<open>\<open>while (!(sts & 2) && timeout--)\<close>, a delay of a millisecond each time.\<close>

fun notify_poll :: "device \<Rightarrow> nat \<Rightarrow> u32 \<times> mbox \<Rightarrow> u32 \<times> mbox" where
  "notify_poll dev n (sts, m) =
     (if sts AND 2 \<noteq> 0 then (sts, m)
      else case n of
        0 \<Rightarrow> (sts, m)
      | Suc n \<Rightarrow> (let (v, m) = mb_rd dev (MBQ_CTRL3 MBQ_NOTIFY) m in notify_poll dev n (v AND 0xFFFF, m)))"

definition mb_lock :: "variant \<Rightarrow> device \<Rightarrow> u32 \<Rightarrow> mbox \<Rightarrow> mbox" where
  "mb_lock v dev hart m =
     m\<lparr>mbox_io := snd (hw_mutex_lock_pri v dev hart (fst (mbox_notify_mutex m)) (snd (mbox_notify_mutex m)) (mbox_io m))\<rparr>"

definition mb_unlock :: "variant \<Rightarrow> u32 \<Rightarrow> mbox \<Rightarrow> mbox" where
  "mb_unlock v hart m = m\<lparr>mbox_io := snd (hw_mutex_unlock_pri v hart (fst (mbox_notify_mutex m)) (mbox_io m))\<rparr>"

definition mbox_notify_host :: "variant \<Rightarrow> device \<Rightarrow> u32 \<Rightarrow> u32 \<Rightarrow> u32 \<Rightarrow> u32 \<Rightarrow> mbox \<Rightarrow> u32 \<times> mbox" where
  "mbox_notify_host v dev hart core func len m =
     (let m = mb_lock v dev hart m;
          m = mb_wr (MBQ_CTRL0 MBQ_NOTIFY) (core AND 0xF) m;
          m = mb_wr (MBQ_CTRL1 MBQ_NOTIFY) (len AND 0xFFFF) m;
          m = mb_wr (MBQ_CTRL3 MBQ_NOTIFY) (push_bit 11 (func AND 0xF)) m;
          (n, m) = mb_rd dev (MBQ_CTRL2 MBQ_NOTIFY) m;
          m = mb_wr (MBQ_CTRL2 MBQ_NOTIFY) (n + 1) m;
          (sts, m) = mb_rd dev (MBQ_CTRL3 MBQ_NOTIFY) m;
          (sts, m) = notify_poll dev 30 (sts AND 0xFFFF, m)
      in (if sts AND 2 \<noteq> 0 then drop_bit 2 sts AND 7 else 0, mb_unlock v hart m))"

section \<open>The interrupt\<close>

type_synonym 'w handler = "u32 \<Rightarrow> u32 \<Rightarrow> u32 \<Rightarrow> 'w \<Rightarrow> u32 \<times> 'w"

definition mail_store :: "nat \<Rightarrow> nat \<Rightarrow> u32 \<Rightarrow> u32 \<Rightarrow> mbox \<Rightarrow> mbox" where
  "mail_store core k base cnt m =
     m\<lparr>mbox_dispatch := st16 (st32 (mbox_dispatch m) (data_at core k) base) (len_at core k) (c16 cnt)\<rparr>"

definition count_mail :: "nat \<Rightarrow> u32 \<Rightarrow> u32 \<Rightarrow> u32 \<Rightarrow> mbox \<Rightarrow> mbox" where
  "count_mail core func base ret m =
     (let h = mbox_harts m ! core
      in m\<lparr>mbox_harts := (mbox_harts m)[core := h\<lparr>nh_mails := nh_mails h + 1,
           nh_last_mail := push_bit 24 func OR push_bit 8 (base AND 0xFFFF) OR (ret AND 0xFF)\<rparr>]\<rparr>)"

text \<open>The handler path, with the status word \<open>rptr\<close>.\<close>

definition mail_call ::
  "variant \<Rightarrow> device \<Rightarrow> u32 \<Rightarrow> 'w handler \<Rightarrow> u32 \<Rightarrow> u32 \<Rightarrow> u32 \<Rightarrow> u32 \<Rightarrow> mbox \<times> 'w \<Rightarrow> mbox_fault + (mbox \<times> 'w)" where
  "mail_call v dev hart hnd rptr func base cnt q =
     (let (m, w) = q; at = callback_at (unat hart) (unat func)
      in if length (mbox_dispatch m) < at + 4 then Inl (Dispatch_outside at)
         else
           (let h = ld32 (mbox_dispatch m) at;
                (ret, w) = (if h \<noteq> 0 then hnd h base cnt w else (0, w));
                rptr = (if h \<noteq> 0 then (rptr AND 0xFFFFFFE3) OR push_bit 2 (ret AND 7) else rptr);
                m = count_mail (unat hart) func base ret m
            in if rptr AND 1 \<noteq> 0 then Inr (mb_wr (MBQ_CTRL3 hart) ((rptr OR 2) AND 0xFFFF) m, w)
               else Inr (snd (mbox_notify_host v dev hart hart func ret m), w)))"

text \<open>The status a mail that does not block is given before it is handled.\<close>

definition mail_status :: "u32 \<Rightarrow> u32" where
  "mail_status rptr =
     (if rptr AND 1 = 0 then ((rptr AND 0xFF00) OR (rptr AND 0xE1) OR 0x6) AND 0xFFFF else rptr)"

definition mbox_isr ::
  "variant \<Rightarrow> device \<Rightarrow> u32 \<Rightarrow> 'w handler \<Rightarrow> u32 \<Rightarrow> mbox \<times> 'w \<Rightarrow> mbox_fault + (mbox \<times> 'w)" where
  "mbox_isr v dev hart hnd src q =
     (let (m, w) = q; idx = c32 (c8 (src - 8))
      in if idx \<noteq> hart then Inr q
         else
           (let m = mb_wr MBOX_INT_STS (push_bit (unat idx) 1) m;
                (sts, m) = mb_rd dev MBOX_INT_STS m
            in if drop_bit (unat idx) sts AND 1 \<noteq> 0 then Inr (snd (mb_rd dev MBOX_INT_STS m), w)
               else
                 (let (base, m) = mb_rd dev (MBQ_CTRL0 idx) m;
                      (cnt, m) = mb_rd dev (MBQ_CTRL1 idx) m; cnt = cnt AND 0xFFFF;
                      (rptr, m) = mb_rd dev (MBQ_CTRL3 idx) m; rptr = rptr AND 0xFFFF;
                      m = (if rptr AND 1 = 0 then mb_wr (MBQ_CTRL3 idx) (mail_status rptr) m else m);
                      rptr = mail_status rptr; func = drop_bit 11 rptr AND 0xF
                  in if rptr AND 0x20 \<noteq> 0 then Inr (mail_store (unat idx) (unat func) base cnt m, w)
                     else mail_call v dev hart hnd rptr func base cnt (m, w))))"

section \<open>Start\<close>

record mail_handlers =
  wifi_mail_dispatch :: u32
  tunnel_mail_dispatch :: u32
  wifi_config :: u32
  hwnat_mail_dispatch :: u32
  dba_mail_entry :: u32
  mbox_isr_entry :: u32

definition callback_set :: "nat \<Rightarrow> nat \<Rightarrow> u32 \<Rightarrow> mbox \<Rightarrow> mbox" where
  "callback_set core k h m = m\<lparr>mbox_dispatch := st32 (mbox_dispatch m) (callback_at core k) h\<rparr>"

definition mailbox_route :: "device \<Rightarrow> mail_handlers \<Rightarrow> nat \<Rightarrow> plic \<times> mbox \<Rightarrow> plic \<times> mbox" where
  "mailbox_route dev hs i q =
     (let (p, m) = q
      in (plic_register_isr dev (8 + of_nat i) (Isr (mbox_isr_entry hs)) p,
          mb_wr (MBOX_INT_MASK (of_nat i + 1)) (push_bit i 1) m))"

definition mailbox_init :: "variant \<Rightarrow> device \<Rightarrow> mail_handlers \<Rightarrow> plic \<times> mbox \<Rightarrow> plic \<times> mbox" where
  "mailbox_init v dev hs q =
     (let (p, m) = fold (mailbox_route dev hs) [0..<MAX_CORE_NUM v] q;
          m = mb_wr (MBOX_INT_MASK 0) 256 m;
          m = m\<lparr>mbox_notify_mutex := (if v_soc v = AN7581 then 30 else 14, 0),
                mbox_dispatch := replicate (MAX_CORE_NUM v * 80) 0\<rparr>;
          m = (if HAS_WIFI v then callback_set 0 0 (wifi_mail_dispatch hs) m else m);
          m = callback_set 0 1 (tunnel_mail_dispatch hs) m;
          m = (if HAS_TR471 v then callback_set 0 4 (wifi_config hs) m else m);
          m = (if HAS_TUNNEL v then callback_set 0 5 (hwnat_mail_dispatch hs) m else m);
          m = (if HAS_DBA v then callback_set 5 3 (dba_mail_entry hs) m else m)
      in (p, m))"

end
