(* ===== verification/Mbox_Mail.thy ===== *)
theory Mbox_Mail
  imports Mbox
begin

text \<open>
  What a mail does: stored and called slots, the answer to the host, and where the three views of the
  dispatch table run into each other.
\<close>

section \<open>A mail in a queue\<close>

text \<open>The mailbox block with a mail (\<open>base\<close>, \<open>cnt\<close>, \<open>arg\<close>) in the queue of a core and its interrupt cleared.\<close>

definition mail_dev :: "u32 \<Rightarrow> u32 \<Rightarrow> u16 \<Rightarrow> u16 \<Rightarrow> device" where
  "mail_dev core base cnt arg tr a =
     (if a = MBQ_CTRL0 core then base else if a = MBQ_CTRL1 core then c32 cnt
      else if a = MBQ_CTRL3 core then c32 arg else 0)"

definition mail_slot :: "u16 \<Rightarrow> nat" where "mail_slot arg = unat (drop_bit 11 arg AND 0xF)"
definition mail_stored :: "u16 \<Rightarrow> bool" where "mail_stored arg \<longleftrightarrow> arg AND 0x20 \<noteq> 0"
definition mail_blocking :: "u16 \<Rightarrow> bool" where "mail_blocking arg \<longleftrightarrow> arg AND 1 \<noteq> 0"

lemma mbq_apart:
  assumes "c < 8"
  shows "MBQ_CTRL0 c \<noteq> MBQ_CTRL1 c" "MBQ_CTRL0 c \<noteq> MBQ_CTRL3 c" "MBQ_CTRL1 c \<noteq> MBQ_CTRL3 c"
    "MBOX_INT_STS \<noteq> MBQ_CTRL0 c" "MBOX_INT_STS \<noteq> MBQ_CTRL1 c" "MBOX_INT_STS \<noteq> MBQ_CTRL3 c"
proof -
  have c: "unat c < 8" using assms by (simp add: word_less_nat_alt)
  have "unat (MBQ_CTRL0 c) = 0x1EC0C030 + 16 * unat c" "unat (MBQ_CTRL1 c) = 0x1EC0C034 + 16 * unat c"
      "unat (MBQ_CTRL3 c) = 0x1EC0C03C + 16 * unat c" "unat MBOX_INT_STS = 0x1EC0C000"
    using c by (simp_all add: MBQ_CTRL0_def MBQ_CTRL1_def MBQ_CTRL3_def MBOX_INT_STS_def NPU_MBOX_BASE_def unat_word_ariths)
  then show "MBQ_CTRL0 c \<noteq> MBQ_CTRL1 c" "MBQ_CTRL0 c \<noteq> MBQ_CTRL3 c" "MBQ_CTRL1 c \<noteq> MBQ_CTRL3 c"
    "MBOX_INT_STS \<noteq> MBQ_CTRL0 c" "MBOX_INT_STS \<noteq> MBQ_CTRL1 c" "MBOX_INT_STS \<noteq> MBQ_CTRL3 c"
    by (auto simp: word_unat_eq_iff)
qed

text \<open>What the status word is worth in the words of the code.\<close>

abbreviation mail_arg :: "u16 \<Rightarrow> u32" where
  "mail_arg arg \<equiv> mail_status (c32 arg)"

lemma masks: "(0xFFFF :: u32) = mask 16" "(0xFF00 :: u32) = push_bit 8 (mask 8)" "(0xF :: u32) = mask 4"
  "(0xF :: u16) = mask 4" "(0x20 :: u32) = push_bit 5 1" "(0x20 :: u16) = push_bit 5 1"
  "(1 :: u32) = mask 1" "(1 :: u16) = mask 1"
  by (simp_all add: mask_eq_exp_minus_1 push_bit_eq_mult)

lemma test_bit: "(x AND 1 \<noteq> 0) = bit x 0" "(x AND 2 \<noteq> 0) = bit x 1" "(x AND 0x20 \<noteq> 0) = bit x 5"
    "(x AND 1 = 0) = (\<not> bit x 0)" "(x AND 2 = 0) = (\<not> bit x 1)" for x :: "'a::len word"
  using and_exp_eq_0_iff_not_bit [of x 0] and_exp_eq_0_iff_not_bit [of x 1] and_exp_eq_0_iff_not_bit [of x 5] by simp_all

lemma mail_arg_bits:
  "bit (mail_arg arg) 0 = bit arg 0" "bit (mail_arg arg) 5 = bit arg 5"
  "8 \<le> n \<Longrightarrow> bit (mail_arg arg) n \<longleftrightarrow> n < 16 \<and> bit arg n"
proof -
  show "bit (mail_arg arg) 0 = bit arg 0" "bit (mail_arg arg) 5 = bit arg 5"
    by (auto simp: mail_status_def test_bit bit_and_iff bit_or_iff bit_unsigned_iff)
  show "bit (mail_arg arg) n \<longleftrightarrow> n < 16 \<and> bit arg n" if "8 \<le> n"
  proof -
    have no: "\<not> bit x n" if "take_bit 8 (x :: u32) = x" for x using that \<open>8 \<le> n\<close> by (metis bit_take_bit_iff leD)
    have "\<not> bit (0xE1 :: u32) n" "\<not> bit (6 :: u32) n" by (rule no; simp)+
    then show ?thesis
      using that unfolding mail_status_def masks(1,2)
      by (auto simp: bit_simps simp del: push_bit_mask_eq mask_numeral push_bit_of_1 dest: bit_imp_le_length)
  qed
qed

lemma arg_parts:
  "c32 arg AND 0xFFFF = c32 arg" "(c32 arg AND 1 = 0) = (\<not> mail_blocking arg)"
  "unat (drop_bit 11 (mail_arg arg) AND 0xF) = mail_slot arg"
  "(mail_arg arg AND 0x20 \<noteq> 0) = mail_stored arg" "(mail_arg arg AND 1 \<noteq> 0) = mail_blocking arg"
proof -
  show "c32 arg AND 0xFFFF = c32 arg" unfolding masks(1) by (rule bit_word_eqI) (auto simp: bit_simps simp del: mask_numeral dest: bit_imp_le_length)
  show "(c32 arg AND 1 = 0) = (\<not> mail_blocking arg)" "(mail_arg arg AND 0x20 \<noteq> 0) = mail_stored arg"
    "(mail_arg arg AND 1 \<noteq> 0) = mail_blocking arg"
    by (simp_all add: test_bit mail_blocking_def mail_stored_def mail_arg_bits bit_unsigned_iff)
  have "drop_bit 11 (mail_arg arg) AND 0xF = c32 (drop_bit 11 arg AND 0xF)"
    unfolding masks(3,4) by (rule bit_word_eqI) (auto simp: bit_simps mail_arg_bits simp del: mask_numeral dest: bit_imp_le_length)
  then show "unat (drop_bit 11 (mail_arg arg) AND 0xF) = mail_slot arg" by (simp add: mail_slot_def)
qed

lemma mail_slot_less: "mail_slot arg < 16"
  using unat_and_le [where x = "drop_bit 11 arg" and y = "0xF"] by (simp add: mail_slot_def)

section \<open>What the interrupt does with it\<close>

text \<open>Two mailbox states that differ in the accesses made only.\<close>

definition same_mail :: "mbox \<Rightarrow> mbox \<Rightarrow> bool" where
  "same_mail m m' \<longleftrightarrow> mbox_dispatch m' = mbox_dispatch m \<and> mbox_harts m' = mbox_harts m \<and>
     mbox_notify_mutex m' = mbox_notify_mutex m"

lemma mb_rd_eq: "mb_rd dev a m = (dev (mbox_io m) a, m\<lparr>mbox_io := mbox_io m @ [Rd a (dev (mbox_io m) a)]\<rparr>)"
  by (simp add: mb_rd_def reg_rd_def Let_def)

lemma isr_on_mail:
  assumes "hart < 8"
  shows "\<exists>m'. same_mail m m' \<and> mbox_isr v (mail_dev hart base cnt arg) hart hnd (8 + hart) (m, w) =
    (if mail_stored arg then Inr (mail_store (unat hart) (mail_slot arg) base (c32 cnt) m', w)
     else mail_call v (mail_dev hart base cnt arg) hart hnd (mail_arg arg) (of_nat (mail_slot arg)) base (c32 cnt) (m', w))"
proof -
  have h: "c32 (c8 (8 + hart - 8)) = hart"
  proof -
    have "unat hart < 256" using assms by (simp add: word_less_nat_alt)
    then show ?thesis by (simp add: word_unat_eq_iff unat_c8_c32)
  qed
  have d: "mail_dev hart base cnt arg tr MBOX_INT_STS = 0" "mail_dev hart base cnt arg tr (MBQ_CTRL0 hart) = base"
      "mail_dev hart base cnt arg tr (MBQ_CTRL1 hart) = c32 cnt" "mail_dev hart base cnt arg tr (MBQ_CTRL3 hart) = c32 arg" for tr
    using mbq_apart [OF assms] by (simp_all add: mail_dev_def)
  have f: "drop_bit 11 (mail_arg arg) AND 0xF = of_nat (mail_slot arg)"
    using arg_parts(3) [of arg] mail_slot_less [of arg] by (metis of_nat_unat ucast_id)
  have s: "(mail_arg arg AND 0x20 \<noteq> 0) = mail_stored arg" by (rule arg_parts)
  have u: "unat (of_nat (mail_slot arg) :: u32) = mail_slot arg" using mail_slot_less [of arg] by (simp add: unat_of_nat)
  let ?m = "mb_wr MBOX_INT_STS (push_bit (unat hart) 1) m"
  let ?r = "?m\<lparr>mbox_io := mbox_io ?m @ [Rd MBOX_INT_STS 0, Rd (MBQ_CTRL0 hart) base, Rd (MBQ_CTRL1 hart) (c32 cnt), Rd (MBQ_CTRL3 hart) (c32 arg)]\<rparr>"
  let ?q = "if c32 arg AND 1 = 0 then mb_wr (MBQ_CTRL3 hart) (mail_arg arg) ?r else ?r"
  have "mbox_isr v (mail_dev hart base cnt arg) hart hnd (8 + hart) (m, w) =
    (if mail_stored arg then Inr (mail_store (unat hart) (mail_slot arg) base (c32 cnt) ?q, w)
     else mail_call v (mail_dev hart base cnt arg) hart hnd (mail_arg arg) (of_nat (mail_slot arg)) base (c32 cnt) (?q, w))"
    unfolding mbox_isr_def h by (simp add: mb_rd_eq d Let_def f s u arg_parts(1) del: push_bit_of_1)
  moreover have "same_mail m ?q" by (simp add: same_mail_def mb_wr_def)
  ultimately show ?thesis by blast
qed

section \<open>Properties\<close>

lemma mb_same [simp]:
  "mbox_dispatch (mb_wr a v m) = mbox_dispatch m" "mbox_harts (mb_wr a v m) = mbox_harts m"
  "mbox_dispatch (count_mail c f b r m) = mbox_dispatch m"
  by (simp_all add: mb_wr_def count_mail_def Let_def)

lemma notify_poll_cases:
  "notify_poll dev 0 (sts, m) = (sts, m)"
  "notify_poll dev (Suc n) (sts, m) = (if sts AND 2 \<noteq> 0 then (sts, m)
     else let (v, m) = mb_rd dev (MBQ_CTRL3 MBQ_NOTIFY) m in notify_poll dev n (v AND 0xFFFF, m))"
  by (subst notify_poll.simps, simp only: nat.case if_cancel)+

declare notify_poll.simps [simp del]

lemma notify_poll_same: "notify_poll dev n (sts, m) = (x, m') \<Longrightarrow> mbox_dispatch m' = mbox_dispatch m \<and>
    mbox_harts m' = mbox_harts m"
  by (induction n arbitrary: sts m) (auto simp: notify_poll_cases mb_rd_eq split: if_splits)

lemma notify_same: "mbox_notify_host v dev hart c f l m = (x, m') \<Longrightarrow> mbox_dispatch m' = mbox_dispatch m \<and>
    mbox_harts m' = mbox_harts m"
  by (auto simp: mbox_notify_host_def mb_rd_eq mb_lock_def mb_unlock_def Let_def
      dest!: notify_poll_same split: prod.splits)

lemma mail_call_eq:
  assumes "h = ld32 (mbox_dispatch m) (callback_at (unat hart) (unat func))"
    and "callback_at (unat hart) (unat func) + 4 \<le> length (mbox_dispatch m)"
  shows "\<exists>m' ret. mail_call v dev hart hnd rptr func base cnt (m, w) =
      Inr (m', if h = 0 then w else snd (hnd h base cnt w)) \<and>
    mbox_dispatch m' = mbox_dispatch m \<and> mbox_harts m' = mbox_harts (count_mail (unat hart) func base ret m)"
proof -
  obtain ret w' where r: "(if h \<noteq> 0 then hnd h base cnt w else (0, w)) = (ret, w')" by fastforce
  then have w': "w' = (if h = 0 then w else snd (hnd h base cnt w))" by (auto split: if_splits)
  let ?m = "count_mail (unat hart) func base ret m"
  obtain x m' where n: "mbox_notify_host v dev hart hart func ret ?m = (x, m')" by fastforce
  let ?r = "if h \<noteq> 0 then (rptr AND 0xFFFFFFE3) OR push_bit 2 (ret AND 7) else rptr"
  let ?w = "mb_wr (MBQ_CTRL3 hart) ((?r OR 2) AND 0xFFFF) ?m"
  let ?fin = "if ?r AND 1 \<noteq> 0 then ?w else m'"
  have "mail_call v dev hart hnd rptr func base cnt (m, w) = Inr (?fin, w')"
    using assms(2) unfolding mail_call_def Let_def prod.case assms(1) [symmetric] r n snd_conv
    by (simp only: not_less [symmetric] if_False prod.case if_distrib [of Inr] if_distrib [of "\<lambda>x. (x, w')"] split: if_split)
  moreover have "mbox_dispatch ?fin = mbox_dispatch m"
      "mbox_harts ?fin = mbox_harts ?m"
    using notify_same [OF n] by simp_all
  ultimately have "mail_call v dev hart hnd rptr func base cnt (m, w) = Inr (?fin, w') \<and>
    mbox_dispatch ?fin = mbox_dispatch m \<and> mbox_harts ?fin = mbox_harts ?m"
    by (intro conjI)
  then show ?thesis unfolding w' by (intro exI)
qed

text \<open>The slot of a handler lies inside the table.\<close>

definition table_ok :: "variant \<Rightarrow> mbox \<Rightarrow> bool" where
  "table_ok v m \<longleftrightarrow> length (mbox_dispatch m) = MAX_CORE_NUM v * 80 \<and> length (mbox_harts m) = 8"

lemma call_on_mail:
  assumes "table_ok v m" "unat hart < MAX_CORE_NUM v" "mail_slot arg < 8" "\<not> mail_stored arg"
    and "h = ld32 (mbox_dispatch m) (callback_at (unat hart) (mail_slot arg))"
  shows "\<exists>m'. mbox_isr v (mail_dev hart base cnt arg) hart hnd (8 + hart) (m, w) =
      Inr (m', if h = 0 then w else snd (hnd h base (c32 cnt) w)) \<and>
    mbox_dispatch m' = mbox_dispatch m \<and>
    nh_mails (mbox_harts m' ! unat hart) = nh_mails (mbox_harts m ! unat hart) + 1"
proof -
  have n: "MAX_CORE_NUM v \<le> 8" by (simp add: MAX_CORE_NUM_def split: soc.split)
  then have lt: "hart < 8" "unat hart < length (mbox_harts m)"
    using assms(1,2) by (simp_all add: word_less_nat_alt table_ok_def)
  obtain q where q: "same_mail m q" "mbox_isr v (mail_dev hart base cnt arg) hart hnd (8 + hart) (m, w) =
      mail_call v (mail_dev hart base cnt arg) hart hnd (mail_arg arg) (of_nat (mail_slot arg)) base (c32 cnt) (q, w)"
    using isr_on_mail [OF lt(1), of m v base cnt arg hnd w] assms(4) by auto
  have s: "unat (of_nat (mail_slot arg) :: u32) = mail_slot arg" using assms(3) by (simp add: unat_of_nat)
  have at: "callback_at (unat hart) (mail_slot arg) + 4 \<le> length (mbox_dispatch q)"
    using assms(1-3) q(1) by (simp add: callback_at_def table_ok_def same_mail_def)
  have h: "h = ld32 (mbox_dispatch q) (callback_at (unat hart) (mail_slot arg))"
    using assms(5) q(1) by (simp add: same_mail_def)
  have "nh_mails (mbox_harts (count_mail (unat hart) f b r q) ! unat hart) = nh_mails (mbox_harts m ! unat hart) + 1" for f b r
    using q(1) lt(2) by (simp add: count_mail_def same_mail_def Let_def)
  then show ?thesis
    using mail_call_eq [of h q hart "of_nat (mail_slot arg)" v "mail_dev hart base cnt arg" hnd "mail_arg arg" base "c32 cnt" w]
      h at q by (auto simp: s same_mail_def)
qed

lemma store_on_mail:
  assumes "hart < 8" "mail_stored arg"
  shows "\<exists>m'. mbox_isr v (mail_dev hart base cnt arg) hart hnd (8 + hart) (m, w) = Inr (m', w) \<and>
    mbox_harts m' = mbox_harts m \<and> mbox_dispatch m' =
      st16 (st32 (mbox_dispatch m) (data_at (unat hart) (mail_slot arg)) base) (len_at (unat hart) (mail_slot arg)) cnt"
proof -
  obtain q where q: "same_mail m q" "mbox_isr v (mail_dev hart base cnt arg) hart hnd (8 + hart) (m, w) =
      Inr (mail_store (unat hart) (mail_slot arg) base (c32 cnt) q, w)"
    using isr_on_mail [OF assms(1), of m v base cnt arg hnd w] assms(2) by auto
  have "c16 (c32 cnt) = cnt" by (rule bit_word_eqI) (auto simp: bit_simps)
  then show ?thesis using q by (auto simp: mail_store_def same_mail_def)
qed

text \<open>
  A mail that is called. For every core and slot of the table the interrupt calls exactly the
  handler of the slot with the mail's address and length, leaves the dispatch table alone and counts
  one mail; with no handler nothing is called.
\<close>

theorem mail_called:
  assumes "table_ok v m" "unat hart < MAX_CORE_NUM v" "mail_slot arg < 8" "\<not> mail_stored arg"
    and "h = ld32 (mbox_dispatch m) (callback_at (unat hart) (mail_slot arg))"
  shows "\<exists>m'. mbox_isr v (mail_dev hart base cnt arg) hart hnd (8 + hart) (m, w) =
      Inr (m', if h = 0 then w else snd (hnd h base (c32 cnt) w)) \<and>
    mbox_dispatch m' = mbox_dispatch m \<and>
    nh_mails (mbox_harts m' ! unat hart) = nh_mails (mbox_harts m ! unat hart) + 1"
  using assms by (rule call_on_mail)

text \<open>A block with a handler in slot 3 of core 5, and a handler that notes what it was called with.\<close>

definition mail_demo :: mbox where
  "mail_demo = \<lparr>mbox_dispatch = (replicate 480 0)[461 := 0x10], mbox_notify_mutex = (14, 0),
     mbox_harts = replicate 8 \<lparr>nh_loop = 0, nh_beat = 0, nh_in_isr = 0, nh_trace_wr = 0, nh_mails = 0, nh_last_mail = 0,
       nh_trap_cnt = 0, nh_mcause = 0, nh_mepc = 0, nh_mtval = 0, nh_ra = 0, nh_sp = 0\<rparr>, mbox_io = []\<rparr>"

definition note_call :: "(u32 \<times> u32 \<times> u32) list handler" where
  "note_call h base cnt w = (1, w @ [(h, base, cnt)])"

theorem mail_called_witness:
  "\<exists>m'. mbox_isr \<lparr>v_soc = AN7583, v_wifi = MT7993, v_clanker = True\<rparr> (mail_dev 5 0x80001000 64 0x1801) 5 note_call 13
      (mail_demo, []) = Inr (m', [(0x1000, 0x80001000, 64)])"
proof -
  let ?v = "\<lparr>v_soc = AN7583, v_wifi = MT7993, v_clanker = True\<rparr>"
  have s: "mail_slot 0x1801 = 3" by (simp add: mail_slot_def)
  have h: "ld32 (mbox_dispatch mail_demo) (callback_at (unat (5 :: u32)) (mail_slot 0x1801)) = 0x1000"
    unfolding s mail_demo_def callback_at_def ld32_def ld16_def by simp
  have "table_ok ?v mail_demo" "unat (5 :: u32) < MAX_CORE_NUM ?v" "mail_slot 0x1801 < 8" "\<not> mail_stored 0x1801"
    by (simp_all add: table_ok_def mail_demo_def MAX_CORE_NUM_def s mail_stored_def)
  from mail_called [OF this refl, where base = "0x80001000" and cnt = 64 and hnd = note_call and w = "[]"]
  show ?thesis unfolding h by (auto simp: note_call_def)
qed

text \<open>
  C29. A mail that is stored can be read back. For the slots 0..7 of a core of the table the interrupt
  stores address and length in the slot, calls nothing, and every other slot's address and length
  and every handler of every core are as they were.
\<close>

theorem stored_mail_read_back:
  assumes "table_ok v m" "unat hart < MAX_CORE_NUM v" "mail_slot arg < 8" "mail_stored arg"
  shows "\<exists>m'. mbox_isr v (mail_dev hart base cnt arg) hart hnd (8 + hart) (m, w) = Inr (m', w) \<and> table_ok v m' \<and>
    ld32 (mbox_dispatch m') (data_at (unat hart) (mail_slot arg)) = base \<and>
    ld16 (mbox_dispatch m') (len_at (unat hart) (mail_slot arg)) = cnt \<and>
    (\<forall>c k. k < 8 \<longrightarrow> ld32 (mbox_dispatch m') (callback_at c k) = ld32 (mbox_dispatch m) (callback_at c k)) \<and>
    (\<forall>c k. k < 8 \<longrightarrow> (c, k) \<noteq> (unat hart, mail_slot arg) \<longrightarrow>
       ld32 (mbox_dispatch m') (data_at c k) = ld32 (mbox_dispatch m) (data_at c k) \<and>
       ld16 (mbox_dispatch m') (len_at c k) = ld16 (mbox_dispatch m) (len_at c k))"
proof -
  let ?c = "unat hart" and ?k = "mail_slot arg"
  let ?d = "st16 (st32 (mbox_dispatch m) (data_at ?c ?k) base) (len_at ?c ?k) cnt"
  have n: "MAX_CORE_NUM v \<le> 8" by (simp add: MAX_CORE_NUM_def split: soc.split)
  then have lt: "hart < 8" using assms(2) by (simp add: word_less_nat_alt)
  obtain m' where m': "mbox_isr v (mail_dev hart base cnt arg) hart hnd (8 + hart) (m, w) = Inr (m', w)"
      "mbox_harts m' = mbox_harts m" "mbox_dispatch m' = ?d"
    using store_on_mail [OF lt assms(4), of v base cnt hnd m w] by auto
  have in_table: "data_at ?c ?k + 3 < length (mbox_dispatch m)" "len_at ?c ?k + 1 < length (mbox_dispatch m)"
    using assms(1-3) by (simp_all add: slot_at table_ok_def)
  have d: "ld32 ?d (data_at ?c ?k) = base"
    using in_table assms(3) by (subst ld32_st32(4)) (auto simp: slot_at ld32_st32)
  have l: "ld16 ?d (len_at ?c ?k) = cnt" using in_table by (simp add: ld16_st16)
  have cb: "ld32 ?d (callback_at c k) = ld32 (mbox_dispatch m) (callback_at c k)" if "k < 8" for c k
    using assms(3) that by (cases c ?c rule: linorder_cases) (subst ld32_st32(4), (auto simp: slot_at ld32_st32)[2])+
  have od: "ld32 ?d (data_at c k) = ld32 (mbox_dispatch m) (data_at c k)" if "k < 8" "(c, k) \<noteq> (?c, ?k)" for c k
    using assms(3) that by (cases c ?c rule: linorder_cases) (subst ld32_st32(4), (auto simp: slot_at ld32_st32 linorder_neq_iff)[2])+
  have ol: "ld16 ?d (len_at c k) = ld16 (mbox_dispatch m) (len_at c k)" if "k < 8" "(c, k) \<noteq> (?c, ?k)" for c k
    using assms(3) that by (cases c ?c rule: linorder_cases) (subst ld16_st16(2), (auto simp: slot_at ld32_st32 linorder_neq_iff)[2])+
  have "table_ok v m'" using assms(1) m'(2,3) by (simp add: table_ok_def)
  then show ?thesis using m'(1) d l cb od ol unfolding m'(3) [symmetric] by blast
qed

theorem stored_mail_read_back_witness:
  "\<exists>m'. mbox_isr \<lparr>v_soc = AN7583, v_wifi = MT7993, v_clanker = True\<rparr> (mail_dev 5 0x80001000 64 0x3821) 5 note_call 13
      (mail_demo, []) = Inr (m', []) \<and> ld32 (mbox_dispatch m') 428 = 0x80001000 \<and> ld16 (mbox_dispatch m') 446 = 64"
proof -
  let ?v = "\<lparr>v_soc = AN7583, v_wifi = MT7993, v_clanker = True\<rparr>"
  have s: "mail_slot 0x3821 = 7" by (simp add: mail_slot_def)
  have "table_ok ?v mail_demo" "unat (5 :: u32) < MAX_CORE_NUM ?v" "mail_slot 0x3821 < 8" "mail_stored 0x3821"
    by (simp_all add: table_ok_def mail_demo_def MAX_CORE_NUM_def s mail_stored_def)
  from stored_mail_read_back [OF this, where base = "0x80001000" and cnt = 64 and hnd = note_call and w = "[]"]
  show ?thesis by (auto simp: s slot_at)
qed

text \<open>
  C30. Where the views run into each other. The slot of a mail has four bits and the addresses of slots
  12 to 14 are the words of handlers 0 to 2: a mail that is only to be stored there replaces a handler,
  and the next mail to that handler's slot calls the address the host stored.
\<close>

theorem stored_mail_becomes_handler:
  assumes "table_ok v m" "unat hart < MAX_CORE_NUM v" "mail_stored arg" "mail_slot arg = 12 + j" "j < 3"
    and "\<not> mail_stored arg'" "mail_slot arg' = j" "base \<noteq> 0"
  shows "\<exists>m' m''. mbox_isr v (mail_dev hart base cnt arg) hart hnd (8 + hart) (m, w) = Inr (m', w) \<and>
    mbox_isr v (mail_dev hart base' cnt' arg') hart hnd (8 + hart) (m', w) = Inr (m'', snd (hnd base base' (c32 cnt') w))"
proof -
  let ?c = "unat hart"
  let ?d = "st16 (st32 (mbox_dispatch m) (data_at ?c (12 + j)) base) (len_at ?c (12 + j)) cnt"
  have n: "MAX_CORE_NUM v \<le> 8" by (simp add: MAX_CORE_NUM_def split: soc.split)
  then have lt: "hart < 8" using assms(2) by (simp add: word_less_nat_alt)
  obtain m' where m': "mbox_isr v (mail_dev hart base cnt arg) hart hnd (8 + hart) (m, w) = Inr (m', w)"
      "mbox_harts m' = mbox_harts m" "mbox_dispatch m' = ?d"
    using store_on_mail [OF lt assms(3), of v base cnt hnd m w] unfolding assms(4) by auto
  have t: "table_ok v m'" using assms(1) m'(2,3) by (simp add: table_ok_def)
  have at: "data_at ?c (12 + j) = callback_at ?c j" by (simp add: slot_at)
  have "callback_at ?c j + 3 < length (mbox_dispatch m)" using assms(1,2,5) by (simp add: slot_at table_ok_def)
  then have "ld32 ?d (callback_at ?c j) = base"
    using assms(5) unfolding at by (subst ld32_st32(4)) (auto simp: slot_at ld32_st32)
  then have b: "base = ld32 (mbox_dispatch m') (callback_at ?c (mail_slot arg'))" unfolding m'(3) assms(7) by simp
  have "mail_slot arg' < 8" using assms(5,7) by simp
  from call_on_mail [OF t assms(2) this assms(6) b, of base' cnt' hnd w] assms(8) m'(1) show ?thesis by auto
qed

theorem stored_mail_becomes_handler_witness:
  "\<exists>m' m''. mbox_isr \<lparr>v_soc = AN7583, v_wifi = MT7993, v_clanker = True\<rparr> (mail_dev 0 0x80001000 64 0x6021) 0 note_call 8
      (mail_demo, []) = Inr (m', []) \<and>
    mbox_isr \<lparr>v_soc = AN7583, v_wifi = MT7993, v_clanker = True\<rparr> (mail_dev 0 7 8 1) 0 note_call 8 (m', []) =
      Inr (m'', [(0x80001000, 7, 8)])"
proof -
  let ?v = "\<lparr>v_soc = AN7583, v_wifi = MT7993, v_clanker = True\<rparr>"
  have s: "mail_slot 0x6021 = 12 + 0" "mail_slot 1 = 0" by (simp_all add: mail_slot_def)
  have "table_ok ?v mail_demo" "unat (0 :: u32) < MAX_CORE_NUM ?v" "mail_stored 0x6021" "\<not> mail_stored 1"
    by (simp_all add: table_ok_def mail_demo_def MAX_CORE_NUM_def mail_stored_def)
  from stored_mail_becomes_handler [OF this(1-3) s(1) _ this(4) s(2), where base = "0x80001000" and cnt = 64 and hnd = note_call and w = "[]" and base' = 7 and cnt' = 8]
  show ?thesis by (auto simp: note_call_def)
qed

end
