(* ===== verification/Bridge.thy ===== *)
theory Bridge
  imports Util Sram
begin

text \<open>
  \<open>npu_bridge.c\<close>: the channels between the NPU and the host packet buffers, and the state of the tunnel
  offload (\<open>npu_tunnel.c\<close>) that shares it. Memory is bytes at NPU addresses, little-endian; registers
  answer through a \<open>device\<close>. The dump of the bridge counters and the prints are left out.
\<close>

section \<open>Memory words\<close>

definition rd16 :: "mem \<Rightarrow> u32 \<Rightarrow> u16" where
  "rd16 m a = c16 (m a) OR push_bit 8 (c16 (m (a + 1)))"

definition rd32 :: "mem \<Rightarrow> u32 \<Rightarrow> u32" where
  "rd32 m a = c32 (rd16 m a) OR push_bit 16 (c32 (rd16 m (a + 2)))"

definition wr16 :: "u32 \<Rightarrow> u16 \<Rightarrow> mem \<Rightarrow> mem" where
  "wr16 a v m = m(a := c8 v, a + 1 := c8 (drop_bit 8 v))"

definition wr32 :: "u32 \<Rightarrow> u32 \<Rightarrow> mem \<Rightarrow> mem" where
  "wr32 a v m = wr16 (a + 2) (c16 (drop_bit 16 v)) (wr16 a (c16 v) m)"

lemma wr16_at: "wr16 a v m x = (if x = a + 1 then c8 (drop_bit 8 v) else if x = a then c8 v else m x)"
  by (simp add: wr16_def)

lemma wr32_at: "wr32 a v m x =
    (if x = a + 3 then c8 (drop_bit 24 v) else if x = a + 2 then c8 (drop_bit 16 v)
     else if x = a + 1 then c8 (drop_bit 8 v) else if x = a then c8 v else m x)"
proof -
  have "c8 (c16 v) = c8 v" "c8 (drop_bit 8 (c16 v)) = c8 (drop_bit 8 v)"
      "c8 (c16 (drop_bit 16 v)) = c8 (drop_bit 16 v)" "c8 (drop_bit 8 (c16 (drop_bit 16 v))) = c8 (drop_bit 24 v)"
    by (rule bit_word_eqI, auto simp: bit_simps)+
  then show ?thesis by (simp add: wr32_def wr16_at add.assoc)
qed

lemma rd16_wr16: "rd16 (wr16 a v m) a = v"
  by (simp add: rd16_def wr16_at) (rule bit_word_eqI, auto simp: bit_simps)

section \<open>State\<close>

record tunnel =
  tn_mem :: mem
  tn_io :: "access list"
  npu_bridge_base :: u32
  tunnel_pending :: "u32 list"
  tunnel_credit :: "u32 list"
  tunnel_ipv6_frag_id :: u32
  tunnel_v4_reasm_desc :: u32
  tunnel_v4_reasm_len :: u32
  tunnel_v4_reasm_hdroff :: u32
  tunnel_v6_reasm_desc :: u32
  tunnel_v6_reasm_len :: u32
  tunnel_v6_reasm_hdroff :: u32
  tunnel_encap_mtu :: u32
  tunnel_map_info_base :: u32
  fragment_mtu :: "u32 list"
  tunnel_srv6_hdr_len :: "u8 list"
  srv6_my_ipv6 :: "u8 list"
  tunnel_ecn_enabled :: u32
  l4s_debug_enable :: u32
  l4s_pkt_count :: u32
  l4s_log_phase :: u32
  l4s_mark_count :: u32
  l4s_qid :: u32
  l4s_qlen :: u32
  l4s_qlen_thresh :: u32

definition tn_rd :: "device \<Rightarrow> u32 \<Rightarrow> tunnel \<Rightarrow> u32 \<times> tunnel" where
  "tn_rd dev a t = (let (v, tr) = reg_rd dev a (tn_io t) in (v, t\<lparr>tn_io := tr\<rparr>))"

definition tn_wr :: "u32 \<Rightarrow> u32 \<Rightarrow> tunnel \<Rightarrow> tunnel" where
  "tn_wr a v t = t\<lparr>tn_io := reg_wr a v (tn_io t)\<rparr>"

definition tn_set8 :: "u32 \<Rightarrow> u8 \<Rightarrow> tunnel \<Rightarrow> tunnel" where "tn_set8 a v t = t\<lparr>tn_mem := (tn_mem t)(a := v)\<rparr>"
definition tn_set16 :: "u32 \<Rightarrow> u16 \<Rightarrow> tunnel \<Rightarrow> tunnel" where "tn_set16 a v t = t\<lparr>tn_mem := wr16 a v (tn_mem t)\<rparr>"
definition tn_set32 :: "u32 \<Rightarrow> u32 \<Rightarrow> tunnel \<Rightarrow> tunnel" where "tn_set32 a v t = t\<lparr>tn_mem := wr32 a v (tn_mem t)\<rparr>"
definition tn_copy :: "u32 \<Rightarrow> u32 \<Rightarrow> u32 \<Rightarrow> tunnel \<Rightarrow> tunnel" where
  "tn_copy dst src n t = t\<lparr>tn_mem := snd (npu_memcpy (tn_mem t) dst src n)\<rparr>"

section \<open>The bridge\<close>

definition NPU_BRIDGE_CH_NUM :: "variant \<Rightarrow> nat" where
  "NPU_BRIDGE_CH_NUM v = (case v_soc v of AN7581 \<Rightarrow> 8 | AN7583 \<Rightarrow> 4 | AN7552 \<Rightarrow> 2)"

definition npu_bridge_addr :: "tunnel \<Rightarrow> u32" where
  "npu_bridge_addr t = npu_bridge_base t + 0x10000"

definition BRIDGE_CREDIT :: "u32 \<Rightarrow> u32" where "BRIDGE_CREDIT ch = 0x1EC12050 + ch * 4"
definition BRIDGE_EGRESS :: "u32 \<Rightarrow> u32" where "BRIDGE_EGRESS ch = 0x1EC12100 + ch * 32"

definition bridge_ch_init :: "device \<Rightarrow> nat \<Rightarrow> tunnel \<Rightarrow> tunnel" where
  "bridge_ch_init dev i t = tn_wr (0x1EC12210 + of_nat i * 16) 1 (snd (tn_rd dev (0x1EC12210 + of_nat i * 16) t))"

definition npu_bridge_buf_init :: "variant \<Rightarrow> device \<Rightarrow> sram \<times> tunnel \<Rightarrow> sram_fault + (sram \<times> tunnel)" where
  "npu_bridge_buf_init v dev q =
     (let (s, t) = q
      in case sram_buf_alloc v 129 s of
           Inl f \<Rightarrow> Inl f
         | Inr (a, s) \<Rightarrow>
             (let t = t\<lparr>npu_bridge_base := a\<rparr>;
                  t = tn_wr 0x1EC12008 (a AND 0x1FFFFFFF) t;
                  t = tn_wr 0x1EC12010 0x40800 t;
                  t = tn_wr 0x1EC12018 1 t
              in Inr (s, fold (bridge_ch_init dev) [0..<NPU_BRIDGE_CH_NUM v] t)))"

text \<open>Hand one segment to a channel, w0 last; refused without credit.\<close>

datatype seg = Seg (seg_w0: u32) (seg_w1: u32) (seg_w2: u32) (seg_w3: u32) (seg_w4: u32) (seg_w5: u32) (seg_w6: u32)

fun seg_writes :: "u32 \<Rightarrow> seg \<Rightarrow> (u32 \<times> u32) list" where
  "seg_writes base (Seg w0 w1 w2 w3 w4 w5 w6) =
     [(base + 4, w1), (base + 8, w2), (base + 0xC, w3), (base + 0x10, w4), (base + 0x14, w5), (base + 0x18, w6), (base, w0)]"

definition npu_bridge_egress :: "device \<Rightarrow> u32 \<Rightarrow> seg \<Rightarrow> tunnel \<Rightarrow> s32 \<times> tunnel" where
  "npu_bridge_egress dev ch s t =
     (let (c, t) = tn_rd dev (BRIDGE_CREDIT ch) t
      in if c AND 0xFF00 = 0 then (- 1, t)
         else (0, fold (\<lambda>(a, v). tn_wr a v) (seg_writes (BRIDGE_EGRESS ch) s) t))"

section \<open>Segments of a packet\<close>

definition bswap16 :: "u16 \<Rightarrow> u16" where "bswap16 v = drop_bit 8 v OR push_bit 8 v"

definition SEG_FIRST :: u32 where "SEG_FIRST = 0x80000000"
definition SEG_LAST :: u32 where "SEG_LAST = 0x40000000"
definition SEG_TYPE :: "u32 \<Rightarrow> u32" where "SEG_TYPE k = push_bit 24 k"

definition PATCH :: "u32 \<Rightarrow> u32 \<Rightarrow> u32" where
  "PATCH off v = 0xC0000000 OR push_bit 16 (off AND 0x3FFF) OR c32 (bswap16 (c16 v))"

definition tunnel_seg ::
  "device \<Rightarrow> u32 \<Rightarrow> u32 \<Rightarrow> u32 \<Rightarrow> u32 \<Rightarrow> u32 \<Rightarrow> u32 \<Rightarrow> u32 \<Rightarrow> u32 \<Rightarrow> u32 \<Rightarrow> tunnel \<Rightarrow> s32 \<times> tunnel" where
  "tunnel_seg dev port addr len off cmd p0 p1 p2 p3 t =
     npu_bridge_egress dev port
       (Seg (addr AND 0x1FFFFFFF) (push_bit 16 len OR (off AND 0xFFFF)) (cmd OR (port AND 7)) p0 p1 p2 p3) t"

text \<open>A call of \<open>tunnel_seg\<close> whose result is not looked at.\<close>

definition put_seg ::
  "device \<Rightarrow> u32 \<Rightarrow> u32 \<Rightarrow> u32 \<Rightarrow> u32 \<Rightarrow> u32 \<Rightarrow> u32 \<Rightarrow> u32 \<Rightarrow> u32 \<Rightarrow> u32 \<Rightarrow> tunnel \<Rightarrow> tunnel" where
  "put_seg dev port addr len off cmd p0 p1 p2 p3 t = snd (tunnel_seg dev port addr len off cmd p0 p1 p2 p3 t)"

definition tunnel_pkt_drop :: "device \<Rightarrow> u32 \<Rightarrow> u32 \<Rightarrow> u32 \<Rightarrow> tunnel \<Rightarrow> tunnel" where
  "tunnel_pkt_drop dev port pkt_len desc t =
     put_seg dev port desc pkt_len 0 (SEG_FIRST OR SEG_LAST OR SEG_TYPE 2) 0 0 0 0 t"

definition tunnel_reasm_flush :: "device \<Rightarrow> tunnel \<Rightarrow> tunnel" where
  "tunnel_reasm_flush dev t =
     (let t = (if tunnel_v4_reasm_desc t \<noteq> 0
               then (tunnel_pkt_drop dev 7 (tunnel_v4_reasm_len t) (tunnel_v4_reasm_desc t) t)
                      \<lparr>tunnel_v4_reasm_desc := 0, tunnel_v4_reasm_len := 0, tunnel_v4_reasm_hdroff := 0\<rparr>
               else t)
      in if tunnel_v6_reasm_desc t \<noteq> 0
         then (tunnel_pkt_drop dev 7 (tunnel_v6_reasm_len t) (tunnel_v6_reasm_desc t) t)
                \<lparr>tunnel_v6_reasm_desc := 0, tunnel_v6_reasm_len := 0, tunnel_v6_reasm_hdroff := 0\<rparr>
         else t)"

text \<open>Op 1 resets the counters of the block, op 2 drops what reassembly holds, op 0 only prints.\<close>

definition npu_bridge_debug :: "device \<Rightarrow> u32 \<Rightarrow> tunnel \<Rightarrow> tunnel" where
  "npu_bridge_debug dev op t =
     (if op = 1 then tn_wr 0x1EC12370 1 t else if op = 2 then tunnel_reasm_flush dev t else t)"

end
