(* ===== verification/Tunnel.thy ===== *)
theory Tunnel
  imports Bridge
begin

text \<open>
  \<open>npu_tunnel.c\<close>: one packet at a time from the bridge ring, rewritten and handed back in segments.
  A packet is its descriptor of 32 bytes at \<open>desc\<close> and what follows. A wait for credit that the bridge
  never grants is \<open>None\<close>.
\<close>

section \<open>Reads\<close>

abbreviation d32 :: "tunnel \<Rightarrow> u32 \<Rightarrow> u32" where "d32 t a \<equiv> rd32 (tn_mem t) a"
abbreviation d16 :: "tunnel \<Rightarrow> u32 \<Rightarrow> u16" where "d16 t a \<equiv> rd16 (tn_mem t) a"
abbreviation d8 :: "tunnel \<Rightarrow> u32 \<Rightarrow> u8" where "d8 t a \<equiv> tn_mem t a"

text \<open>A be16 as the code sees it.\<close>

definition be16 :: "tunnel \<Rightarrow> u32 \<Rightarrow> u16" where "be16 t a = bswap16 (d16 t a)"

section \<open>The ring\<close>

definition tunnel_dequeue :: "device \<Rightarrow> u32 \<Rightarrow> tunnel \<Rightarrow> (u32 \<times> u32) option \<times> tunnel" where
  "tunnel_dequeue dev port t =
     (let remain = tunnel_pending t ! unat port;
          (remain, t) =
            (if remain = 0
             then (let (r, t) = tn_rd dev (BRIDGE_CREDIT port) t; r = c32 (c8 r)
                   in (r, t\<lparr>tunnel_pending := (tunnel_pending t)[unat port := r]\<rparr>))
             else (remain, t))
      in if remain = 0 then (None, t)
         else
           (let (p, t) = tn_rd dev (0x1EC12080 + 16 * port) t; desc = p OR 0x20000000
            in (Some ((d32 t desc AND 0xFFFF) + 32, desc), t\<lparr>tunnel_pending := (tunnel_pending t)[unat port := remain - 1]\<rparr>)))"

section \<open>Whole packets and insertions\<close>

definition tunnel_send_split :: "device \<Rightarrow> u32 \<Rightarrow> u32 \<Rightarrow> bool \<Rightarrow> u32 \<Rightarrow> u32 \<Rightarrow> tunnel \<Rightarrow> s32 \<times> tunnel" where
  "tunnel_send_split dev port addr fwd len split t =
     (let kind = SEG_TYPE (bit_of fwd); len = c32 (c16 len); split = c32 (c16 split)
      in if split = 0 then tunnel_seg dev port addr len 0 (SEG_FIRST OR SEG_LAST OR kind) 0 0 0 0 t
         else
           (let t = put_seg dev port addr 32 0 (SEG_FIRST OR SEG_TYPE 1) 0 0 0 0 t;
                t = put_seg dev port addr (len - 32 - split) (split + 32) (SEG_LAST OR kind) 0 0 0 0 t
            in (0, t)))"

definition tunnel_send_insert ::
  "device \<Rightarrow> u32 \<Rightarrow> u32 \<Rightarrow> bool \<Rightarrow> u32 \<Rightarrow> u32 \<Rightarrow> bool \<Rightarrow> u32 \<Rightarrow> u32 \<Rightarrow> u32 \<times> u32 \<times> u32 \<times> u32 \<Rightarrow> tunnel \<Rightarrow> tunnel" where
  "tunnel_send_insert dev port hdr hdr_fwd hdr_len desc fwd len split p t =
     (let (p0, p1, p2, p3) = p; split = c32 (c16 split);
          t = put_seg dev port desc 32 0 (SEG_FIRST OR SEG_TYPE 1) 0 0 0 0 t;
          t = put_seg dev port hdr hdr_len 0 (SEG_TYPE (bit_of hdr_fwd + 4)) p0 p1 p2 p3 t
      in put_seg dev port desc (len - split - 32) (split + 32) (SEG_LAST OR SEG_TYPE (bit_of fwd)) 0 0 0 0 t)"

text \<open>The four descriptor words every tunnel operation sets.\<close>

definition desc_words :: "u32 \<Rightarrow> u32 \<Rightarrow> u32 \<Rightarrow> tunnel \<Rightarrow> tunnel" where
  "desc_words port desc udf t =
     tn_set32 (desc + 24) 0xFFFF (tn_set32 desc (push_bit 4 port)
       (tn_set32 (desc + 20) 0x7F4007FF (tn_set32 (desc + 16) (push_bit 14 udf OR 0x3800) t)))"

section \<open>VXLAN\<close>

definition ipv4_csum_update :: "mem \<Rightarrow> u32 \<Rightarrow> u16 \<Rightarrow> u16 \<Rightarrow> u16" where
  "ipv4_csum_update m iph totlen frag =
     (let s = c32 (NOT (bswap16 (rd16 m (iph + 10)))) + c32 (NOT (bswap16 (rd16 m (iph + 2)))) + c32 totlen;
          s = (s AND 0xFFFF) + drop_bit 16 s + c32 (NOT (bswap16 (rd16 m (iph + 6)))) + c32 frag;
          s = (s AND 0xFFFF) + drop_bit 16 s
      in c16 (NOT s))"

definition vxlan_encap :: "device \<Rightarrow> u32 \<Rightarrow> u32 \<Rightarrow> u32 \<Rightarrow> u32 \<Rightarrow> tunnel \<Rightarrow> s32 \<times> tunnel" where
  "vxlan_encap dev port len desc udf t =
     (let hdr = npu_bridge_addr t + (udf - 1) * 128
      in (0, tunnel_send_insert dev port hdr True 50 desc False len 0
               (PATCH 0x10 (len + 4), PATCH 0x26 (len - 16), 0, 0) (desc_words port desc udf t)))"

definition vxlan_encap_frag :: "device \<Rightarrow> u32 \<Rightarrow> u32 \<Rightarrow> u32 \<Rightarrow> u32 \<Rightarrow> u32 \<Rightarrow> tunnel \<Rightarrow> s32 \<times> tunnel" where
  "vxlan_encap_frag dev port len desc udf hdr_off t =
     (let hdr = npu_bridge_addr t + (udf - 1) * 128;
          iph = desc + hdr_off + 32;
          units = c32 (c16 (drop_bit 3 (tunnel_encap_mtu t - 70)));
          fp = push_bit 3 units;
          rem = c32 (c16 (len - fp));
          t = desc_words port desc udf t;
          t = put_seg dev port desc 32 0 (SEG_FIRST OR SEG_TYPE 1) 0 0 0 0 t;
          t = put_seg dev port hdr 50 0 (SEG_TYPE 5) (PATCH 0x10 (fp + 70)) (PATCH 0x26 (fp + 50)) 0 0 t;
          t = put_seg dev port desc (fp + 34) 32 (SEG_LAST OR SEG_TYPE 1)
                (PATCH 0x30 (fp + 20)) (PATCH 0x34 0x2000)
                (PATCH 0x38 (c32 (ipv4_csum_update (tn_mem t) iph (c16 (fp + 20)) 0x2000))) 0 t;
          t = put_seg dev port desc 32 0 (SEG_FIRST OR SEG_TYPE 1) 0 0 0 0 t;
          t = put_seg dev port hdr 50 0 (SEG_TYPE 5) (PATCH 0x10 (rem + 4)) (PATCH 0x26 (rem - 16)) 0 0 t;
          t = put_seg dev port desc 34 32 (SEG_TYPE 1)
                (PATCH 0x30 (rem - 46)) (PATCH 0x34 units)
                (PATCH 0x38 (c32 (ipv4_csum_update (tn_mem t) iph (c16 (rem - 46)) (c16 units)))) 0 t
      in (0, put_seg dev port desc (len - 66 - fp) (fp + 66) SEG_LAST 0 0 0 0 t))"

definition tunnel_vxlan :: "device \<Rightarrow> u32 \<Rightarrow> u32 \<Rightarrow> u32 \<Rightarrow> u32 \<Rightarrow> tunnel \<Rightarrow> s32 \<times> tunnel" where
  "tunnel_vxlan dev port len desc udf t =
     (if 19 < c8 (udf - 1) then tunnel_send_split dev port desc False len 50 (desc_words port desc udf t)
      else if len + 4 \<le> tunnel_encap_mtu t then vxlan_encap dev port len desc udf t
      else vxlan_encap_frag dev port len desc udf (drop_bit 20 (d32 t desc) AND 0x7F) t)"

section \<open>SRv6\<close>

definition srv6_encap :: "device \<Rightarrow> u32 \<Rightarrow> u32 \<Rightarrow> u32 \<Rightarrow> u32 \<Rightarrow> u32 \<Rightarrow> tunnel \<Rightarrow> s32 \<times> tunnel" where
  "srv6_encap dev port len desc udf hdr_off t =
     (let hdr = npu_bridge_addr t + (udf - 21) * 128;
          hlen = c32 (tunnel_srv6_hdr_len t ! unat (udf - 41));
          t = desc_words port desc udf t;
          t = put_seg dev port desc 44 0 (SEG_FIRST OR SEG_TYPE 1) 0 0 0 0 t;
          t = put_seg dev port hdr (hlen - 12) 12 (SEG_TYPE 5) (PATCH 0x12 (len - hdr_off - 86 + hlen)) 0 0 0 t
      in (0, put_seg dev port desc (len - 46) 46 SEG_LAST 0 0 0 0 t))"

definition srv6_decap :: "device \<Rightarrow> u32 \<Rightarrow> u32 \<Rightarrow> u32 \<Rightarrow> u32 \<Rightarrow> bool \<Rightarrow> tunnel \<Rightarrow> s32 \<times> tunnel" where
  "srv6_decap dev port len desc hdr_off srh t =
     (let strip = (if srh then c32 (d8 t (desc + hdr_off + 73)) * 8 + 48 else 40);
          t = put_seg dev port desc 46 0 (SEG_FIRST OR SEG_TYPE 1) (PATCH 0x2C 0x0800) 0 0 0 t
      in (0, put_seg dev port desc (len - 46 - strip) (46 + strip) SEG_LAST 0 0 0 0 t))"

definition srv6_end :: "device \<Rightarrow> u32 \<Rightarrow> u32 \<Rightarrow> u32 \<Rightarrow> u32 \<Rightarrow> u32 \<Rightarrow> tunnel \<Rightarrow> s32 \<times> tunnel" where
  "srv6_end dev port len desc udf hdr_off t =
     (let pkt = desc + hdr_off; ip6 = pkt + 32; srh = pkt + 72;
          t = desc_words port desc udf t
      in if d8 t (ip6 + 6) = 4 then srv6_decap dev port len desc hdr_off False t
         else if d8 t (srh + 3) = 0 then srv6_decap dev port len desc hdr_off True t
         else
           (let left = c32 (d8 t (srh + 3) - 1); ext = c32 (d8 t (srh + 1));
                t = tn_copy (pkt + 56) (srh + 8 + 16 * left) 16 t
            in if left \<noteq> 0 \<or> 0 \<le>s d8 t (srh + 5)
               then tunnel_send_split dev port desc False len 0 (tn_set8 (srh + 3) (c8 left) t)
               else
                 (let t = tn_set8 (ip6 + 6) (d8 t srh) t;
                      ext = c32 (c8 (ext * 8 + 8));
                      plen = be16 t (ip6 + 4) - c16 ext;
                      t = tn_set16 (ip6 + 4) (bswap16 plen) t;
                      t = put_seg dev port desc (hdr_off + 72) 0 (SEG_FIRST OR SEG_TYPE 1) 0 0 0 0 t
                  in (0, put_seg dev port desc (c32 plen) (ext + hdr_off + 72) SEG_LAST 0 0 0 0 t))))"

definition tunnel_srv6 :: "device \<Rightarrow> u32 \<Rightarrow> u32 \<Rightarrow> u32 \<Rightarrow> u32 \<Rightarrow> tunnel \<Rightarrow> s32 \<times> tunnel" where
  "tunnel_srv6 dev port len desc udf t =
     (let hdr_off = drop_bit 20 (d32 t desc) AND 0x7F
      in if c8 (udf - 41) \<le> 7 then srv6_encap dev port len desc udf hdr_off t
         else if c8 (udf - 49) \<le> 7 then srv6_end dev port len desc udf hdr_off t
         else (- 1, t))"

section \<open>Address mapping\<close>

partial_function (option) credit_spin :: "device \<Rightarrow> u32 \<Rightarrow> u32 \<Rightarrow> tunnel \<Rightarrow> (u32 \<times> tunnel) option" where
  "credit_spin dev port credit t =
     (if credit = 0
      then (let (v, t) = tn_rd dev (0x1EC12050 + 4 * port) t
            in credit_spin dev port (drop_bit 8 v AND 0xFF) t)
      else Some (credit, t))"

definition tunnel_egress_cached :: "device \<Rightarrow> u32 \<Rightarrow> u32 \<Rightarrow> u32 \<Rightarrow> u32 \<Rightarrow> tunnel \<Rightarrow> tunnel option" where
  "tunnel_egress_cached dev port w0 w1 w2 t =
     (case credit_spin dev port (tunnel_credit t ! unat port) t of
        None \<Rightarrow> None
      | Some (credit, t) \<Rightarrow>
          (let t = tn_wr (0x1EC12104 + 32 * port) w1 t;
               t = tn_wr (0x1EC12108 + 32 * port) w2 t;
               t = tn_wr (0x1EC12100 + 32 * port) w0 t
           in Some (t\<lparr>tunnel_credit := (tunnel_credit t)[unat port := credit - 1]\<rparr>)))"

definition tunnel_send_replace :: "device \<Rightarrow> u32 \<Rightarrow> u32 \<Rightarrow> u32 \<Rightarrow> u32 \<Rightarrow> u32 \<Rightarrow> u32 \<Rightarrow> u32 \<Rightarrow> tunnel \<Rightarrow> tunnel option" where
  "tunnel_send_replace dev port desc len hlen split hdr hdr_len t =
     (let desc = desc AND 0x1FFFFFFF; hlen = c32 (c16 hlen); split = c32 (c16 split)
      in Option.bind (tunnel_egress_cached dev port desc (push_bit 16 (hlen + 32)) (port OR 0x81000000) t) (\<lambda>t.
         Option.bind (tunnel_egress_cached dev port (hdr AND 0x1FFFFFFF) (push_bit 16 hdr_len) (port OR 0x81000000) t) (\<lambda>t.
         tunnel_egress_cached dev port desc
           (push_bit 16 (len - split - 32 - hlen) OR c32 (c16 (split + 32 + hlen))) (port OR 0x40000000) t)))"

definition tunnel_map :: "device \<Rightarrow> u32 \<Rightarrow> u32 \<Rightarrow> u32 \<Rightarrow> u32 \<Rightarrow> u32 \<Rightarrow> u32 \<Rightarrow> tunnel \<Rightarrow> (s32 \<times> tunnel) option" where
  "tunnel_map dev port len desc udf w1 idx t =
     (let d = desc AND 0x1FFFFFFF; hdr = npu_bridge_addr t + 0xE80; t = desc_words port desc udf t;
          tail = push_bit 16 (c32 (c16 (len - 106))) OR 106
      in map_option (\<lambda>t. (0, t))
        (if udf = 65 then
           (let t = tn_set16 (desc + 50) (bswap16 (c16 (len - 106))) t;
                t = tn_set8 (desc + 52) (d8 t (desc + 95)) t
            in Option.bind (tunnel_egress_cached dev port d (push_bit 16 86) (port OR 0x81000000) t)
                 (tunnel_egress_cached dev port d tail (port OR 0x40000000)))
         else if udf = 66 then
           (let t = tn_set16 (desc + 48) (bswap16 (c16 (len - 86))) t;
                t = tn_set8 (desc + 55) (d8 t (desc + 72)) t;
                t = tn_set16 (desc + 108) (bswap16 (c16 w1)) t
            in Option.bind (tunnel_egress_cached dev port d (push_bit 16 66) (port OR 0x81000000) t)
                 (tunnel_egress_cached dev port d tail (port OR 0x40000000)))
         else if udf = 67 then
           (let t = tn_copy hdr (tunnel_map_info_base t + 40 * idx) 40 t;
                t = tn_set16 (desc + 44) (bswap16 0x86DD) t;
                t = tn_set16 (hdr + 4) (bswap16 (c16 (len - 66))) t;
                t = tn_set8 (hdr + 6) (d8 t (desc + 55)) t
            in tunnel_send_replace dev port desc len 14 20 hdr 40 t)
         else
           (let t = tn_copy hdr (tunnel_map_info_base t + 40 * idx) 24 t;
                t = tn_set16 (desc + 44) (bswap16 0x0800) t;
                t = tn_set16 (hdr + 2) (bswap16 (c16 (len - 66))) t;
                t = tn_set8 (hdr + 9) (d8 t (desc + 52)) t
            in tunnel_send_replace dev port desc len 14 44 hdr 24 t)))"

section \<open>Fragmentation\<close>

definition TUNNEL_V4_FRAG_INFO :: "variant \<Rightarrow> u32" where
  "TUNNEL_V4_FRAG_INFO v = (if v_soc v = AN7581 then 0x2200 else 0x1200)"

definition pppoe_len_patch :: "mem \<Rightarrow> u32 \<Rightarrow> u32 \<Rightarrow> u32" where
  "pppoe_len_patch m desc len =
     (if rd16 m (desc + 44) = bswap16 0x8864 then PATCH 0x32 len
      else if rd16 m (desc + 44) = bswap16 0x8100 \<and> rd16 m (desc + 48) = bswap16 0x8864 then PATCH 0x36 len
      else 0)"

definition frag_v4 :: "variant \<Rightarrow> device \<Rightarrow> u32 \<Rightarrow> u32 \<Rightarrow> u32 \<Rightarrow> u32 \<Rightarrow> u32 \<Rightarrow> tunnel \<Rightarrow> s32 \<times> tunnel" where
  "frag_v4 v dev port len desc mtu hdr_off t =
     (let units = c32 (c16 (drop_bit 3 (mtu - 20))); fp = push_bit 3 units; h = c32 (c16 hdr_off);
          t = tn_set32 desc (push_bit 4 (port AND 31) OR TUNNEL_V4_FRAG_INFO v) t;
          t = put_seg dev port desc (fp + hdr_off + 52) 0 (SEG_FIRST OR SEG_LAST OR SEG_TYPE 1)
                (PATCH (h + 34) (fp + 20)) (PATCH (h + 38) 0x2000) (pppoe_len_patch (tn_mem t) desc (fp + 22)) 0 t;
          t = put_seg dev port desc (hdr_off + 52) 0 (SEG_FIRST OR SEG_TYPE 1)
                (PATCH (h + 34) (len - 32 - h - fp)) (PATCH (h + 38) units)
                (pppoe_len_patch (tn_mem t) desc (len - fp - hdr_off - 30)) 0 t
      in (0, put_seg dev port desc (len - fp - hdr_off - 52) (fp + hdr_off + 52) SEG_LAST 0 0 0 0 t))"

definition frag_v6 :: "device \<Rightarrow> u32 \<Rightarrow> u32 \<Rightarrow> u32 \<Rightarrow> u32 \<Rightarrow> u32 \<Rightarrow> tunnel \<Rightarrow> s32 \<times> tunnel" where
  "frag_v6 dev port len desc mtu hdr_off t =
     (let frag_hdr = npu_bridge_addr t + 0xE00; nh = desc + hdr_off + 38;
          units = c32 (c16 (drop_bit 3 (mtu - 48))); fs = push_bit 3 units; h = c32 (c16 hdr_off);
          t = tn_set32 desc (push_bit 4 (port AND 31) OR 0x200) t;
          nxt = c32 (d8 t nh);
          t = tn_set8 nh 44 t;
          id = tunnel_ipv6_frag_id t + 1;
          t = t\<lparr>tunnel_ipv6_frag_id := id\<rparr>;
          t = put_seg dev port desc (hdr_off + 72) 0 (SEG_FIRST OR SEG_TYPE 1)
                (PATCH (h + 36) (fs + 8)) (pppoe_len_patch (tn_mem t) desc (fs + 50)) 0 0 t;
          t = put_seg dev port frag_hdr 8 0 (SEG_TYPE 1)
                (PATCH 0 (push_bit 8 nxt)) (PATCH 2 1) (PATCH 4 (drop_bit 16 id)) (PATCH 6 id) t;
          t = put_seg dev port desc fs (hdr_off + 72) (SEG_LAST OR SEG_TYPE 1) 0 0 0 0 t;
          t = put_seg dev port desc (hdr_off + 72) 0 (SEG_FIRST OR SEG_TYPE 1)
                (PATCH (h + 36) (len - 64 - h - fs)) (pppoe_len_patch (tn_mem t) desc (len - hdr_off - fs - 22)) 0 0 t;
          t = put_seg dev port frag_hdr 8 0 (SEG_TYPE 1)
                (PATCH 0 (push_bit 8 nxt)) (PATCH 2 fs) (PATCH 4 (drop_bit 16 id)) (PATCH 6 id) t
      in (0, put_seg dev port desc (len - hdr_off - fs - 72) (hdr_off + 72 + fs) SEG_LAST 0 0 0 0 t))"

definition tunnel_fragment :: "variant \<Rightarrow> device \<Rightarrow> u32 \<Rightarrow> u32 \<Rightarrow> u32 \<Rightarrow> tunnel \<Rightarrow> s32 \<times> tunnel" where
  "tunnel_fragment v dev port len desc t =
     (let w0 = d32 t desc; mtu = c32 (d16 t (desc + 18)); hdr_off = drop_bit 20 w0 AND 0x7F
      in if c32 (c16 w0) \<le> hdr_off + mtu then (- 1, t)
         else if bit w0 27 then frag_v4 v dev port len desc mtu hdr_off t
         else if bit w0 28 then frag_v6 dev port len desc mtu hdr_off t
         else (- 1, t))"

section \<open>Reassembly\<close>

definition reasm_v4_hold :: "device \<Rightarrow> u32 \<Rightarrow> u32 \<Rightarrow> u32 \<Rightarrow> u32 \<Rightarrow> u32 \<Rightarrow> tunnel \<Rightarrow> tunnel" where
  "reasm_v4_hold dev port len desc hdr_off ip t =
     (let t = (if tunnel_v4_reasm_desc t \<noteq> 0
               then tunnel_pkt_drop dev port (tunnel_v4_reasm_len t) (tunnel_v4_reasm_desc t) t else t);
          t = t\<lparr>tunnel_v4_reasm_desc := desc, tunnel_v4_reasm_len := len, tunnel_v4_reasm_hdroff := hdr_off\<rparr>
      in tn_set16 (ip + 6) (d16 t (ip + 6) AND bswap16 0xDFFF) t)"

definition reasm_v4 :: "variant \<Rightarrow> device \<Rightarrow> u32 \<Rightarrow> u32 \<Rightarrow> u32 \<Rightarrow> u32 \<Rightarrow> tunnel \<Rightarrow> s32 \<times> tunnel" where
  "reasm_v4 v dev port len desc hdr_off t =
     (let ip = desc + hdr_off + 32;
          t = tn_set32 desc (push_bit 4 (port AND 31) OR TUNNEL_V4_FRAG_INFO v) t
      in if d16 t (ip + 6) AND bswap16 0x2000 \<noteq> 0 then (0, reasm_v4_hold dev port len desc hdr_off ip t)
         else if tunnel_v4_reasm_desc t = 0 then (- 1, t)
         else
           (let sip = tunnel_v4_reasm_desc t + tunnel_v4_reasm_hdroff t + 32
            in if d16 t (sip + 4) \<noteq> d16 t (ip + 4) then (- 1, t)
               else if c32 (c16 (push_bit 3 (c32 (be16 t (ip + 6))))) \<noteq>
                       c32 (be16 t (sip + 2)) - (push_bit 2 (c32 (d8 t sip)) AND 0x3C) then (- 1, t)
               else
                 (let t = tn_set16 (sip + 2) (bswap16 (c16 (c32 (be16 t (sip + 2)) + len - 52 - hdr_off))) t;
                      slen = tunnel_v4_reasm_len t; soff = tunnel_v4_reasm_hdroff t;
                      t = put_seg dev port (tunnel_v4_reasm_desc t) slen 0 SEG_FIRST
                            (pppoe_len_patch (tn_mem t) desc (slen - 82 - soff + len - hdr_off)) 0 0 0 t;
                      t = put_seg dev port desc (len - 52 - hdr_off) (hdr_off + 52) SEG_LAST 0 0 0 0 t
                  in (0, t\<lparr>tunnel_v4_reasm_desc := 0, tunnel_v4_reasm_len := 0, tunnel_v4_reasm_hdroff := 0\<rparr>))))"

definition reasm_v6_hold :: "device \<Rightarrow> u32 \<Rightarrow> u32 \<Rightarrow> u32 \<Rightarrow> u32 \<Rightarrow> u32 \<Rightarrow> tunnel \<Rightarrow> tunnel" where
  "reasm_v6_hold dev port len desc hdr_off pkt t =
     (let t = (if tunnel_v6_reasm_desc t \<noteq> 0
               then tunnel_pkt_drop dev port (tunnel_v6_reasm_len t) (tunnel_v6_reasm_desc t) t else t);
          t = t\<lparr>tunnel_v6_reasm_desc := desc, tunnel_v6_reasm_len := len, tunnel_v6_reasm_hdroff := hdr_off\<rparr>
      in tn_set8 (pkt + 38) (d8 t (pkt + 72)) t)"

definition reasm_v6 :: "device \<Rightarrow> u32 \<Rightarrow> u32 \<Rightarrow> u32 \<Rightarrow> u32 \<Rightarrow> tunnel \<Rightarrow> s32 \<times> tunnel" where
  "reasm_v6 dev port len desc hdr_off t =
     (let pkt = desc + hdr_off; fh = pkt + 72;
          t = tn_set32 desc (push_bit 4 (port AND 31) OR 0x200) t
      in if d8 t (pkt + 38) \<noteq> 44 then (- 1, t)
         else if d16 t (fh + 2) AND bswap16 1 \<noteq> 0 then (0, reasm_v6_hold dev port len desc hdr_off pkt t)
         else if tunnel_v6_reasm_desc t = 0 then (- 1, t)
         else
           (let spkt = tunnel_v6_reasm_desc t + tunnel_v6_reasm_hdroff t
            in if d16 t (spkt + 76) \<noteq> d16 t (fh + 4) \<or> d16 t (spkt + 78) \<noteq> d16 t (fh + 6) then (- 1, t)
               else if c32 (be16 t (fh + 2) AND NOT 7) \<noteq> c32 (be16 t (spkt + 36)) - 8 then (- 1, t)
               else
                 (let t = tn_set16 (spkt + 36) (bswap16 (c16 (c32 (be16 t (spkt + 36)) + len - 88 - hdr_off))) t;
                      sdesc = tunnel_v6_reasm_desc t; slen = tunnel_v6_reasm_len t; soff = tunnel_v6_reasm_hdroff t;
                      t = put_seg dev port sdesc (soff + 72) 0 (SEG_FIRST OR SEG_TYPE 1)
                            (pppoe_len_patch (tn_mem t) desc (slen - 118 - soff + len - hdr_off)) 0 0 0 t;
                      t = put_seg dev port sdesc (slen - 80 - soff) (soff + 80) 0 0 0 0 0 t;
                      t = put_seg dev port desc (len - 80 - hdr_off) (hdr_off + 80) SEG_LAST 0 0 0 0 t
                  in (0, t\<lparr>tunnel_v6_reasm_desc := 0, tunnel_v6_reasm_len := 0, tunnel_v6_reasm_hdroff := 0\<rparr>))))"

definition tunnel_reassemble :: "variant \<Rightarrow> device \<Rightarrow> u32 \<Rightarrow> u32 \<Rightarrow> u32 \<Rightarrow> tunnel \<Rightarrow> s32 \<times> tunnel" where
  "tunnel_reassemble v dev port len desc t =
     (let w0 = d32 t desc; hdr_off = drop_bit 20 w0 AND 0x7F
      in if bit w0 27 then reasm_v4 v dev port len desc hdr_off t
         else if bit w0 28 then reasm_v6 dev port len desc hdr_off t
         else (- 1, t))"

section \<open>The handler\<close>

definition tunnel_offload_handler :: "variant \<Rightarrow> device \<Rightarrow> u32 \<Rightarrow> u32 \<Rightarrow> u32 \<Rightarrow> tunnel \<Rightarrow> (s32 \<times> tunnel) option" where
  "tunnel_offload_handler v dev port pkt_len desc t =
     (let w1 = d32 t (desc + 4); opcode = drop_bit 28 w1 AND 7
      in if opcode = 1 then Some (tunnel_fragment v dev port pkt_len desc t)
         else if opcode = 2 then Some (tunnel_reassemble v dev port pkt_len desc t)
         else
           (let udf = c32 (d8 t (desc + 20))
            in if c8 (udf - 1) \<le> 39 then Some (tunnel_vxlan dev port pkt_len desc udf t)
               else if c8 (udf - 41) \<le> 15 then Some (tunnel_srv6 dev port pkt_len desc udf t)
               else if c8 (udf - 65) \<le> 3
               then tunnel_map dev port pkt_len desc udf (w1 AND 0x3FFFF) (c32 (d16 t (desc + 16))) t
               else Some (- 1, t)))"

text \<open>A turn of the offload loop on what the ring holds; a packet that is refused is dropped.\<close>

definition tunnel_turn :: "variant \<Rightarrow> device \<Rightarrow> u32 \<Rightarrow> u32 \<times> u32 \<Rightarrow> tunnel \<Rightarrow> tunnel option" where
  "tunnel_turn v dev core pkt t =
     map_option (\<lambda>(r, t). if r = - 1 then tunnel_pkt_drop dev core (fst pkt) (snd pkt) t else t)
       (tunnel_offload_handler v dev core (fst pkt) (snd pkt) t)"

end
