(* ===== verification/Tunnel_Wire.thy ===== *)
theory Tunnel_Wire
  imports Tunnel
begin

text \<open>
  What the segments of the tunnel offload put on the wire: the bytes a packet of segments carries, as
  the bridge reads and patches them.
\<close>

section \<open>What goes out on the wire\<close>

text \<open>
  The bridge reads a segment from the buffer at \<open>w0\<close>, its length and first byte in \<open>w1\<close>. A patch word
  replaces the be16 at an offset of the buffer on the way out (the offsets the code uses count from the
  buffer's start, also where a segment begins further on).
\<close>

definition patch_byte :: "u32 \<Rightarrow> nat \<Rightarrow> u8 \<Rightarrow> u8" where
  "patch_byte p k x =
     (if p = 0 then x
      else if k = unat (drop_bit 16 p AND 0x3FFF) then c8 p
      else if k = unat (drop_bit 16 p AND 0x3FFF) + 1 then c8 (drop_bit 8 p)
      else x)"

definition seg_bytes :: "mem \<Rightarrow> seg \<Rightarrow> u8 list" where
  "seg_bytes m s =
     (let len = unat (drop_bit 16 (seg_w1 s)); off = unat (seg_w1 s AND 0xFFFF)
      in map (\<lambda>k. fold (\<lambda>p. patch_byte p k) [seg_w3 s, seg_w4 s, seg_w5 s, seg_w6 s]
                (m ((seg_w0 s OR 0x20000000) + of_nat k))) [off..<off + len])"

definition wire :: "mem \<Rightarrow> seg list \<Rightarrow> u8 list" where
  "wire m ss = concat (map (seg_bytes m) ss)"

definition bytes :: "mem \<Rightarrow> u32 \<Rightarrow> nat \<Rightarrow> u8 list" where
  "bytes m a n = map (\<lambda>k. m (a + of_nat k)) [0..<n]"

text \<open>The be16 at an offset of a packet.\<close>

definition word_at :: "u8 list \<Rightarrow> nat \<Rightarrow> nat" where
  "word_at ws k = unat (ws ! k) * 256 + unat (ws ! (k + 1))"

section \<open>Putting segments\<close>

text \<open>A channel that always has credit.\<close>

definition bridge_ready :: "device \<Rightarrow> u32 \<Rightarrow> bool" where
  "bridge_ready dev port \<longleftrightarrow> (\<forall>tr. dev tr (BRIDGE_CREDIT port) AND 0xFF00 \<noteq> 0)"

definition emitted :: "tunnel \<Rightarrow> (u32 \<times> u32) list" where "emitted t = writes (tn_io t)"

definition seg_of :: "u32 \<Rightarrow> u32 \<Rightarrow> u32 \<Rightarrow> u32 \<Rightarrow> u32 \<Rightarrow> u32 \<Rightarrow> u32 \<Rightarrow> u32 \<Rightarrow> u32 \<Rightarrow> seg" where
  "seg_of port addr len off cmd p0 p1 p2 p3 =
     Seg (addr AND 0x1FFFFFFF) (push_bit 16 len OR (off AND 0xFFFF)) (cmd OR (port AND 7)) p0 p1 p2 p3"

lemma fold_wr: "fold (\<lambda>(a, v). tn_wr a v) ws t = t\<lparr>tn_io := tn_io t @ map (\<lambda>(a, v). Wr a v) ws\<rparr>"
  by (induction ws arbitrary: t) (auto simp: tn_wr_def reg_wr_def)

lemma writes_wr [simp]: "writes (map (\<lambda>(a, v). Wr a v) ws) = ws"
  by (induction ws) auto

lemma put_seg_eq:
  "put_seg dev port addr len off cmd p0 p1 p2 p3 t = t\<lparr>tn_io := tn_io (put_seg dev port addr len off cmd p0 p1 p2 p3 t)\<rparr>"
  by (simp add: put_seg_def tunnel_seg_def npu_bridge_egress_def tn_rd_def reg_rd_def Let_def fold_wr del: seg_writes.simps)

lemma emitted_put_seg [simp]:
  "bridge_ready dev port \<Longrightarrow> emitted (put_seg dev port addr len off cmd p0 p1 p2 p3 t) =
    emitted t @ seg_writes (BRIDGE_EGRESS port) (seg_of port addr len off cmd p0 p1 p2 p3)"
  by (simp add: put_seg_def tunnel_seg_def npu_bridge_egress_def tn_rd_def reg_rd_def Let_def fold_wr emitted_def
      bridge_ready_def seg_of_def del: seg_writes.simps)

lemma put_seg_keeps [simp]:
  "tn_mem (put_seg dev port addr len off cmd p0 p1 p2 p3 t) = tn_mem t"
  "tunnel_v4_reasm_desc (put_seg dev port addr len off cmd p0 p1 p2 p3 t) = tunnel_v4_reasm_desc t"
  "tunnel_v4_reasm_len (put_seg dev port addr len off cmd p0 p1 p2 p3 t) = tunnel_v4_reasm_len t"
  "tunnel_v4_reasm_hdroff (put_seg dev port addr len off cmd p0 p1 p2 p3 t) = tunnel_v4_reasm_hdroff t"
  "npu_bridge_base (put_seg dev port addr len off cmd p0 p1 p2 p3 t) = npu_bridge_base t"
  by (subst put_seg_eq, simp)+

lemma set_keeps [simp]:
  "tn_mem (tn_set32 a v t) = wr32 a v (tn_mem t)" "tn_mem (tn_set16 a w t) = wr16 a w (tn_mem t)"
  "emitted (tn_set32 a v t) = emitted t" "emitted (tn_set16 a w t) = emitted t"
  "tunnel_v4_reasm_desc (tn_set32 a v t) = tunnel_v4_reasm_desc t" "tunnel_v4_reasm_desc (tn_set16 a w t) = tunnel_v4_reasm_desc t"
  "tunnel_v4_reasm_len (tn_set32 a v t) = tunnel_v4_reasm_len t" "tunnel_v4_reasm_len (tn_set16 a w t) = tunnel_v4_reasm_len t"
  "tunnel_v4_reasm_hdroff (tn_set32 a v t) = tunnel_v4_reasm_hdroff t"
  "tunnel_v4_reasm_hdroff (tn_set16 a w t) = tunnel_v4_reasm_hdroff t"
  by (simp_all add: tn_set32_def tn_set16_def emitted_def)

text \<open>A buffer the ring gave out lies in the alias of the NPU.\<close>

definition in_alias :: "u32 \<Rightarrow> bool" where "in_alias a \<longleftrightarrow> a AND 0xE0000000 = 0x20000000"

lemma alias_back: "in_alias a \<Longrightarrow> (a AND 0x1FFFFFFF) OR 0x20000000 = a"
proof -
  assume a: "in_alias a"
  have m: "(0x1FFFFFFF :: u32) = mask 29" "(0xE0000000 :: u32) = NOT (mask 29)"
    by (simp_all add: mask_eq_exp_minus_1)
  have "(a AND 0x1FFFFFFF) OR (a AND 0xE0000000) = a"
    unfolding m by (rule bit_word_eqI) (auto simp: bit_simps simp del: mask_numeral)
  then show ?thesis using a by (simp add: in_alias_def)
qed

lemma seg_len_off:
  fixes len off :: u32
  assumes "unat len < 2 ^ 16" "unat off < 2 ^ 16"
  shows "unat (drop_bit 16 (push_bit 16 len OR (off AND 0xFFFF))) = unat len"
    "unat ((push_bit 16 len OR (off AND 0xFFFF)) AND 0xFFFF) = unat off"
proof -
  have m: "(0xFFFF :: u32) = mask 16" by (simp add: mask_eq_exp_minus_1)
  have l: "take_bit 16 len = len" "take_bit 16 off = off"
    using assms by (simp_all add: word_unat_eq_iff unsigned_take_bit_eq take_bit_nat_eq_self)
  have "drop_bit 16 (push_bit 16 len OR (off AND 0xFFFF)) = take_bit 16 len"
    unfolding m by (rule bit_word_eqI) (auto simp: bit_simps simp del: mask_numeral)
  then show "unat (drop_bit 16 (push_bit 16 len OR (off AND 0xFFFF))) = unat len" by (simp add: l)
  have "(push_bit 16 len OR (off AND 0xFFFF)) AND 0xFFFF = take_bit 16 off"
    unfolding m by (rule bit_word_eqI) (auto simp: bit_simps simp del: mask_numeral)
  then show "unat ((push_bit 16 len OR (off AND 0xFFFF)) AND 0xFFFF) = unat off" by (simp add: l)
qed

lemma seg_bytes_of:
  assumes "unat len < 2 ^ 16" "unat off < 2 ^ 16" "in_alias addr"
  shows "seg_bytes m (seg_of port addr len off cmd p0 p1 p2 p3) =
    map (\<lambda>k. fold (\<lambda>p. patch_byte p k) [p0, p1, p2, p3] (m (addr + of_nat k))) [unat off..<unat off + unat len]"
  using alias_back [OF assms(3)] seg_len_off [OF assms(1,2)] by (simp add: seg_bytes_def seg_of_def Let_def)

text \<open>A patch puts its value where it says.\<close>

lemma patch_PATCH:
  assumes "unat off < 2 ^ 14"
  shows "patch_byte (PATCH off v) k x =
    (if k = unat off then c8 (drop_bit 8 v) else if k = unat off + 1 then c8 v else x)"
proof -
  have m: "(0x3FFF :: u32) = mask 14" by (simp add: mask_eq_exp_minus_1)
  have o: "take_bit 14 off = off" using assms by (simp add: word_unat_eq_iff unsigned_take_bit_eq take_bit_nat_eq_self)
  have C: "(0xC0000000 :: u32) = push_bit 30 3" by (simp add: push_bit_eq_mult)
  have b3: "bit (3 :: u32) n \<longleftrightarrow> n < 2" for n
  proof -
    have "(3 :: u32) = mask 2" by (simp add: mask_eq_exp_minus_1)
    then show ?thesis by (simp only: bit_mask_iff) auto
  qed
  have "drop_bit 16 (PATCH off v) AND 0x3FFF = take_bit 14 off"
    unfolding PATCH_def m C
    by (rule bit_word_eqI) (auto simp: bit_simps b3 simp del: mask_numeral push_bit_numeral dest: bit_imp_le_length)
  moreover have "c8 (PATCH off v) = c8 (drop_bit 8 v)" "c8 (drop_bit 8 (PATCH off v)) = c8 v"
    unfolding PATCH_def bswap16_def C
    by (rule bit_word_eqI, auto simp: bit_simps b3 simp del: push_bit_numeral)+
  moreover have "PATCH off v \<noteq> 0"
  proof -
    have "bit (PATCH off v) 30" unfolding PATCH_def C by (simp add: bit_simps b3 del: push_bit_numeral)
    then show ?thesis by auto
  qed
  ultimately show ?thesis by (simp add: patch_byte_def o)
qed

lemma patch_none [simp]: "patch_byte 0 k x = x"
  by (simp add: patch_byte_def)

end
