(* ===== verification/Tunnel_Frag.thy ===== *)
theory Tunnel_Frag
  imports Tunnel_Wire
begin

text \<open>
  IPv4 fragmentation of \<open>npu_tunnel.c\<close>: what the two fragments of a packet carry on the wire.
\<close>

section \<open>Bytes of a packet\<close>

lemma length_bytes [simp]: "length (bytes m a n) = n"
  by (simp add: bytes_def)

lemma nth_bytes [simp]: "k < n \<Longrightarrow> bytes m a n ! k = m (a + of_nat k)"
  by (simp add: bytes_def)

lemma bytes_append: "bytes m a n @ bytes m (a + of_nat n) k = bytes m a (n + k)"
  by (rule nth_equalityI) (auto simp: nth_append add.assoc)

lemma bytes_cong: "(\<And>k. k < n \<Longrightarrow> m (a + of_nat k) = m' (a + of_nat k)) \<Longrightarrow> bytes m a n = bytes m' a n"
  by (simp add: bytes_def)

lemma plain_seg:
  assumes "unat len < 2 ^ 16" "unat off < 2 ^ 16" "in_alias addr"
  shows "seg_bytes m (seg_of port addr len off cmd 0 0 0 0) = bytes m (addr + off) (unat len)"
proof -
  have "map f [o'..<o' + n] = map (\<lambda>k. f (o' + k)) [0..<n]" for f :: "nat \<Rightarrow> u8" and o' n
    by (rule nth_equalityI) auto
  then show ?thesis by (simp add: seg_bytes_of [OF assms] bytes_def add.assoc)
qed

lemma length_seg: "unat len < 2 ^ 16 \<Longrightarrow> unat off < 2 ^ 16 \<Longrightarrow> in_alias addr \<Longrightarrow>
    length (seg_bytes m (seg_of port addr len off cmd p0 p1 p2 p3)) = unat len"
  by (simp add: seg_bytes_of)

text \<open>
  The descriptor word written first leaves the packet alone, and the length of a PPPoE header lies
  in front of the IP header it precedes.
\<close>

lemma past_descriptor:
  assumes "4 \<le> k" "k < 2 ^ 32"
  shows "wr32 desc v m (desc + of_nat k) = m (desc + of_nat k)"
proof -
  have "desc + of_nat k = desc + of_nat j \<longleftrightarrow> k = j" if "j < 4" for j
  proof -
    have "(of_nat k :: u32) = of_nat j \<longleftrightarrow> k = j"
      using assms that unfolding word_unat_eq_iff unat_of_nat by simp
    then show ?thesis by simp
  qed
  from this [of 0] this [of 1] this [of 2] this [of 3] show ?thesis
    using assms(1) unfolding wr32_at by auto
qed

definition pppoe_room :: "mem \<Rightarrow> u32 \<Rightarrow> nat \<Rightarrow> bool" where
  "pppoe_room m desc h \<longleftrightarrow> (rd16 m (desc + 44) = bswap16 0x8864 \<longrightarrow> 22 \<le> h) \<and>
     (rd16 m (desc + 44) = bswap16 0x8100 \<and> rd16 m (desc + 48) = bswap16 0x8864 \<longrightarrow> 26 \<le> h)"

lemma pppoe_apart: "pppoe_room m desc h \<Longrightarrow> h + 32 \<le> k \<Longrightarrow> patch_byte (pppoe_len_patch m desc x) k y = y"
  by (auto simp: pppoe_len_patch_def patch_PATCH pppoe_room_def)

lemma pppoe_keeps: "pppoe_len_patch (wr32 desc v m) desc x = pppoe_len_patch m desc x"
proof -
  have "wr32 desc v m (desc + of_nat k) = m (desc + of_nat k)" if "k \<in> {44, 45, 48, 49}" for k
    using that by (intro past_descriptor) auto
  from this [of 44] this [of 45] this [of 48] this [of 49]
  show ?thesis by (simp add: pppoe_len_patch_def rd16_def add.assoc)
qed

section \<open>Two IPv4 fragments\<close>

text \<open>The segments of the two fragments, for \<open>fp\<close> bytes of payload in the first.\<close>

definition frag_segs :: "u32 \<Rightarrow> u32 \<Rightarrow> u32 \<Rightarrow> u32 \<Rightarrow> u32 \<Rightarrow> u32 \<Rightarrow> u32 \<Rightarrow> mem \<Rightarrow> seg list" where
  "frag_segs port desc len h units fp hdr_off m =
     [seg_of port desc (fp + hdr_off + 52) 0 (SEG_FIRST OR SEG_LAST OR SEG_TYPE 1)
        (PATCH (h + 34) (fp + 20)) (PATCH (h + 38) 0x2000) (pppoe_len_patch m desc (fp + 22)) 0,
      seg_of port desc (hdr_off + 52) 0 (SEG_FIRST OR SEG_TYPE 1)
        (PATCH (h + 34) (len - 32 - h - fp)) (PATCH (h + 38) units) (pppoe_len_patch m desc (len - fp - hdr_off - 30)) 0,
      seg_of port desc (len - fp - hdr_off - 52) (fp + hdr_off + 52) SEG_LAST 0 0 0 0]"

lemma frag_v4_emits:
  fixes mtu :: u32
  assumes "bridge_ready dev port"
  defines "units \<equiv> c32 (c16 (drop_bit 3 (mtu - 20)))"
  shows "emitted (snd (frag_v4 v dev port len desc mtu hdr_off t)) = emitted t @
      concat (map (seg_writes (BRIDGE_EGRESS port))
        (frag_segs port desc len (c32 (c16 hdr_off)) units (push_bit 3 units) hdr_off (tn_mem (snd (frag_v4 v dev port len desc mtu hdr_off t)))))"
    "tn_mem (snd (frag_v4 v dev port len desc mtu hdr_off t)) =
      wr32 desc (push_bit 4 (port AND 31) OR TUNNEL_V4_FRAG_INFO v) (tn_mem t)"
  using assms(1) by (simp_all add: frag_v4_def Let_def frag_segs_def units_def del: seg_writes.simps)

text \<open>The bytes of a header segment from the IP header on.\<close>

lemma header_seg:
  assumes "unat len < 2 ^ 16" "in_alias desc" "unat h + 38 < 2 ^ 14" "pppoe_room m desc (unat h)" "unat h + 32 \<le> k" "k < unat len"
  shows "seg_bytes m (seg_of port desc len 0 cmd (PATCH (h + 34) a) (PATCH (h + 38) b) (pppoe_len_patch m desc x) 0) ! k =
    (if k = unat h + 34 then c8 (drop_bit 8 a) else if k = unat h + 35 then c8 a
     else if k = unat h + 38 then c8 (drop_bit 8 b) else if k = unat h + 39 then c8 b
     else m (desc + of_nat k))"
proof -
  have h: "unat (h + 34) = unat h + 34" "unat (h + 38) = unat h + 38" using assms(3) by (simp_all add: unat_word_ariths)
  have b: "unat (h + 34) < 2 ^ 14" "unat (h + 38) < 2 ^ 14" unfolding h using assms(3) by simp_all
  show ?thesis
    using assms(5,6) unfolding seg_bytes_of [OF assms(1) _ assms(2), of 0, simplified]
    by (simp add: patch_PATCH [OF b(1)] patch_PATCH [OF b(2)] pppoe_apart [OF assms(4)] h)
qed

lemma word_of_bytes:
  fixes a :: u32
  assumes "unat a < 2 ^ 16"
  shows "unat (c8 (drop_bit 8 a)) * 256 + unat (c8 a) = unat a"
proof -
  have "unat (c8 (drop_bit 8 a)) = unat a div 256 mod 256" "unat (c8 a) = unat a mod 256"
    by (simp_all add: unat_c8_c32 unat_drop_bit)
  moreover have "unat a div 256 < 256" using assms by simp
  ultimately show ?thesis by simp
qed

lemma frag_units:
  assumes "28 \<le> unat (mtu :: u32)" "unat mtu < 2 ^ 16"
  defines "units \<equiv> c32 (c16 (drop_bit 3 (mtu - 20)))"
  shows "unat units = (unat mtu - 20) div 8" "unat (push_bit 3 units) = (unat mtu - 20) div 8 * 8"
proof -
  have "unat (mtu - 20) = unat mtu - 20" using assms(1) by (simp add: unat_sub word_le_nat_alt)
  then show u: "unat units = (unat mtu - 20) div 8"
    using assms(2) by (simp add: units_def unat_c16_c32 unat_drop_bit)
  have "(unat mtu - 20) div 8 * 8 < 2 ^ 32" using assms(2) by simp
  then show "unat (push_bit 3 units) = (unat mtu - 20) div 8 * 8"
    by (simp add: push_bit_eq_mult unat_word_ariths u)
qed

lemma word_of_header:
  fixes a :: u32
  assumes "ws ! k = c8 (drop_bit 8 a)" "ws ! (k + 1) = c8 a" "unat a < 2 ^ 16"
  shows "word_at ws k = unat a"
  using assms by (simp add: word_at_def word_of_bytes)

text \<open>
  What the two fragments carry, for a packet of \<open>L\<close> bytes with its IP header at \<open>H\<close> and \<open>F\<close> bytes of
  payload in the first fragment.
\<close>

lemma frag_segs_wire:
  fixes port :: u32
  assumes "in_alias desc" "pppoe_room m desc H" "unat hdr_off = H" "H < 128" "unat len = L" "L < 2 ^ 16"
    and "unat fp = F" "unat units < 2 ^ 16" "F + H + 52 < L"
  defines "segs \<equiv> frag_segs port desc len (c32 (c16 hdr_off)) units fp hdr_off m"
  shows "drop (H + 52) (wire m (take 1 segs)) = bytes m (desc + of_nat (H + 52)) F"
    "drop (H + 52) (wire m (drop 1 segs)) = bytes m (desc + of_nat (H + 52 + F)) (L - F - H - 52)"
    "length (wire m (take 1 segs)) = F + H + 52" "length (wire m (drop 1 segs)) = L - F"
    "word_at (wire m (take 1 segs)) (H + 34) = F + 20" "word_at (wire m (drop 1 segs)) (H + 34) = L - 32 - H - F"
    "word_at (wire m (take 1 segs)) (H + 38) = 0x2000" "word_at (wire m (drop 1 segs)) (H + 38) = unat units"
    "\<And>k. H + 32 \<le> k \<Longrightarrow> k < H + 52 \<Longrightarrow> k \<notin> {H + 34, H + 35, H + 38, H + 39} \<Longrightarrow>
       wire m (take 1 segs) ! k = m (desc + of_nat k) \<and> wire m (drop 1 segs) ! k = m (desc + of_nat k)"
proof -
  let ?h = "c32 (c16 hdr_off)"
  have h: "unat ?h = H" using assms(3,4) by (simp add: unat_c16_c32)
  have lens: "unat (fp + hdr_off + 52) = F + H + 52" "unat (hdr_off + 52) = H + 52"
    using assms(3-9) by (simp_all add: unat_word_ariths)
  have le: "fp + hdr_off + 52 \<le> len" "fp \<le> len" "32 + ?h + fp \<le> len"
    using assms(3-9) lens h by (simp_all add: word_le_nat_alt unat_word_ariths)
  have rest: "len - fp - hdr_off - 52 = len - (fp + hdr_off + 52)" "len - 32 - ?h - fp = len - (32 + ?h + fp)" by simp_all
  have unat3: "unat (32 + ?h + fp) = 32 + H + F" using assms(4,6,7,9) h by (simp add: unat_word_ariths)
  have u: "unat (len - fp - hdr_off - 52) = L - F - H - 52" "unat (len - 32 - ?h - fp) = L - 32 - H - F"
    unfolding rest unat_sub [OF le(1)] unat_sub [OF le(3)] lens unat3 using assms(5) by simp_all
  have F20: "unat (fp + 20) = F + 20" using assms(6,7,9) by (simp add: unat_word_ariths)
  have small: "unat (fp + hdr_off + 52) < 2 ^ 16" "unat (hdr_off + 52) < 2 ^ 16" "unat (len - fp - hdr_off - 52) < 2 ^ 16"
    unfolding lens u using assms(4,6,9) by simp_all
  let ?s1 = "segs ! 0" and ?s2 = "segs ! 1" and ?s3 = "segs ! 2"
  have segs: "take 1 segs = [?s1]" "drop 1 segs = [?s2, ?s3]" by (simp_all add: segs_def frag_segs_def)
  have room: "pppoe_room m desc (unat ?h)" "unat ?h + 38 < 2 ^ 14" using assms(2,4) h by simp_all
  have s1: "?s1 = seg_of port desc (fp + hdr_off + 52) 0 (SEG_FIRST OR SEG_LAST OR SEG_TYPE 1)
        (PATCH (?h + 34) (fp + 20)) (PATCH (?h + 38) 0x2000) (pppoe_len_patch m desc (fp + 22)) 0"
    and s2: "?s2 = seg_of port desc (hdr_off + 52) 0 (SEG_FIRST OR SEG_TYPE 1)
        (PATCH (?h + 34) (len - 32 - ?h - fp)) (PATCH (?h + 38) units) (pppoe_len_patch m desc (len - fp - hdr_off - 30)) 0"
    by (simp_all add: segs_def frag_segs_def)
  have s3: "seg_bytes m ?s3 = bytes m (desc + of_nat (H + 52 + F)) (L - F - H - 52)"
  proof -
    have s: "?s3 = seg_of port desc (len - fp - hdr_off - 52) (fp + hdr_off + 52) SEG_LAST 0 0 0 0"
      by (simp add: segs_def frag_segs_def)
    have at: "desc + (fp + hdr_off + 52) = desc + of_nat (H + 52 + F)"
      unfolding assms(3) [symmetric] assms(7) [symmetric] of_nat_add of_nat_unat ucast_id by simp
    show ?thesis unfolding s plain_seg [OF small(3) small(1) assms(1)] u at ..
  qed
  have l1: "length (seg_bytes m ?s1) = F + H + 52" and l2: "length (seg_bytes m ?s2) = H + 52"
    unfolding s1 s2 using length_seg [OF small(1) _ assms(1), of 0] length_seg [OF small(2) _ assms(1), of 0]
    by (simp_all add: lens)
  have at1: "seg_bytes m ?s1 ! k = (if k = H + 34 then c8 (drop_bit 8 (fp + 20)) else if k = H + 35 then c8 (fp + 20)
     else if k = H + 38 then c8 (drop_bit 8 (0x2000 :: u32)) else if k = H + 39 then c8 (0x2000 :: u32) else m (desc + of_nat k))"
    if "H + 32 \<le> k" "k < F + H + 52" for k
    unfolding s1 header_seg [OF small(1) assms(1) room(2,1), of k, unfolded h lens, OF that] ..
  have at2: "seg_bytes m ?s2 ! k = (if k = H + 34 then c8 (drop_bit 8 (len - 32 - ?h - fp)) else if k = H + 35 then c8 (len - 32 - ?h - fp)
     else if k = H + 38 then c8 (drop_bit 8 units) else if k = H + 39 then c8 units else m (desc + of_nat k))"
    if "H + 32 \<le> k" "k < H + 52" for k
    unfolding s2 header_seg [OF small(2) assms(1) room(2,1), of k, unfolded h lens, OF that] ..
  have w: "wire m (take 1 segs) = seg_bytes m ?s1" "wire m (drop 1 segs) = seg_bytes m ?s2 @ seg_bytes m ?s3"
    unfolding segs by (simp_all add: wire_def)
  have n2: "(seg_bytes m ?s2 @ seg_bytes m ?s3) ! k = seg_bytes m ?s2 ! k" if "k < H + 52" for k
    using that l2 by (simp add: nth_append)
  show "length (wire m (take 1 segs)) = F + H + 52" "length (wire m (drop 1 segs)) = L - F"
    unfolding w using l1 l2 assms(9) by (simp_all add: s3)
  show "drop (H + 52) (wire m (drop 1 segs)) = bytes m (desc + of_nat (H + 52 + F)) (L - F - H - 52)"
    unfolding w using l2 s3 by simp
  show "drop (H + 52) (wire m (take 1 segs)) = bytes m (desc + of_nat (H + 52)) F"
    unfolding w using l1 at1 by (intro nth_equalityI) (simp_all add: add.assoc)
  show "word_at (wire m (take 1 segs)) (H + 34) = F + 20"
    unfolding w F20 [symmetric] by (rule word_of_header) (use at1 F20 assms(6,9) in simp_all)
  show "word_at (wire m (drop 1 segs)) (H + 34) = L - 32 - H - F"
    unfolding w u(2) [symmetric] by (rule word_of_header) (use n2 at2 u(2) assms(6) in simp_all)
  have "word_at (wire m (take 1 segs)) (H + 38) = unat (0x2000 :: u32)"
    unfolding w by (rule word_of_header) (use at1 in simp_all)
  then show "word_at (wire m (take 1 segs)) (H + 38) = 0x2000" by simp
  show "word_at (wire m (drop 1 segs)) (H + 38) = unat units"
    unfolding w by (rule word_of_header) (use n2 at2 assms(8) in simp_all)
  show "wire m (take 1 segs) ! k = m (desc + of_nat k) \<and> wire m (drop 1 segs) ! k = m (desc + of_nat k)"
    if "H + 32 \<le> k" "k < H + 52" "k \<notin> {H + 34, H + 35, H + 38, H + 39}" for k
    unfolding w using that n2 at1 at2 by simp
qed

text \<open>
  C34. Fragmentation loses nothing. A packet longer than the MTU is handed out as two IPv4 fragments whose
  payloads, one after the other, are the packet's payload byte for byte; each fragment's total length is
  the length of what it carries, the first fits the MTU and says that more follow, and the offset of the
  second is the payload of the first in units of eight.
\<close>

theorem frag_v4_covers:
  assumes "bridge_ready dev port" "in_alias desc" "pppoe_room (tn_mem t) desc H" "unat hdr_off = H" "H < 128"
    and "unat len = L" "L < 2 ^ 16" "28 \<le> unat mtu" "H + unat mtu + 32 < L"
  shows "\<exists>s1 s2 s3. let t' = snd (frag_v4 v dev port len desc mtu hdr_off t);
      w1 = wire (tn_mem t') [s1]; w2 = wire (tn_mem t') [s2, s3]
    in emitted t' = emitted t @ concat (map (seg_writes (BRIDGE_EGRESS port)) [s1, s2, s3]) \<and>
       drop (H + 52) w1 @ drop (H + 52) w2 = bytes (tn_mem t) (desc + of_nat (H + 52)) (L - (H + 52)) \<and>
       word_at w1 (H + 34) = length (drop (H + 32) w1) \<and> word_at w2 (H + 34) = length (drop (H + 32) w2) \<and>
       word_at w1 (H + 34) \<le> unat mtu \<and>
       word_at w1 (H + 38) = 0x2000 \<and> word_at w2 (H + 38) * 8 = length (drop (H + 52) w1)"
proof -
  let ?units = "c32 (c16 (drop_bit 3 (mtu - 20)))"
  let ?t' = "snd (frag_v4 v dev port len desc mtu hdr_off t)"
  let ?m = "tn_mem ?t'"
  let ?segs = "frag_segs port desc len (c32 (c16 hdr_off)) ?units (push_bit 3 ?units) hdr_off ?m"
  define F where "F = (unat mtu - 20) div 8 * 8"
  note e = frag_v4_emits [OF assms(1), of v len desc mtu hdr_off t]
  have mtu: "unat mtu < 2 ^ 16" using assms(7,9) by simp
  note u = frag_units [OF assms(8) mtu]
  have "F \<le> unat mtu - 20" by (simp add: F_def)
  then have F: "unat (push_bit 3 ?units) = F" "F + H + 52 < L" "F + 20 \<le> unat mtu" "unat ?units < 2 ^ 16" "unat ?units * 8 = F"
    using u assms(8,9) mtu by (simp_all add: F_def)
  have room: "pppoe_room ?m desc H"
    using assms(3) past_descriptor [where k = 44 and desc = desc] past_descriptor [where k = 45 and desc = desc]
      past_descriptor [where k = 48 and desc = desc] past_descriptor [where k = 49 and desc = desc]
    by (simp add: e(2) pppoe_room_def rd16_def add.assoc)
  note w = frag_segs_wire [OF assms(2) room assms(4,5,6,7) F(1,4,2), where port = port]
  have same: "bytes ?m (desc + of_nat (H + 52)) n = bytes (tn_mem t) (desc + of_nat (H + 52)) n" if "n \<le> L" for n
  proof (rule bytes_cong)
    fix k assume "k < n"
    then show "?m (desc + of_nat (H + 52) + of_nat k) = tn_mem t (desc + of_nat (H + 52) + of_nat k)"
      using past_descriptor [of "H + 52 + k" desc _ "tn_mem t"] that assms(5,7) by (simp add: e(2) add.assoc)
  qed
  have "drop (H + 52) (wire ?m (take 1 ?segs)) @ drop (H + 52) (wire ?m (drop 1 ?segs)) =
      bytes ?m (desc + of_nat (H + 52)) F @ bytes ?m (desc + of_nat (H + 52) + of_nat F) (L - F - H - 52)"
    unfolding w by (simp add: add.assoc)
  also have "\<dots> = bytes (tn_mem t) (desc + of_nat (H + 52)) (L - (H + 52))"
    unfolding bytes_append using F(2) by (subst same) simp_all
  finally have payload: "drop (H + 52) (wire ?m (take 1 ?segs)) @ drop (H + 52) (wire ?m (drop 1 ?segs)) =
      bytes (tn_mem t) (desc + of_nat (H + 52)) (L - (H + 52))" .
  have lens: "length (drop (H + 32) (wire ?m (take 1 ?segs))) = F + 20" "length (drop (H + 32) (wire ?m (drop 1 ?segs))) = L - 32 - H - F"
      "length (drop (H + 52) (wire ?m (take 1 ?segs))) = F"
    unfolding length_drop w by simp_all
  obtain s1 s2 s3 where parts: "?segs = [s1, s2, s3]" by (simp add: frag_segs_def)
  have cut: "take 1 ?segs = [s1]" "drop 1 ?segs = [s2, s3]" unfolding parts by simp_all
  note facts = e(1) [unfolded parts] payload [unfolded cut] w(5-8) [unfolded cut] lens [unfolded cut]
  show ?thesis unfolding Let_def
  proof (intro exI conjI)
    show "emitted ?t' = emitted t @ concat (map (seg_writes (BRIDGE_EGRESS port)) [s1, s2, s3])" by (rule facts(1))
  qed (use facts(2-) F(3,5) in simp_all)
qed

text \<open>A state of the offload: an empty memory and a bridge base.\<close>

definition tunnel_demo :: tunnel where
  "tunnel_demo = \<lparr>tn_mem = (\<lambda>_. 0), tn_io = [], npu_bridge_base = 0x3E800000, tunnel_pending = replicate 8 0,
     tunnel_credit = replicate 8 0, tunnel_ipv6_frag_id = 0, tunnel_v4_reasm_desc = 0, tunnel_v4_reasm_len = 0,
     tunnel_v4_reasm_hdroff = 0, tunnel_v6_reasm_desc = 0, tunnel_v6_reasm_len = 0, tunnel_v6_reasm_hdroff = 0,
     tunnel_encap_mtu = 1500, tunnel_map_info_base = 0, fragment_mtu = replicate 4 0, tunnel_srv6_hdr_len = replicate 8 0,
     srv6_my_ipv6 = replicate 16 0, tunnel_ecn_enabled = 0, l4s_debug_enable = 0, l4s_pkt_count = 0, l4s_log_phase = 0,
     l4s_mark_count = 0, l4s_qid = 7, l4s_qlen = 0, l4s_qlen_thresh = 100\<rparr>"

theorem frag_v4_covers_witness:
  "\<exists>s1 s2 s3. let t' = snd (frag_v4 \<lparr>v_soc = AN7583, v_wifi = MT7993, v_clanker = True\<rparr> (\<lambda>_ _. 0xFF00) 0 1546 0x3E810000 1000 14 tunnel_demo);
      w1 = wire (tn_mem t') [s1]; w2 = wire (tn_mem t') [s2, s3]
    in word_at w1 48 = length (drop 46 w1) \<and> word_at w2 48 = length (drop 46 w2) \<and>
       drop 66 w1 @ drop 66 w2 = bytes (\<lambda>_. 0) 0x3E810042 1480"
proof -
  let ?v = "\<lparr>v_soc = AN7583, v_wifi = MT7993, v_clanker = True\<rparr>" and ?dev = "\<lambda>_ _. 0xFF00 :: u32"
  have "bridge_ready ?dev 0" "in_alias 0x3E810000" "pppoe_room (tn_mem tunnel_demo) 0x3E810000 14"
    by (simp_all add: bridge_ready_def in_alias_def pppoe_room_def tunnel_demo_def rd16_def bswap16_def)
  from frag_v4_covers [OF this, of 14 1546 1546 1000 ?v]
  obtain s1 s2 s3 where c: "let t' = snd (frag_v4 ?v ?dev 0 1546 0x3E810000 1000 14 tunnel_demo);
      w1 = wire (tn_mem t') [s1]; w2 = wire (tn_mem t') [s2, s3]
    in emitted t' = emitted tunnel_demo @ concat (map (seg_writes (BRIDGE_EGRESS 0)) [s1, s2, s3]) \<and>
       drop (14 + 52) w1 @ drop (14 + 52) w2 = bytes (tn_mem tunnel_demo) (0x3E810000 + of_nat (14 + 52)) (1546 - (14 + 52)) \<and>
       word_at w1 (14 + 34) = length (drop (14 + 32) w1) \<and> word_at w2 (14 + 34) = length (drop (14 + 32) w2) \<and>
       word_at w1 (14 + 34) \<le> unat (1000 :: u32) \<and>
       word_at w1 (14 + 38) = 0x2000 \<and> word_at w2 (14 + 38) * 8 = length (drop (14 + 52) w1)" by auto
  have "tn_mem tunnel_demo = (\<lambda>_. 0)" by (simp add: tunnel_demo_def)
  then show ?thesis
    by (intro exI [of _ s1] exI [of _ s2] exI [of _ s3]) (use c in \<open>simp add: Let_def\<close>)
qed

end
