(* ===== verification/Tunnel_Reasm.thy ===== *)
theory Tunnel_Reasm
  imports Tunnel_Frag
begin

text \<open>
  IPv4 reassembly of \<open>npu_tunnel.c\<close>, and that it undoes the fragmentation of the same file.
\<close>

section \<open>Buffers apart\<close>

text \<open>Writes in a buffer seen from the bytes of it and of another one.\<close>

definition apart :: "u32 \<Rightarrow> nat \<Rightarrow> u32 \<Rightarrow> nat \<Rightarrow> bool" where
  "apart a n b n' \<longleftrightarrow> (\<forall>i<n. \<forall>j<n'. a + of_nat i \<noteq> b + of_nat j)"

lemma same_slot: "j < 2 ^ 32 \<Longrightarrow> k < 2 ^ 32 \<Longrightarrow> (a :: u32) + of_nat k = a + of_nat j \<longleftrightarrow> k = j"
proof -
  assume "j < 2 ^ 32" "k < 2 ^ 32"
  then have "(of_nat k :: u32) = of_nat j \<longleftrightarrow> k = j" unfolding word_unat_eq_iff unat_of_nat by simp
  then show ?thesis by simp
qed

lemma wr16_buf:
  assumes "j + 1 < n" "k < n" "n < 2 ^ 32"
  shows "wr16 (a + of_nat j) v m (a + of_nat k) = (if k = j + 1 then c8 (drop_bit 8 v) else if k = j then c8 v else m (a + of_nat k))"
  using same_slot [of j k a] same_slot [of "j + 1" k a] assms unfolding wr16_at by (simp add: add_ac)

lemma wr16_other:
  assumes "apart a n b n'" "j + 1 < n" "k < n'"
  shows "wr16 (a + of_nat j) v m (b + of_nat k) = m (b + of_nat k)"
proof -
  have "a + of_nat i \<noteq> b + of_nat k" if "i < n" for i
    using assms(1,3) that unfolding apart_def by blast
  from this [of j] this [of "j + 1"] show ?thesis
    using assms(2) unfolding wr16_at by (auto simp: add_ac)
qed

lemma wr32_other:
  assumes "apart a n b n'" "4 \<le> n" "k < n'"
  shows "wr32 a v m (b + of_nat k) = m (b + of_nat k)"
proof -
  have "a + of_nat i \<noteq> b + of_nat k" if "i < 4" for i
    using assms that by (auto simp: apart_def dest: spec [of _ i])
  from this [of 0] this [of 1] this [of 2] this [of 3] show ?thesis unfolding wr32_at by auto
qed

lemma apart_sym: "apart a n b n' \<Longrightarrow> apart b n' a n"
  by (auto simp: apart_def) metis

lemma rd16_buf: "rd16 m (a + of_nat j) = c16 (m (a + of_nat j)) OR push_bit 8 (c16 (m (a + of_nat (j + 1))))"
  by (simp add: rd16_def add_ac)

lemma be16_value:
  fixes x y :: u8
  assumes "unat x = v div 256" "unat y = v mod 256" "v < 65536"
  shows "unat (bswap16 (c16 x OR push_bit 8 (c16 y))) = v"
proof -
  have A: "bswap16 (c16 x OR push_bit 8 (c16 y)) = c16 y OR push_bit 8 (c16 x)" for x y :: u8
    unfolding bswap16_def by (rule bit_word_eqI) (auto simp: bit_simps dest: bit_imp_le_length)
  have B: "c16 y OR push_bit 8 (c16 x) = c16 y + push_bit 8 (c16 x)" for x y :: u8
    by (rule disjunctive_add [symmetric]) (auto simp: bit_simps dest: bit_imp_le_length)
  have C: "unat (c16 y + push_bit 8 (c16 x)) = unat y + 256 * unat x" for x y :: u8
  proof -
    have w: "unat (c16 z) = unat z" for z :: u8
      using unat_lt8 [of z] by (simp add: unsigned_ucast_eq take_bit_nat_eq_self)
    have "unat (c16 y) = unat y" "unat (push_bit 8 (c16 x)) = 256 * unat x"
      using unat_lt8 [of x] by (simp_all add: w push_bit_eq_mult unat_word_ariths)
    then show ?thesis using unat_lt8 [of x] unat_lt8 [of y] by (simp add: unat_word_ariths)
  qed
  show ?thesis unfolding A unfolding B C assms(1,2) by simp
qed

section \<open>The two halves of a reassembly\<close>

lemma ip_at: "(a :: u32) + of_nat H + 32 + of_nat k = a + of_nat (H + 32 + k)"
  by (simp add: add_ac)

lemma ip_field: "(a :: u32) + of_nat H + 32 = a + of_nat (H + 32)"
    "(a :: u32) + of_nat (H + 32) + 2 = a + of_nat (H + 34)" "(a :: u32) + of_nat (H + 32) + 4 = a + of_nat (H + 36)"
    "(a :: u32) + of_nat (H + 32) + 6 = a + of_nat (H + 38)"
  by (simp_all add: add_ac)

lemma reasm_first:
  fixes port :: u32
  assumes "tunnel_v4_reasm_desc t = 0"
    and m_def: "m = wr32 da (push_bit 4 (port AND 31) OR TUNNEL_V4_FRAG_INFO v) (tn_mem t)"
    and "rd16 m (da + of_nat (H + 38)) AND bswap16 0x2000 \<noteq> 0"
  shows "\<exists>t'. reasm_v4 v dev port len da (of_nat H) t = (0, t') \<and> emitted t' = emitted t \<and>
    tunnel_v4_reasm_desc t' = da \<and> tunnel_v4_reasm_len t' = len \<and> tunnel_v4_reasm_hdroff t' = of_nat H \<and>
    tn_mem t' = wr16 (da + of_nat (H + 38)) (rd16 m (da + of_nat (H + 38)) AND bswap16 0xDFFF) m"
proof -
  let ?t0 = "tn_set32 da (push_bit 4 (port AND 31) OR TUNNEL_V4_FRAG_INFO v) t"
  have more: "rd16 (tn_mem ?t0) (da + of_nat H + 32 + 6) AND bswap16 0x2000 \<noteq> 0"
    using assms(3) unfolding ip_field set_keeps m_def .
  have "reasm_v4 v dev port len da (of_nat H) t = (0, reasm_v4_hold dev port len da (of_nat H) (da + of_nat H + 32) ?t0)"
    using more by (simp only: reasm_v4_def Let_def if_True simp_thms not_False_eq_True)
  then show ?thesis
    using assms(1) by (simp add: reasm_v4_hold_def Let_def ip_field m_def emitted_def tn_set16_def tn_set32_def add_ac)
qed

lemma reasm_second:
  fixes port :: u32
  assumes "bridge_ready dev port" "tunnel_v4_reasm_desc t = da" "da \<noteq> 0" "tunnel_v4_reasm_len t = slen" "tunnel_v4_reasm_hdroff t = of_nat H"
    and m_def: "m = wr32 db (push_bit 4 (port AND 31) OR TUNNEL_V4_FRAG_INFO v) (tn_mem t)"
    and "rd16 m (db + of_nat (H + 38)) AND bswap16 0x2000 = 0" "rd16 m (da + of_nat (H + 36)) = rd16 m (db + of_nat (H + 36))"
    and "c32 (c16 (push_bit 3 (c32 (bswap16 (rd16 m (db + of_nat (H + 38))))))) =
      c32 (bswap16 (rd16 m (da + of_nat (H + 34)))) - (push_bit 2 (c32 (m (da + of_nat (H + 32)))) AND 0x3C)"
  shows "\<exists>t' p. reasm_v4 v dev port len db (of_nat H) t = (0, t') \<and> tunnel_v4_reasm_desc t' = 0 \<and>
    tn_mem t' = wr16 (da + of_nat (H + 34)) (bswap16 (c16 (c32 (bswap16 (rd16 m (da + of_nat (H + 34)))) + len - 52 - of_nat H))) m \<and>
    emitted t' = emitted t @ concat (map (seg_writes (BRIDGE_EGRESS port))
      [seg_of port da slen 0 SEG_FIRST (pppoe_len_patch (tn_mem t') db p) 0 0 0,
       seg_of port db (len - 52 - of_nat H) (of_nat H + 52) SEG_LAST 0 0 0 0])"
proof -
  let ?t0 = "tn_set32 db (push_bit 4 (port AND 31) OR TUNNEL_V4_FRAG_INFO v) t"
  let ?t1 = "tn_set16 (da + of_nat (H + 34)) (bswap16 (c16 (c32 (bswap16 (rd16 m (da + of_nat (H + 34)))) + len - 52 - of_nat H))) ?t0"
  let ?p = "slen - 82 - of_nat H + len - of_nat H"
  let ?t2 = "put_seg dev port da slen 0 SEG_FIRST (pppoe_len_patch (tn_mem ?t1) db ?p) 0 0 0 ?t1"
  let ?t3 = "put_seg dev port db (len - 52 - of_nat H) (of_nat H + 52) SEG_LAST 0 0 0 0 ?t2"
  have m: "tn_mem ?t0 = m" by (simp add: m_def)
  have held: "tunnel_v4_reasm_desc ?t0 = da" "tunnel_v4_reasm_len ?t1 = slen" "tunnel_v4_reasm_hdroff ?t0 = of_nat H"
      "tunnel_v4_reasm_desc ?t1 = da" "tunnel_v4_reasm_hdroff ?t1 = of_nat H" using assms(2,4,5) by simp_all
  have "reasm_v4 v dev port len db (of_nat H) t =
      (0, ?t3\<lparr>tunnel_v4_reasm_desc := 0, tunnel_v4_reasm_len := 0, tunnel_v4_reasm_hdroff := 0\<rparr>)"
    using assms(3) assms(7-9)
    by (simp only: reasm_v4_def Let_def be16_def held ip_field m simp_thms if_False if_True not_True_eq_False)
  moreover have "tunnel_v4_reasm_desc (?t3\<lparr>tunnel_v4_reasm_desc := 0, tunnel_v4_reasm_len := 0, tunnel_v4_reasm_hdroff := 0\<rparr>) = 0"
    by simp
  moreover have "tn_mem (?t3\<lparr>tunnel_v4_reasm_desc := 0, tunnel_v4_reasm_len := 0, tunnel_v4_reasm_hdroff := 0\<rparr>) = tn_mem ?t1"
    by simp
  moreover have "tn_mem ?t1 = wr16 (da + of_nat (H + 34)) (bswap16 (c16 (c32 (bswap16 (rd16 m (da + of_nat (H + 34)))) + len - 52 - of_nat H))) m"
    by (simp only: set_keeps m_def)
  moreover have "emitted (?t3\<lparr>tunnel_v4_reasm_desc := 0, tunnel_v4_reasm_len := 0, tunnel_v4_reasm_hdroff := 0\<rparr>) = emitted ?t3"
    by (simp add: emitted_def)
  moreover have "emitted ?t3 = emitted t @ concat (map (seg_writes (BRIDGE_EGRESS port))
      [seg_of port da slen 0 SEG_FIRST (pppoe_len_patch (tn_mem ?t1) db ?p) 0 0 0,
       seg_of port db (len - 52 - of_nat H) (of_nat H + 52) SEG_LAST 0 0 0 0])"
    by (simp only: emitted_put_seg [OF assms(1)] set_keeps concat.simps list.map append_assoc append_Nil2)
  ultimately show ?thesis
    by (intro exI [of _ "?t3\<lparr>tunnel_v4_reasm_desc := 0, tunnel_v4_reasm_len := 0, tunnel_v4_reasm_hdroff := 0\<rparr>"] exI [of _ ?p] conjI)
      (simp_all only: tunnel.simps)
qed

section \<open>There and back\<close>

text \<open>A be16 in the bytes of a packet.\<close>

lemma rd16_word:
  assumes "\<And>k. k \<in> {j, j + 1} \<Longrightarrow> m (a + of_nat k) = ws ! k"
  shows "unat (bswap16 (rd16 m (a + of_nat j))) = word_at ws j"
  unfolding rd16_buf using assms [of j] assms [of "j + 1"] unat_lt8 [of "ws ! j"] unat_lt8 [of "ws ! (j + 1)"]
  by (intro be16_value) (simp_all add: word_at_def)

lemma bswap_back: "bswap16 (bswap16 x) = x"
proof (rule bit_word_eqI)
  fix n
  assume "n < LENGTH(16)"
  then show "bit (bswap16 (bswap16 x)) n = bit x n"
    by (cases "n < 8") (auto simp: bswap16_def bit_simps dest: bit_imp_le_length)
qed

lemma flag_bit:
  "x AND bswap16 0x2000 = 0 \<longleftrightarrow> \<not> bit (bswap16 x) 13"
proof -
  have "bswap16 0x2000 = (2 ^ 5 :: u16)" by (simp add: bswap16_def)
  moreover have "bit (bswap16 x) 13 = bit x 5" by (auto simp: bswap16_def bit_simps dest: bit_imp_le_length)
  ultimately show ?thesis by (simp only: and_exp_eq_0_iff_not_bit)
qed

lemma c16_bytes: "unat (c8 (drop_bit 8 (bswap16 v))) = unat v mod 256" "unat (c8 (bswap16 v)) = unat v div 256"
proof -
  have "c8 (drop_bit 8 (bswap16 v)) = c8 v" "c8 (bswap16 v) = c8 (drop_bit 8 v)"
    unfolding bswap16_def by (rule bit_word_eqI, auto simp: bit_simps dest: bit_imp_le_length)+
  moreover have "unat v div 256 < 256" using unat_lt16 [of v] by simp
  ultimately show "unat (c8 (drop_bit 8 (bswap16 v))) = unat v mod 256" "unat (c8 (bswap16 v)) = unat v div 256"
    by (simp_all add: unsigned_ucast_eq take_bit_eq_mod unat_drop_bit)
qed

text \<open>
  \<open>fragments_of P H F w1 w2\<close>: the bytes \<open>w1\<close> and \<open>w2\<close> are the two fragments of \<open>P\<close>, an unfragmented IPv4
  packet with its header of 20 bytes behind \<open>H\<close> bytes, with \<open>F\<close> bytes of payload in the first.
\<close>

definition fragments_of :: "u8 list \<Rightarrow> nat \<Rightarrow> nat \<Rightarrow> u8 list \<Rightarrow> u8 list \<Rightarrow> bool" where
  "fragments_of P H F w1 w2 \<longleftrightarrow>
     H < 128 \<and> length P < 2 ^ 16 \<and> F + H + 52 < length P \<and> 8 dvd F \<and>
     length w1 = F + H + 52 \<and> length w2 = length P - F \<and>
     drop (H + 52) w1 = take F (drop (H + 52) P) \<and> drop (H + 52) w2 = drop (H + 52 + F) P \<and>
     word_at w1 (H + 34) = F + 20 \<and> word_at w1 (H + 38) = 0x2000 \<and> word_at w2 (H + 38) = F div 8 \<and>
     (\<forall>k. H + 32 \<le> k \<longrightarrow> k < H + 52 \<longrightarrow> k \<notin> {H + 34, H + 35, H + 38, H + 39} \<longrightarrow> w1 ! k = P ! k \<and> w2 ! k = P ! k) \<and>
     word_at P (H + 34) = length P - 32 - H \<and> word_at P (H + 38) = 0 \<and> unat (P ! (H + 32)) mod 16 = 5"

lemma offset_matches:
  fixes x y :: u16 and b :: u8
  assumes "unat (bswap16 x) = F div 8" "unat (bswap16 y) = F + 20" "unat b mod 16 = 5" "F < 65516" "8 dvd F"
  shows "c32 (c16 (push_bit 3 (c32 (bswap16 x)))) = c32 (bswap16 y) - (push_bit 2 (c32 b) AND 0x3C)"
proof -
  have F: "F div 8 * 8 = F" using assms(5) by simp
  have "(0x3C :: u32) = push_bit 2 (mask 4)" by (simp add: mask_eq_exp_minus_1 push_bit_eq_mult)
  then have "push_bit 2 (c32 b) AND 0x3C = push_bit 2 (take_bit 4 (c32 b))"
    by (simp add: push_bit_and [symmetric] take_bit_eq_mask del: mask_numeral push_bit_numeral)
  also have "take_bit 4 (c32 b) = 5"
    using assms(3) by (simp only: word_unat_eq_iff unsigned_take_bit_eq unat_c32_c8) (simp add: take_bit_eq_mod)
  finally have ihl: "push_bit 2 (c32 b) AND 0x3C = 20" by simp
  have "(20 :: u32) \<le> c32 (bswap16 y)" using assms(2) by (simp add: word_le_nat_alt)
  then have r: "unat (c32 (bswap16 y) - 20) = F" using assms(2) by (simp add: unat_sub)
  have "unat (push_bit 3 (c32 (bswap16 x))) = F"
    using F assms(1,4) by (simp add: push_bit_eq_mult unat_word_ariths mult.commute)
  then have "unat (c32 (c16 (push_bit 3 (c32 (bswap16 x))))) = F" using assms(4) by (simp add: unat_c16_c32)
  then show ?thesis unfolding ihl word_unat_eq_iff r .
qed

lemma total_restored:
  fixes y :: u16
  assumes "unat (bswap16 y) = F + 20" "F + H + 52 < L" "L < 2 ^ 16"
  shows "unat (c16 (c32 (bswap16 y) + of_nat (L - F) - 52 - of_nat H)) = L - 32 - H"
proof -
  have "F + 20 < 2 ^ 16" using assms(2,3) by simp
  then have "c32 (bswap16 y) = of_nat (F + 20)"
    using assms(1) by (simp add: word_unat_eq_iff unat_of_nat del: of_nat_add)
  moreover have "(of_nat (F + 20) :: u32) + of_nat (L - F) - 52 - of_nat H = of_nat (F + 20 + (L - F) - 52 - H)"
    using assms(2) by (simp add: of_nat_diff)
  moreover have "F + 20 + (L - F) - 52 - H = L - 32 - H" using assms(2) by simp
  ultimately show ?thesis using assms(3) by (simp add: unat_c16_c32 unat_of_nat)
qed

lemma byte_of_word: "word_at ws k = v \<Longrightarrow> unat (ws ! k) = v div 256 \<and> unat (ws ! (k + 1)) = v mod 256"
  using unat_lt8 [of "ws ! (k + 1)"] by (auto simp: word_at_def)

lemma nth_drop_eq: "drop n xs = drop n' ys \<Longrightarrow> n \<le> length xs \<Longrightarrow> n' \<le> length ys \<Longrightarrow> n \<le> k \<Longrightarrow> xs ! k = ys ! (k - n + n')"
  by (metis add.commute le_add_diff_inverse nth_drop)

text \<open>Two fragments that lie in buffers of their own.\<close>

definition arrived :: "mem \<Rightarrow> nat \<Rightarrow> u32 \<Rightarrow> u8 list \<Rightarrow> bool" where
  "arrived m H a w \<longleftrightarrow> (\<forall>k. H + 32 \<le> k \<longrightarrow> k < length w \<longrightarrow> m (a + of_nat k) = w ! k)"

lemma unat_inj16: "unat (bswap16 x) = unat (bswap16 y) \<Longrightarrow> x = y"
  by (metis bswap_back word_unat_eq_iff)

lemma no_flag: "unat (bswap16 x) < 2 ^ 13 \<Longrightarrow> x AND bswap16 0x2000 = 0"
proof -
  assume "unat (bswap16 x) < 2 ^ 13"
  then have "take_bit 13 (bswap16 x) = bswap16 x"
    by (simp only: word_unat_eq_iff unsigned_take_bit_eq) (simp add: take_bit_nat_eq_self)
  then have "\<not> bit (bswap16 x) 13" by (metis bit_take_bit_iff less_irrefl)
  then show ?thesis by (simp only: flag_bit simp_thms)
qed

text \<open>The first fragment is kept, its flag cleared.\<close>

lemma fragment_held:
  assumes f: "fragments_of P H F w1 w2" and "tunnel_v4_reasm_desc q = 0" "arrived (tn_mem q) H da w1"
    and ap: "apart da (length w1) db (length w2)"
  shows "\<exists>q'. reasm_v4 v dev port len da (of_nat H) q = (0, q') \<and> emitted q' = emitted q \<and>
    tunnel_v4_reasm_desc q' = da \<and> tunnel_v4_reasm_len q' = len \<and> tunnel_v4_reasm_hdroff q' = of_nat H \<and>
    (\<forall>k. H + 32 \<le> k \<longrightarrow> k < length w1 \<longrightarrow> tn_mem q' (da + of_nat k) = (if k \<in> {H + 38, H + 39} then 0 else w1 ! k)) \<and>
    (\<forall>k<length w2. tn_mem q' (db + of_nat k) = tn_mem q (db + of_nat k))"
proof -
  define m where "m = wr32 da (push_bit 4 (port AND 31) OR TUNNEL_V4_FRAG_INFO v) (tn_mem q)"
  have l: "length w1 = F + H + 52" "length w1 < 2 ^ 32" using f by (auto simp: fragments_of_def)
  have here: "m (da + of_nat k) = w1 ! k" if "H + 32 \<le> k" "k < length w1" for k
    using past_descriptor [of k da _ "tn_mem q"] that assms(3) l(2) by (simp add: m_def arrived_def)
  have there: "m (db + of_nat k) = tn_mem q (db + of_nat k)" if "k < length w2" for k
    unfolding m_def using wr32_other [OF ap _ that] l(1) by simp
  have "unat (bswap16 (rd16 m (da + of_nat (H + 38)))) = word_at w1 (H + 38)"
  proof (rule rd16_word)
    fix k assume "k \<in> {H + 38, H + 38 + 1}"
    then show "m (da + of_nat k) = w1 ! k" using here [of k] l(1) by (auto simp del: of_nat_add)
  qed
  also have "\<dots> = unat (bswap16 (bswap16 0x2000))" using f by (simp add: fragments_of_def bswap_back)
  finally have x: "rd16 m (da + of_nat (H + 38)) = bswap16 0x2000" by (rule unat_inj16)
  have "rd16 m (da + of_nat (H + 38)) AND bswap16 0x2000 \<noteq> 0" unfolding x by (simp add: bswap16_def)
  from reasm_first [OF assms(2) m_def this, of dev len]
  obtain q' where q': "reasm_v4 v dev port len da (of_nat H) q = (0, q')" "emitted q' = emitted q"
      "tunnel_v4_reasm_desc q' = da" "tunnel_v4_reasm_len q' = len" "tunnel_v4_reasm_hdroff q' = of_nat H"
      "tn_mem q' = wr16 (da + of_nat (H + 38)) (rd16 m (da + of_nat (H + 38)) AND bswap16 0xDFFF) m" by blast
  have "bswap16 0x2000 AND bswap16 0xDFFF = 0" by (simp add: bswap16_def)
  then have m': "tn_mem q' = wr16 (da + of_nat (H + 38)) 0 m" using q'(6) x by simp
  have "tn_mem q' (da + of_nat k) = (if k \<in> {H + 38, H + 39} then 0 else w1 ! k)" if "H + 32 \<le> k" "k < length w1" for k
    unfolding m' using wr16_buf [of "H + 38" "length w1" k da 0 m] here [OF that] that l by auto
  moreover have "tn_mem q' (db + of_nat k) = tn_mem q (db + of_nat k)" if "k < length w2" for k
    unfolding m' using wr16_other [OF ap _ that, of "H + 38"] there [OF that] l by (simp del: of_nat_add)
  ultimately show ?thesis using q'(1-5) by (intro exI [of _ q'] conjI) blast+
qed

text \<open>The second fragment joins it.\<close>

lemma fragments_joined:
  assumes f: "fragments_of P H F w1 w2" and ready: "bridge_ready dev port" and buf: "in_alias da" "in_alias db" "da \<noteq> 0"
    and q: "tunnel_v4_reasm_desc q = da" "tunnel_v4_reasm_len q = of_nat (length w1)" "tunnel_v4_reasm_hdroff q = of_nat H"
    and at_a: "\<And>k. H + 32 \<le> k \<Longrightarrow> k < length w1 \<Longrightarrow> tn_mem q (da + of_nat k) = (if k \<in> {H + 38, H + 39} then 0 else w1 ! k)"
    and at_b: "arrived (tn_mem q) H db w2" and room: "pppoe_room (tn_mem q) db H" and ap: "apart da (length w1) db (length w2)"
  shows "\<exists>q' s1 s2. reasm_v4 v dev port (of_nat (length w2)) db (of_nat H) q = (0, q') \<and> tunnel_v4_reasm_desc q' = 0 \<and>
    emitted q' = emitted q @ concat (map (seg_writes (BRIDGE_EGRESS port)) [s1, s2]) \<and>
    drop (H + 32) (wire (tn_mem q') [s1, s2]) = drop (H + 32) P"
proof -
  let ?L = "length P"
  define m where "m = wr32 db (push_bit 4 (port AND 31) OR TUNNEL_V4_FRAG_INFO v) (tn_mem q)"
  have sizes: "H < 128" "?L < 2 ^ 16" "F + H + 52 < ?L" "8 dvd F" "length w1 = F + H + 52" "length w2 = ?L - F"
    and pay: "drop (H + 52) w1 = take F (drop (H + 52) P)" "drop (H + 52) w2 = drop (H + 52 + F) P"
    and words: "word_at w1 (H + 34) = F + 20" "word_at w2 (H + 38) = F div 8"
      "word_at P (H + 34) = ?L - 32 - H" "word_at P (H + 38) = 0" "unat (P ! (H + 32)) mod 16 = 5"
    and same: "\<And>k. H + 32 \<le> k \<Longrightarrow> k < H + 52 \<Longrightarrow> k \<notin> {H + 34, H + 35, H + 38, H + 39} \<Longrightarrow> w1 ! k = P ! k \<and> w2 ! k = P ! k"
    using f by (simp_all only: fragments_of_def) blast+
  have ma: "m (da + of_nat k) = (if k \<in> {H + 38, H + 39} then 0 else w1 ! k)" if "H + 32 \<le> k" "k < F + H + 52" for k
    unfolding m_def using wr32_other [OF apart_sym [OF ap], of k] at_a that sizes by simp
  have mb: "m (db + of_nat k) = tn_mem q (db + of_nat k)" if "4 \<le> k" "k < ?L - F" for k
    unfolding m_def by (rule past_descriptor) (use that sizes in simp_all)
  have mb': "m (db + of_nat k) = w2 ! k" if "H + 32 \<le> k" "k < ?L - F" for k
    using mb [of k] at_b that sizes(6) by (simp add: arrived_def)
  define x where "x = rd16 m (db + of_nat (H + 38))"
  define y where "y = rd16 m (da + of_nat (H + 34))"
  have x: "unat (bswap16 x) = F div 8" unfolding x_def words(2) [symmetric]
  proof (rule rd16_word)
    fix k assume "k \<in> {H + 38, H + 38 + 1}"
    then show "m (db + of_nat k) = w2 ! k" using mb' [of k] sizes by (auto simp del: of_nat_add)
  qed
  have y: "unat (bswap16 y) = F + 20" unfolding y_def words(1) [symmetric]
  proof (rule rd16_word)
    fix k assume "k \<in> {H + 34, H + 34 + 1}"
    then show "m (da + of_nat k) = w1 ! k" using ma [of k] sizes by (auto simp del: of_nat_add)
  qed
  have flag: "x AND bswap16 0x2000 = 0"
    by (rule no_flag) (use x sizes in simp)
  have id_bytes: "m (da + of_nat (H + 36)) = m (db + of_nat (H + 36))" "m (da + of_nat (H + 37)) = m (db + of_nat (H + 37))"
    using ma [of "H + 36"] ma [of "H + 37"] mb' [of "H + 36"] mb' [of "H + 37"] same [of "H + 36"] same [of "H + 37"] sizes
    by (simp_all del: of_nat_add)
  have "H + 36 + 1 = H + 37" by simp
  then have ids: "rd16 m (da + of_nat (H + 36)) = rd16 m (db + of_nat (H + 36))"
    by (simp only: rd16_buf id_bytes)
  have "unat (m (da + of_nat (H + 32))) mod 16 = 5"
    using ma [of "H + 32"] same [of "H + 32"] words(5) sizes by (simp del: of_nat_add)
  then have off: "c32 (c16 (push_bit 3 (c32 (bswap16 x)))) = c32 (bswap16 y) - (push_bit 2 (c32 (m (da + of_nat (H + 32)))) AND 0x3C)"
    by (intro offset_matches [OF x y]) (use sizes in simp_all)
  from reasm_second [OF ready q(1) buf(3) q(2,3) m_def flag [unfolded x_def] ids off [unfolded x_def y_def], of "of_nat (length w2)", folded y_def]
  obtain q' p where q': "reasm_v4 v dev port (of_nat (length w2)) db (of_nat H) q = (0, q')" "tunnel_v4_reasm_desc q' = 0"
      "tn_mem q' = wr16 (da + of_nat (H + 34)) (bswap16 (c16 (c32 (bswap16 y) + of_nat (?L - F) - 52 - of_nat H))) m"
      "emitted q' = emitted q @ concat (map (seg_writes (BRIDGE_EGRESS port))
        [seg_of port da (of_nat (length w1)) 0 SEG_FIRST (pppoe_len_patch (tn_mem q') db p) 0 0 0,
         seg_of port db (of_nat (length w2) - 52 - of_nat H) (of_nat H + 52) SEG_LAST 0 0 0 0])"
    unfolding sizes(6) by blast
  define tot where "tot = c16 (c32 (bswap16 y) + of_nat (?L - F) - 52 - of_nat H)"
  have tot: "unat tot = ?L - 32 - H" unfolding tot_def by (rule total_restored [OF y sizes(3,2)])
  have mem: "tn_mem q' = wr16 (da + of_nat (H + 34)) (bswap16 tot) m" unfolding q'(3) tot_def ..
  have a: "tn_mem q' (da + of_nat k) = P ! k" if k: "H + 32 \<le> k" "k < F + H + 52" for k
  proof -
    have w: "tn_mem q' (da + of_nat k) = (if k = H + 35 then c8 (drop_bit 8 (bswap16 tot)) else if k = H + 34 then c8 (bswap16 tot) else m (da + of_nat k))"
      unfolding mem using wr16_buf [of "H + 34" "F + H + 52" k da] k sizes by (simp del: of_nat_add)
    show ?thesis
    proof (cases "k < H + 52")
      case False
      have "drop (H + 52) w1 ! (k - (H + 52)) = take F (drop (H + 52) P) ! (k - (H + 52))" using pay(1) by simp
      then have "w1 ! k = P ! k" using False k sizes by simp
      then show ?thesis using w ma [OF k] False by simp
    next
      case True
      have P: "unat (P ! (H + 34)) = (?L - 32 - H) div 256" "unat (P ! (H + 35)) = (?L - 32 - H) mod 256"
          "unat (P ! (H + 38)) = 0" "unat (P ! (H + 39)) = 0"
        using byte_of_word [OF words(3)] byte_of_word [OF words(4)] by (simp_all add: add.commute)
      show ?thesis
        using w ma [OF k] same [OF k(1) True] P c16_bytes [of tot] tot
        by (auto simp: word_unat_eq_iff split: if_splits)
    qed
  qed
  have b: "tn_mem q' (db + of_nat k) = m (db + of_nat k)" if "k < ?L - F" for k
    unfolding mem using wr16_other [OF ap, of "H + 34" k] that sizes by (simp del: of_nat_add)
  have room': "pppoe_room (tn_mem q') db H"
    using room b [of 44] b [of 45] b [of 48] b [of 49] mb [of 44] mb [of 45] mb [of 48] mb [of 49] sizes
    by (simp add: pppoe_room_def rd16_def add.assoc)
  have len1: "unat (of_nat (length w1) :: u32) = F + H + 52" using sizes by (simp only: unat_of_nat) simp
  have o2: "unat (of_nat H + 52 :: u32) = H + 52"
    using sizes(1) by (simp add: unat_word_ariths unat_of_nat)
  have len2: "unat (of_nat (length w2) - 52 - of_nat H :: u32) = ?L - F - 52 - H"
  proof -
    have "(of_nat (length w2) - 52 - of_nat H :: u32) = of_nat (?L - F - 52 - H)" using sizes by (simp add: of_nat_diff)
    then show ?thesis using sizes(2) by (simp only: unat_of_nat) simp
  qed
  define s1 where "s1 = seg_of port da (of_nat (length w1)) 0 SEG_FIRST (pppoe_len_patch (tn_mem q') db p) 0 0 0"
  define s2 where "s2 = seg_of port db (of_nat (length w2) - 52 - of_nat H) (of_nat H + 52) SEG_LAST 0 0 0 0"
  have bytes1: "seg_bytes (tn_mem q') s1 = map (\<lambda>k. patch_byte (pppoe_len_patch (tn_mem q') db p) k (tn_mem q' (da + of_nat k))) [0..<F + H + 52]"
    using seg_bytes_of [OF _ _ buf(1), of "of_nat (length w1)" 0] len1 sizes by (simp add: s1_def)
  have bytes2: "seg_bytes (tn_mem q') s2 = bytes (tn_mem q') (db + of_nat (H + 52)) (?L - F - 52 - H)"
    using plain_seg [OF _ _ buf(2), of "of_nat (length w2) - 52 - of_nat H" "of_nat H + 52"] len2 o2 sizes by (simp add: s2_def)
  have "drop (H + 32) (wire (tn_mem q') [s1, s2]) = drop (H + 32) P"
  proof (rule nth_equalityI)
    show "length (drop (H + 32) (wire (tn_mem q') [s1, s2])) = length (drop (H + 32) P)"
      using sizes by (simp add: wire_def bytes1 bytes2)
    fix i assume "i < length (drop (H + 32) (wire (tn_mem q') [s1, s2]))"
    then have i: "H + 32 + i < ?L" using sizes by (simp add: wire_def bytes1 bytes2)
    have "wire (tn_mem q') [s1, s2] ! (H + 32 + i) = P ! (H + 32 + i)"
    proof (cases "H + 32 + i < F + H + 52")
      case True
      then show ?thesis
        using a [of "H + 32 + i"] pppoe_apart [OF room', of "H + 32 + i" p]
        by (simp add: wire_def bytes1 nth_append del: of_nat_add)
    next
      case False
      define n where "n = H + 32 + i - F"
      have k: "H + 52 \<le> n" "n < ?L - F" "n - (H + 52) + (H + 52 + F) = H + 32 + i" using False i sizes by (simp_all add: n_def)
      have "w2 ! n = P ! (H + 32 + i)"
        using nth_drop_eq [OF pay(2), of n] k sizes by (simp add: add_ac)
      then have "tn_mem q' (db + of_nat n) = P ! (H + 32 + i)" using b [of n] mb' [of n] k by (simp del: of_nat_add)
      moreover have "wire (tn_mem q') [s1, s2] ! (H + 32 + i) = bytes (tn_mem q') (db + of_nat (H + 52)) (?L - F - 52 - H) ! (n - (H + 52))"
        using False by (simp add: wire_def bytes1 bytes2 nth_append n_def add_ac)
      moreover have "(db + of_nat (H + 52)) + of_nat (n - (H + 52)) = db + of_nat n"
      proof -
        have "H + 52 + (n - (H + 52)) = n" using k(1) by (rule le_add_diff_inverse)
        moreover have "(db + of_nat (H + 52)) + of_nat (n - (H + 52)) = db + of_nat (H + 52 + (n - (H + 52)))"
          by (simp only: of_nat_add add.assoc)
        ultimately show ?thesis by (simp only:)
      qed
      ultimately show ?thesis using k i by simp
    qed
    moreover have "length (wire (tn_mem q') [s1, s2]) = ?L" using sizes by (simp add: wire_def bytes1 bytes2)
    ultimately show "drop (H + 32) (wire (tn_mem q') [s1, s2]) ! i = drop (H + 32) P ! i" using i by (simp only: nth_drop)
  qed
  then show ?thesis using q'(1,2,4) unfolding s1_def [symmetric] s2_def [symmetric] by blast
qed

section \<open>Properties\<close>

text \<open>Buffers two fragments may arrive in.\<close>

definition buffers_ok :: "u32 \<Rightarrow> nat \<Rightarrow> u32 \<Rightarrow> nat \<Rightarrow> bool" where
  "buffers_ok a n b n' \<longleftrightarrow> in_alias a \<and> in_alias b \<and> apart a n b n'"

lemma alias_not_null: "in_alias a \<Longrightarrow> a \<noteq> 0"
  by (auto simp: in_alias_def)

lemma fragments_reassembled:
  assumes f: "fragments_of P H F w1 w2" and "bridge_ready dev port" "buffers_ok da (length w1) db (length w2)"
    and "tunnel_v4_reasm_desc q = 0" "arrived (tn_mem q) H da w1" "arrived (tn_mem q) H db w2" "pppoe_room (tn_mem q) db H"
  shows "\<exists>q' q'' s1 s2. reasm_v4 v dev port (of_nat (length w1)) da (of_nat H) q = (0, q') \<and> emitted q' = emitted q \<and>
    reasm_v4 v dev port (of_nat (length w2)) db (of_nat H) q' = (0, q'') \<and> tunnel_v4_reasm_desc q'' = 0 \<and>
    emitted q'' = emitted q @ concat (map (seg_writes (BRIDGE_EGRESS port)) [s1, s2]) \<and>
    drop (H + 32) (wire (tn_mem q'') [s1, s2]) = drop (H + 32) P"
proof -
  have buf: "in_alias da" "in_alias db" "da \<noteq> 0" "apart da (length w1) db (length w2)"
    using assms(3) alias_not_null by (auto simp: buffers_ok_def)
  from fragment_held [OF f assms(4,5) buf(4), of v dev port "of_nat (length w1)"] obtain q' where
    q': "reasm_v4 v dev port (of_nat (length w1)) da (of_nat H) q = (0, q')" "emitted q' = emitted q"
      "tunnel_v4_reasm_desc q' = da" "tunnel_v4_reasm_len q' = of_nat (length w1)" "tunnel_v4_reasm_hdroff q' = of_nat H"
      "\<And>k. H + 32 \<le> k \<Longrightarrow> k < length w1 \<Longrightarrow> tn_mem q' (da + of_nat k) = (if k \<in> {H + 38, H + 39} then 0 else w1 ! k)"
      "\<And>k. k < length w2 \<Longrightarrow> tn_mem q' (db + of_nat k) = tn_mem q (db + of_nat k)" by blast
  have b: "arrived (tn_mem q') H db w2" using assms(6) q'(7) by (simp add: arrived_def)
  have "52 < length w2" using f by (auto simp: fragments_of_def)
  then have room: "pppoe_room (tn_mem q') db H"
    using assms(7) q'(7) [of 44] q'(7) [of 45] q'(7) [of 48] q'(7) [of 49]
    by (simp add: pppoe_room_def rd16_def add.assoc)
  from fragments_joined [OF f assms(2) buf(1-3) q'(3-6) b room buf(4), of v] q'(1,2) show ?thesis by auto
qed

lemma frag_wire_fragments:
  fixes port :: u32
  assumes "in_alias desc" "pppoe_room m desc H" "unat hdr_off = H" "H < 128" "unat len = L" "L < 2 ^ 16"
    and "unat fp = F" "unat units = F div 8" "8 dvd F" "F + H + 52 < L"
    and "P = bytes m desc L" "word_at P (H + 34) = L - 32 - H" "word_at P (H + 38) = 0" "unat (P ! (H + 32)) mod 16 = 5"
  defines "segs \<equiv> frag_segs port desc len (c32 (c16 hdr_off)) units fp hdr_off m"
  shows "fragments_of P H F (wire m (take 1 segs)) (wire m (drop 1 segs))"
proof -
  have u: "unat units < 2 ^ 16" using assms(8,10,6) by simp
  note w = frag_segs_wire [OF assms(1-7) u assms(10), where port = port, folded segs_def]
  have l: "length P = L" using assms(11) by simp
  have d1: "drop (H + 52) (wire m (take 1 segs)) = take F (drop (H + 52) P)"
    unfolding w assms(11) using assms(10) by (intro nth_equalityI) (simp_all add: add_ac)
  have d2: "drop (H + 52) (wire m (drop 1 segs)) = drop (H + 52 + F) P"
    unfolding w assms(11) using assms(10) by (intro nth_equalityI) (simp_all add: add_ac)
  have same: "\<forall>k. H + 32 \<le> k \<longrightarrow> k < H + 52 \<longrightarrow> k \<notin> {H + 34, H + 35, H + 38, H + 39} \<longrightarrow>
      wire m (take 1 segs) ! k = P ! k \<and> wire m (drop 1 segs) ! k = P ! k"
    using w(9) assms(10,11) by simp
  have flag: "word_at (wire m (drop 1 segs)) (H + 38) = F div 8" unfolding w(8) by (rule assms(8))
  show ?thesis
    unfolding fragments_of_def l
    by (intro conjI) (fact assms(4) assms(6) assms(9) assms(10) assms(12) assms(13) assms(14) w(3) w(4) w(5) w(7) d1 d2 same flag)+
qed


text \<open>A packet of 1500 bytes behind an Ethernet header, and two buffers with given bytes.\<close>

definition packet_demo :: tunnel where
  "packet_demo = tunnel_demo\<lparr>tn_mem := (\<lambda>_. 0)(0x3E81002E := 0x45, 0x3E810030 := 5, 0x3E810031 := 0xDC)\<rparr>"

definition two_buffers :: "u8 list \<Rightarrow> u8 list \<Rightarrow> tunnel" where
  "two_buffers w1 w2 = tunnel_demo\<lparr>tn_mem := (\<lambda>a.
     let i = unat (a - 0x3E820000); j = unat (a - 0x3E830000)
     in if 46 \<le> i \<and> i < length w1 then w1 ! i else if 46 \<le> j \<and> j < length w2 then w2 ! j else 0)\<rparr>"

lemma two_buffers_arrived:
  assumes "length w1 < 1546" "length w2 < 1546"
  shows "arrived (tn_mem (two_buffers w1 w2)) 14 0x3E820000 w1" "arrived (tn_mem (two_buffers w1 w2)) 14 0x3E830000 w2"
    "pppoe_room (tn_mem (two_buffers w1 w2)) 0x3E830000 14" "buffers_ok 0x3E820000 (length w1) 0x3E830000 (length w2)"
proof -
  have i: "unat (of_nat k :: u32) = k" if "k < 1546" for k using that by (simp only: unat_of_nat) simp
  have j: "unat (0x10000 + of_nat k :: u32) = 0x10000 + k" if "k < 1546" for k
    using i [OF that] that by (simp add: unat_word_ariths)
  show "arrived (tn_mem (two_buffers w1 w2)) 14 0x3E820000 w1"
    using i assms by (simp add: arrived_def two_buffers_def Let_def)
  show "arrived (tn_mem (two_buffers w1 w2)) 14 0x3E830000 w2"
    using i j assms by (simp add: arrived_def two_buffers_def Let_def)
  show "pppoe_room (tn_mem (two_buffers w1 w2)) 0x3E830000 14"
    using assms by (simp add: pppoe_room_def rd16_def two_buffers_def Let_def bswap16_def)
  have "0x3E820000 + of_nat a \<noteq> (0x3E830000 + of_nat b :: u32)" if "a < 1546" "b < 1546" for a b
  proof
    assume e: "0x3E820000 + of_nat a = (0x3E830000 + of_nat b :: u32)"
    then have "(of_nat a :: u32) = 0x10000 + of_nat b" by (simp add: algebra_simps)
    then show False using i [OF that(1)] j [OF that(2)] that by simp
  qed
  then have "apart 0x3E820000 (length w1) 0x3E830000 (length w2)" using assms by (simp add: apart_def)
  then show "buffers_ok 0x3E820000 (length w1) 0x3E830000 (length w2)" by (simp add: buffers_ok_def in_alias_def)
qed


end
