(* ===== verification/Tunnel_Csum.thy ===== *)
theory Tunnel_Csum
  imports Tunnel
begin

text \<open>
  The header checksum of the fragments behind a VXLAN header: when the incremental update of
  \<open>ipv4_csum_update\<close> gives a header whose checksum is right.
\<close>

section \<open>Checksums\<close>

text \<open>The ten be16 of an IPv4 header, and a checksum that is right: their ones' complement sum is zero.\<close>

definition hdr_words :: "mem \<Rightarrow> u32 \<Rightarrow> nat list" where
  "hdr_words m iph = map (\<lambda>off. unat (bswap16 (rd16 m (iph + off)))) [0, 2, 4, 6, 8, 10, 12, 14, 16, 18]"

definition csum_ok :: "mem \<Rightarrow> u32 \<Rightarrow> bool" where
  "csum_ok m iph \<longleftrightarrow> sum_list (hdr_words m iph) mod 65535 = 0"

text \<open>The header the patches of a fragment make.\<close>

definition patched_hdr :: "mem \<Rightarrow> u32 \<Rightarrow> u16 \<Rightarrow> u16 \<Rightarrow> mem" where
  "patched_hdr m iph totlen frag =
     wr16 (iph + 10) (bswap16 (ipv4_csum_update m iph totlen frag)) (wr16 (iph + 6) (bswap16 frag) (wr16 (iph + 2) (bswap16 totlen) m))"

text \<open>The two sums of the update over the numbers; the second one is folded once more.\<close>

definition fold16 :: "nat \<Rightarrow> nat" where "fold16 s = s mod 65536 + s div 65536"

definition csum_sum :: "mem \<Rightarrow> u32 \<Rightarrow> u16 \<Rightarrow> u16 \<Rightarrow> nat" where
  "csum_sum m iph totlen frag =
     fold16 (65535 - unat (bswap16 (rd16 m (iph + 10))) + (65535 - unat (bswap16 (rd16 m (iph + 2)))) + unat totlen) +
     (65535 - unat (bswap16 (rd16 m (iph + 6)))) + unat frag"

section \<open>Lemmas\<close>

lemma fold16_mod: "fold16 s + 65535 * (s div 65536) = s"
  unfolding fold16_def using mod_mult_div_eq [of s 65536] by simp

lemma unat_not16: "unat (NOT x :: u16) = 65535 - unat x"
proof -
  have "NOT x = - 1 - x" by (simp add: not_eq_complement)
  moreover have "unat (- 1 - x) = unat (- 1 :: u16) - unat x" by (rule unat_sub) simp
  moreover have "unat (- 1 :: u16) = 65535" by (simp add: unsigned_minus_1_eq_mask mask_eq_exp_minus_1)
  ultimately show ?thesis by simp
qed

lemma fold_word:
  fixes s :: u32
  shows "unat ((s AND 0xFFFF) + drop_bit 16 s) = fold16 (unat s)"
proof -
  have m: "unat (s AND 0xFFFF) = unat s mod 65536"
    using unat_and_mask [of s 16] by (simp add: mask_eq_exp_minus_1)
  have "unat s mod 65536 + unat s div 65536 < 2 ^ 32"
    using unat_lt32 [of s] by simp
  then show ?thesis by (simp add: unat_word_ariths m unat_drop_bit fold16_def)
qed

lemma unat_add32:
  fixes a b :: u32
  assumes "unat a + unat b < 4294967296"
  shows "unat (a + b) = unat a + unat b"
  using assms by (simp add: unat_word_ariths)

lemma le16: "unat x \<le> 65535" for x :: u16
  using unat_lt16 [of x] by linarith

lemma unat_sum3: "unat (c32 (a :: u16) + c32 (b :: u16) + c32 (c :: u16)) = unat a + unat b + unat c"
proof -
  have "unat (c32 a + c32 b) = unat a + unat b"
    using le16 [of a] le16 [of b] by (subst unat_add32) simp_all
  then show ?thesis
    using le16 [of a] le16 [of b] le16 [of c] by (subst unat_add32) simp_all
qed

lemma fold16_le: "s < 65536 * (n + 1) \<Longrightarrow> fold16 s \<le> 65535 + n"
  unfolding fold16_def by (rule add_mono) (simp_all add: less_mult_imp_div_less less_Suc_eq_le [symmetric] mult.commute)

lemma csum_value:
  "unat (ipv4_csum_update m iph totlen frag) = 65535 - fold16 (csum_sum m iph totlen frag) mod 65536"
proof -
  define c l f where "c = NOT (bswap16 (rd16 m (iph + 10)))" and "l = NOT (bswap16 (rd16 m (iph + 2)))"
    and "f = NOT (bswap16 (rd16 m (iph + 6)))"
  define s t where "s = c32 c + c32 l + c32 totlen" and "t = (s AND 0xFFFF) + drop_bit 16 s + c32 f + c32 frag"
  have s: "unat s = unat c + unat l + unat totlen" unfolding s_def by (rule unat_sum3)
  have "unat s < 65536 * (2 + 1)" using s le16 [of c] le16 [of l] le16 [of totlen] by simp
  then have b: "fold16 (unat s) \<le> 65537" using fold16_le [of "unat s" 2] by simp
  have "unat ((s AND 0xFFFF) + drop_bit 16 s + c32 f) = fold16 (unat s) + unat f"
    using b le16 [of f] by (subst unat_add32) (simp_all add: fold_word)
  then have "unat t = fold16 (unat s) + unat f + unat frag"
    using b le16 [of f] le16 [of frag] unfolding t_def by (subst unat_add32) simp_all
  then have t: "unat t = csum_sum m iph totlen frag"
    by (simp only: csum_sum_def s c_def l_def f_def unat_not16)
  have "unat (c16 (NOT ((t AND 0xFFFF) + drop_bit 16 t))) = unat (NOT (c16 ((t AND 0xFFFF) + drop_bit 16 t)))"
    by (rule arg_cong [where f = unat], rule bit_word_eqI) (auto simp: bit_simps)
  also have "\<dots> = 65535 - fold16 (unat t) mod 65536"
    by (simp only: unat_not16 fold_word [symmetric]) (simp add: unsigned_ucast_eq take_bit_eq_mod)
  finally have "unat (c16 (NOT ((t AND 0xFFFF) + drop_bit 16 t))) = 65535 - fold16 (csum_sum m iph totlen frag) mod 65536"
    by (simp only: t)
  moreover have "ipv4_csum_update m iph totlen frag = c16 (NOT ((t AND 0xFFFF) + drop_bit 16 t))"
    by (simp only: ipv4_csum_update_def Let_def c_def l_def f_def s_def t_def)
  ultimately show ?thesis by simp
qed

lemma bswap16_twice: "bswap16 (bswap16 v) = v"
proof (rule bit_word_eqI)
  fix n
  assume "n < LENGTH(16)"
  then show "bit (bswap16 (bswap16 v)) n = bit v n"
    by (cases "n < 8") (auto simp: bswap16_def bit_simps dest: bit_imp_le_length)
qed

lemma rd16_wr16_apart:
  assumes "a \<noteq> b" "a + 1 \<noteq> b" "a \<noteq> b + 1"
  shows "rd16 (wr16 (iph + a) v m) (iph + b) = rd16 m (iph + b)"
  using assms by (auto simp: rd16_def wr16_at add.assoc)

lemma rd16_wr16_first:
  "rd16 (wr16 (iph + a) v m) iph = rd16 m iph" if "a \<noteq> 0" "a + 1 \<noteq> 0" "a \<noteq> 1"
  using rd16_wr16_apart [of a 0 iph v m] that by simp

lemma patched_words:
  "hdr_words (patched_hdr m iph totlen frag) iph = (hdr_words m iph)
     [1 := unat totlen, 3 := unat frag, 5 := unat (ipv4_csum_update m iph totlen frag)]"
  unfolding hdr_words_def patched_hdr_def by (simp add: rd16_wr16 rd16_wr16_apart rd16_wr16_first bswap16_twice)

lemma sum_words:
  "sum_list (hdr_words (patched_hdr m iph totlen frag) iph) + unat (bswap16 (rd16 m (iph + 2))) + unat (bswap16 (rd16 m (iph + 6))) +
     unat (bswap16 (rd16 m (iph + 10))) =
   sum_list (hdr_words m iph) + unat totlen + unat frag + unat (ipv4_csum_update m iph totlen frag)"
  unfolding patched_words by (simp add: hdr_words_def)

text \<open>
  C35. The checksum of a fragment. From a header whose checksum is right the update makes one whose checksum
  is right for the new length and fragment word exactly when the second sum, folded once, fits 16 bits: the
  code drops a carry of that fold, and then the checksum is one too large.
\<close>

theorem csum_update_right:
  assumes "csum_ok m iph"
  shows "csum_ok (patched_hdr m iph totlen frag) iph \<longleftrightarrow> fold16 (csum_sum m iph totlen frag) < 65536"
proof -
  let ?S = "sum_list (hdr_words m iph)" and ?S' = "sum_list (hdr_words (patched_hdr m iph totlen frag) iph)"
  let ?c = "unat (bswap16 (rd16 m (iph + 10)))" and ?l = "unat (bswap16 (rd16 m (iph + 2)))" and ?f = "unat (bswap16 (rd16 m (iph + 6)))"
  let ?s = "65535 - ?c + (65535 - ?l) + unat totlen" and ?t = "csum_sum m iph totlen frag"
  define k where "k = ?s div 65536 + ?t div 65536"
  have lt: "?c \<le> 65535" "?l \<le> 65535" "?f \<le> 65535" "unat totlen \<le> 65535" "unat frag \<le> 65535"
    by (rule le16)+
  have folds: "fold16 ?t + 65535 * k = ?s + (65535 - ?f) + unat frag"
    using fold16_mod [of ?s] fold16_mod [of ?t] unfolding k_def csum_sum_def by (simp add: algebra_simps)
  have small: "fold16 ?t \<le> 65535 + 65535"
  proof -
    have "?t < 65536 * 65536"
      using fold16_mod [of ?s] lt unfolding csum_sum_def by simp
    then have "?t div 65536 \<le> 65535" by simp
    then show ?thesis unfolding fold16_def by simp
  qed
  have sums: "?S' + 131070 + (fold16 ?t mod 65536) = ?S + fold16 ?t + 65535 * k"
    using sum_words [of m iph totlen frag] csum_value [of m iph totlen frag] folds lt by simp
  show ?thesis
  proof (cases "fold16 ?t < 65536")
    case True
    then have "?S' + 131070 = ?S + 65535 * k" using sums by simp
    then have "(?S' + 65535 * 2) mod 65535 = (?S + 65535 * k) mod 65535" by simp
    then have "?S' mod 65535 = ?S mod 65535" by (simp only: mod_mult_self2)
    then show ?thesis using assms True by (simp add: csum_ok_def)
  next
    case False
    then have "fold16 ?t mod 65536 = fold16 ?t - 65536" using small by (simp add: le_mod_geq)
    then have "?S' + 65535 * 2 = ?S + 1 + 65535 * (k + 1)" using sums False by simp
    then have "(?S' + 65535 * 2) mod 65535 = (?S + 1 + 65535 * (k + 1)) mod 65535" by (rule arg_cong)
    then have "?S' mod 65535 = (?S + 1) mod 65535" by (simp only: mod_mult_self2)
    also have "\<dots> = (?S mod 65535 + 1) mod 65535" by (rule mod_add_left_eq [symmetric])
    also have "\<dots> = 1" using assms unfolding csum_ok_def by (simp only:) simp
    finally show ?thesis using False unfolding csum_ok_def by simp
  qed
qed

text \<open>A header of 1500 bytes whose checksum is right, and a first fragment of 1444 bytes whose checksum is not.\<close>

definition carry_hdr :: mem where
  "carry_hdr a = (if a < 20 then ([0x45, 0, 0x05, 0xDC, 0x41, 0x48, 0, 0, 0x40, 0x11, 0x1F, 0xC7, 10, 0, 0, 1, 10, 0, 0, 2] :: u8 list) ! unat a
     else 0)"

lemma carry_hdr_words:
  "hdr_words carry_hdr 0 = [0x4500, 0x05DC, 0x4148, 0, 0x4011, 0x1FC7, 0x0A00, 1, 0x0A00, 2]"
  by (simp add: hdr_words_def rd16_def carry_hdr_def bswap16_def)

theorem csum_update_right_witness:
  "csum_ok carry_hdr 0 \<and> \<not> csum_ok (patched_hdr carry_hdr 0 1444 0x2000) 0 \<and> csum_ok (patched_hdr carry_hdr 0 1440 0x2000) 0"
proof -
  have ok: "csum_ok carry_hdr 0" by (simp add: csum_ok_def carry_hdr_words)
  have w: "unat (bswap16 (rd16 carry_hdr 10)) = 0x1FC7" "unat (bswap16 (rd16 carry_hdr 2)) = 0x05DC" "unat (bswap16 (rd16 carry_hdr 6)) = 0"
    using carry_hdr_words by (simp_all add: hdr_words_def)
  have "\<not> fold16 (csum_sum carry_hdr 0 1444 0x2000) < 65536" "fold16 (csum_sum carry_hdr 0 1440 0x2000) < 65536"
    by (simp_all add: csum_sum_def fold16_def w)
  then show ?thesis
    using ok csum_update_right [OF ok, of 1444 "0x2000"] csum_update_right [OF ok, of 1440 "0x2000"] by blast
qed

end
