(* ===== verification/L4s.thy ===== *)
theory L4s
  imports Tunnel
begin

text \<open>
  \<open>npu_l4s.c\<close>: the forwarding of a bridge channel with ECN marking. The tick of the timer, which
  another core advances, is a function of what has happened on the registers. A wait for credit, or a stack
  of VLAN tags, that never ends is \<open>None\<close>. The delays and prints are left out.
\<close>

section \<open>Configuration\<close>

definition l4s_set_config :: "u32 \<Rightarrow> u32 \<Rightarrow> tunnel \<Rightarrow> s32 \<times> tunnel" where
  "l4s_set_config cmd arg t =
     (0, if cmd = 0 then t\<lparr>tunnel_ecn_enabled := 0, l4s_debug_enable := 0\<rparr>
         else if cmd = 1 then t\<lparr>tunnel_ecn_enabled := 1\<rparr>
         else if cmd = 2 then t\<lparr>tunnel_ecn_enabled := 1, l4s_debug_enable := arg\<rparr>
         else if cmd = 3 then t\<lparr>l4s_qid := arg\<rparr>
         else t)"

section \<open>Marking\<close>

definition vlan_tag :: "u16 \<Rightarrow> bool" where
  "vlan_tag x \<longleftrightarrow> x AND NOT 0x10 = bswap16 0x8100 \<or> x = bswap16 0x88A8 \<or> x = bswap16 0x884C"

partial_function (option) skip_tags :: "mem \<Rightarrow> u32 \<Rightarrow> u32 option" where
  "skip_tags m p = (if vlan_tag (rd16 m p) then skip_tags m (p + 4) else Some p)"

definition ecn_set :: "mem \<Rightarrow> u32 \<Rightarrow> mem" where
  "ecn_set m p =
     (let x = rd16 m p
      in if x = bswap16 0x8864 then
           (let x = rd16 m (p + 8)
            in if x = bswap16 0x0021 then m(p + 11 := m (p + 11) OR 3)
               else if x = bswap16 0x0057 then m(p + 11 := m (p + 11) OR 0x30)
               else m)
         else if bswap16 x = 0x0800 then m(p + 3 := m (p + 3) OR 3)
         else if bswap16 x = 0x86DD then m(p + 3 := m (p + 3) OR 0x30)
         else m)"

definition l4s_ecn_mark :: "u32 \<Rightarrow> mem \<Rightarrow> mem option" where
  "l4s_ecn_mark pkt m = (if pkt = 0 then Some m else map_option (ecn_set m) (skip_tags m (pkt + 12)))"

section \<open>One packet\<close>

text \<open>The descriptor of the packet for the PPE, and the length to send.\<close>

definition l4s_desc :: "u32 \<Rightarrow> u32 \<Rightarrow> tunnel \<Rightarrow> (u32 \<times> u32 \<times> u32) \<times> tunnel" where
  "l4s_desc port d t =
     (let len = d32 t (d + 4) AND 0x3FFFF;
          info = c32 (d16 t (d + 18));
          w0 = d32 t d;
          ecn = d8 t (d + 20);
          t = t\<lparr>tn_mem := snd (npu_memset (tn_mem t) (d + 4) 0 28)\<rparr>;
          band = drop_bit 5 info AND 0xFF;
          grp = drop_bit 11 info;
          w4 = 0x3800 OR push_bit 14 (len AND 0xFFFF) OR push_bit 3 grp;
          t = tn_set32 (d + 16) w4 t;
          t = tn_set32 (d + 20) (0x7F0007FF OR push_bit 14 (drop_bit 9 info AND 1) OR push_bit 15 (info AND 31) OR
                push_bit 20 (band AND 15)) t;
          t = tn_set32 d (push_bit 4 port) t;
          t = tn_set32 (d + 16) (w4 OR (l4s_qid t AND 7)) t;
          t = tn_set8 (d + 27) (if ecn = 0 then ecn else ecn OR 0x40) t
      in (((w0 AND 0xFFFF) + 32, band, grp), t))"

definition l4s_window :: "u32 \<Rightarrow> tunnel \<Rightarrow> u32 \<times> tunnel" where
  "l4s_window tick t =
     (let q = l4s_pkt_count t + 1; t = t\<lparr>l4s_pkt_count := q\<rparr>
      in if tick mod 100 \<noteq> 0 then (q, t\<lparr>l4s_log_phase := 0\<rparr>)
         else if l4s_log_phase t = 0 then (0, t\<lparr>l4s_log_phase := 1, l4s_pkt_count := 0, l4s_mark_count := 0\<rparr>)
         else (q, t))"

text \<open>The queue length of the QoS block, read every tenth packet.\<close>

definition l4s_measure :: "device \<Rightarrow> u32 \<Rightarrow> u32 \<Rightarrow> u32 \<Rightarrow> tunnel \<Rightarrow> tunnel" where
  "l4s_measure dev q band grp t =
     (if q mod 10 = 0
      then (let sel = push_bit 3 grp OR l4s_qid t OR 0x1000000
            in if band AND 7 = 1
               then (let (x, t) = tn_rd dev 0x1FB55104 (tn_wr 0x1FB55100 sel t) in t\<lparr>l4s_qlen := x AND 0xFFFF\<rparr>)
               else if band AND 15 = 2
               then (let (x, t) = tn_rd dev 0x1FB57104 (tn_wr 0x1FB57100 sel t) in t\<lparr>l4s_qlen := x AND 0xFFFF\<rparr>)
               else t\<lparr>l4s_qlen := 0\<rparr>)
      else t)"

definition l4s_mark :: "u32 \<Rightarrow> tunnel \<Rightarrow> tunnel option" where
  "l4s_mark d t =
     (if l4s_qlen_thresh t < l4s_qlen t
      then map_option (\<lambda>m. t\<lparr>tn_mem := m, l4s_mark_count := l4s_mark_count t + 1\<rparr>) (l4s_ecn_mark (d + 32) (tn_mem t))
      else Some t)"

definition l4s_send :: "u32 \<Rightarrow> u32 \<Rightarrow> u32 \<Rightarrow> tunnel \<Rightarrow> tunnel" where
  "l4s_send port phys len t =
     tn_wr (0x1EC12100 + 32 * port) (phys AND 0x1FFFFFFF)
       (tn_wr (0x1EC12108 + 32 * port) (port OR 0xC0000000)
         (tn_wr (0x1EC12104 + 32 * port) (push_bit 16 len) t))"

definition l4s_packet :: "device \<Rightarrow> (access list \<Rightarrow> u32) \<Rightarrow> u32 \<Rightarrow> u32 \<times> tunnel \<Rightarrow> (u32 \<times> tunnel) option" where
  "l4s_packet dev raw_tick port ct =
     (let (credits, t) = ct;
          (phys, t) = tn_rd dev (0x1EC12080 + 16 * port) t;
          d = phys OR 0x20000000;
          ((len, band, grp), t) = l4s_desc port d t;
          (q, t) = l4s_window (raw_tick (tn_io t)) t;
          t = l4s_measure dev q band grp t
      in Option.bind (l4s_mark d t) (\<lambda>t.
         Option.bind (credit_spin dev port credits t) (\<lambda>(credits, t).
         Some (credits - 1, l4s_send port phys len t))))"

section \<open>The channel\<close>

fun l4s_drain :: "nat \<Rightarrow> device \<Rightarrow> (access list \<Rightarrow> u32) \<Rightarrow> u32 \<Rightarrow> u32 \<times> tunnel \<Rightarrow> (u32 \<times> tunnel) option" where
  "l4s_drain 0 dev raw_tick port ct = Some ct"
| "l4s_drain (Suc n) dev raw_tick port ct = Option.bind (l4s_packet dev raw_tick port ct) (l4s_drain n dev raw_tick port)"

definition l4s_ecn_process :: "device \<Rightarrow> (access list \<Rightarrow> u32) \<Rightarrow> u32 \<Rightarrow> tunnel \<Rightarrow> tunnel option" where
  "l4s_ecn_process dev raw_tick port t =
     (let (v, t) = tn_rd dev (0x1EC12050 + 4 * port) t; remaining = c32 (c8 v)
      in if remaining = 0 \<or> tunnel_ecn_enabled t = 0 then Some t
         else map_option snd (l4s_drain (unat remaining) dev raw_tick port (0, t)))"

section \<open>The loop of the offload core\<close>

text \<open>
  One turn of \<open>tunnel_offload_loop\<close>: a packet of the ring, or, while the ring is empty and marking is on,
  what waits on channels 1 and 2.
\<close>

definition offload_turn :: "variant \<Rightarrow> device \<Rightarrow> (access list \<Rightarrow> u32) \<Rightarrow> u32 \<Rightarrow> tunnel \<Rightarrow> tunnel option" where
  "offload_turn v dev raw_tick core t =
     (case tunnel_dequeue dev core t of
        (Some pkt, t) \<Rightarrow> tunnel_turn v dev core pkt t
      | (None, t) \<Rightarrow>
          if tunnel_ecn_enabled t = 0 then Some t
          else Option.bind (l4s_ecn_process dev raw_tick 1 t) (\<lambda>t.
               Option.bind (l4s_ecn_process dev raw_tick 2 t) (\<lambda>t.
               case tunnel_dequeue dev core t of
                 (Some pkt, t) \<Rightarrow> tunnel_turn v dev core pkt t
               | (None, t) \<Rightarrow> Some t)))"

end
