(* ===== verification/Tunnel_Mail.thy ===== *)
theory Tunnel_Mail
  imports L4s
begin

text \<open>
  The mails that configure the tunnel offload: \<open>tunnel_mail_dispatch\<close> of \<open>npu_tunnel.c\<close> and its table in
  \<open>npu_globals.c\<close>. A write past the table of fragment MTUs is a fault.
\<close>

section \<open>The handlers\<close>

datatype tunnel_fault = Fragment_mtu_past nat

type_synonym mail_handler = "device \<Rightarrow> u32 \<Rightarrow> tunnel \<Rightarrow> tunnel_fault + (s32 \<times> tunnel)"

definition tunnel_mail_frag_mtu :: mail_handler where
  "tunnel_mail_frag_mtu dev base t =
     (let idx = unat (d8 t (base + 8)); mtu = d32 t (base + 12)
      in if idx < 4 then Inr (1, t\<lparr>fragment_mtu := (fragment_mtu t)[idx := mtu]\<rparr>) else Inl (Fragment_mtu_past idx))"

definition tunnel_mail_store_hdr :: mail_handler where
  "tunnel_mail_store_hdr dev base t =
     (let idx = c32 (d8 t (base + 8)) in Inr (1, tn_copy (npu_bridge_addr t + idx * 128) (base + 9) 50 t))"

definition tunnel_mail_store_srv6 :: mail_handler where
  "tunnel_mail_store_srv6 dev base t =
     (let idx = c32 (d8 t (base + 8)); len = c32 (d8 t (base + 9))
      in if 7 < idx then Inr (1, t)
         else (let t = tn_copy (npu_bridge_addr t + (idx + 20) * 128) (base + 10) len t
               in Inr (1, t\<lparr>tunnel_srv6_hdr_len := (tunnel_srv6_hdr_len t)[unat idx := c8 len]\<rparr>)))"

definition tunnel_mail_set_srv6_addr :: mail_handler where
  "tunnel_mail_set_srv6_addr dev base t = Inr (1, t\<lparr>srv6_my_ipv6 := map (\<lambda>k. d8 t (base + 8 + of_nat k)) [0..<16]\<rparr>)"

definition tunnel_mail_nop :: mail_handler where
  "tunnel_mail_nop dev base t = Inr (1, t)"

definition tunnel_mail_vxlan_mtu :: mail_handler where
  "tunnel_mail_vxlan_mtu dev base t = Inr (1, t\<lparr>tunnel_encap_mtu := d32 t (base + 8)\<rparr>)"

definition tunnel_mail_bridge_dbg :: mail_handler where
  "tunnel_mail_bridge_dbg dev base t = Inr (1, npu_bridge_debug dev (d32 t (base + 8)) t)"

definition tunnel_mail_map_info :: mail_handler where
  "tunnel_mail_map_info dev base t = Inr (1, t\<lparr>tunnel_map_info_base := d32 t (base + 8)\<rparr>)"

definition tunnel_mail_l4s :: mail_handler where
  "tunnel_mail_l4s dev base t = Inr (1, snd (l4s_set_config (d32 t (base + 8)) (d32 t (base + 12)) t))"

section \<open>The dispatch\<close>

definition tunnel_func_table :: "mail_handler option list" where
  "tunnel_func_table =
     [Some tunnel_mail_store_hdr, Some tunnel_mail_nop, Some tunnel_mail_vxlan_mtu, Some tunnel_mail_store_srv6,
      Some tunnel_mail_set_srv6_addr, Some tunnel_mail_frag_mtu, Some tunnel_mail_bridge_dbg, Some tunnel_mail_map_info,
      Some tunnel_mail_l4s, None]"

definition tunnel_mail_dispatch :: mail_handler where
  "tunnel_mail_dispatch dev base t =
     (let func_id = unat (d32 t base)
      in if length tunnel_func_table \<le> func_id then Inr (0, t)
         else (case tunnel_func_table ! func_id of None \<Rightarrow> Inr (0, t) | Some h \<Rightarrow> h dev base t))"

end
