(* ===== verification/Tunnel_Store.thy ===== *)
theory Tunnel_Store
  imports Tunnel_Reasm Tunnel_Mail
begin

text \<open>
  A VXLAN header the host stores by mail is the header the offload puts in front of the packets that ask
  for it: the store of \<open>tunnel_mail_dispatch\<close> and the encapsulation of \<open>tunnel_offload_handler\<close> together.
\<close>

section \<open>The store\<close>

lemma tn_copy_mem:
  assumes "n \<le> dst - src"
  shows "tn_copy dst src n t = t\<lparr>tn_mem := (\<lambda>a. if a - dst < n then tn_mem t (src + (a - dst)) else tn_mem t a)\<rparr>"
  using assms by (simp add: tn_copy_def npu_memcpy_eq)

lemma header_stored:
  assumes "d32 t base = 0" "tn_mem t (base + 8) = of_nat i" "i < 20" "hdr = npu_bridge_addr t + of_nat i * 128"
    and "50 \<le> hdr - (base + 9)"
  shows "tunnel_mail_dispatch dev base t =
    Inr (1, t\<lparr>tn_mem := (\<lambda>a. if a - hdr < 50 then tn_mem t (base + 9 + (a - hdr)) else tn_mem t a)\<rparr>)"
proof -
  have "unat (of_nat i :: u8) = i" using assms(3) by (simp add: unat_of_nat)
  then have "unat (c32 (of_nat i :: u8)) = unat (of_nat i :: u32)"
    using assms(3) unat_lt8 [of "of_nat i"] by (simp add: unsigned_ucast_eq take_bit_nat_eq_self unat_of_nat)
  then have "c32 (of_nat i :: u8) = of_nat i" by (simp add: word_unat_eq_iff)
  then show ?thesis
    using tn_copy_mem [OF assms(5), of t] assms(1,2,4)
    by (simp add: tunnel_mail_dispatch_def tunnel_func_table_def tunnel_mail_store_hdr_def Let_def)
qed

section \<open>The packet\<close>

text \<open>The descriptor words leave the bytes past the descriptor and other buffers alone.\<close>

lemma wr32_past:
  assumes "j + 4 \<le> k" "k < 2 ^ 32"
  shows "wr32 (desc + of_nat j) v m (desc + of_nat k) = m (desc + of_nat k)"
proof -
  have "desc + of_nat k = desc + of_nat j + of_nat (k - j)" using assms(1) by (simp add: of_nat_diff)
  then show ?thesis using past_descriptor [of "k - j" "desc + of_nat j" v m] assms by simp
qed

lemma desc_words_past:
  assumes "32 \<le> k" "k < 2 ^ 32"
  shows "tn_mem (desc_words port desc udf t) (desc + of_nat k) = tn_mem t (desc + of_nat k)"
  using wr32_past [of 0 k desc] wr32_past [of 16 k desc] wr32_past [of 20 k desc] wr32_past [of 24 k desc] assms
  by (simp add: desc_words_def)

lemma apart_shift: "apart a n b n' \<Longrightarrow> j + k \<le> n \<Longrightarrow> apart (a + of_nat j) k b n'"
  by (simp add: apart_def add.assoc flip: of_nat_add)

lemma desc_words_other:
  assumes "apart desc L hdr n" "32 \<le> L" "k < n"
  shows "tn_mem (desc_words port desc udf t) (hdr + of_nat k) = tn_mem t (hdr + of_nat k)"
  using wr32_other [OF apart_shift [OF assms(1), of 0 4] _ assms(3)] wr32_other [OF apart_shift [OF assms(1), of 16 4] _ assms(3)]
    wr32_other [OF apart_shift [OF assms(1), of 20 4] _ assms(3)] wr32_other [OF apart_shift [OF assms(1), of 24 4] _ assms(3)] assms(2)
  by (simp add: desc_words_def)

text \<open>The three segments of an encapsulated packet.\<close>

definition encap_segs :: "u32 \<Rightarrow> u32 \<Rightarrow> u32 \<Rightarrow> u32 \<Rightarrow> seg list" where
  "encap_segs port hdr desc len =
     [seg_of port desc 32 0 (SEG_FIRST OR SEG_TYPE 1) 0 0 0 0,
      seg_of port hdr 50 0 (SEG_TYPE 5) (PATCH 0x10 (len + 4)) (PATCH 0x26 (len - 16)) 0 0,
      seg_of port desc (len - 32) 32 (SEG_LAST OR SEG_TYPE 0) 0 0 0 0]"

lemma encap_emits:
  assumes "bridge_ready dev port"
  shows "fst (vxlan_encap dev port len desc udf t) = 0"
    "emitted (snd (vxlan_encap dev port len desc udf t)) = emitted t @
       concat (map (seg_writes (BRIDGE_EGRESS port)) (encap_segs port (npu_bridge_addr t + (udf - 1) * 128) desc len))"
    "tn_mem (snd (vxlan_encap dev port len desc udf t)) = tn_mem (desc_words port desc udf t)"
  using assms by (simp_all add: vxlan_encap_def tunnel_send_insert_def encap_segs_def desc_words_def Let_def bit_of_def del: seg_writes.simps)

lemma encap_wire:
  assumes "in_alias desc" "in_alias hdr" "unat len = L" "32 \<le> L" "L + 4 < 2 ^ 16"
  shows "length (wire m (encap_segs port hdr desc len)) = L + 50"
    "drop 82 (wire m (encap_segs port hdr desc len)) = bytes m (desc + 32) (L - 32)"
    "word_at (wire m (encap_segs port hdr desc len)) 48 = L + 4"
    "word_at (wire m (encap_segs port hdr desc len)) 70 = L - 16"
    "\<And>k. k < 50 \<Longrightarrow> k \<notin> {16, 17, 38, 39} \<Longrightarrow> wire m (encap_segs port hdr desc len) ! (32 + k) = m (hdr + of_nat k)"
proof -
  let ?h = "seg_bytes m (seg_of port hdr 50 0 (SEG_TYPE 5) (PATCH 0x10 (len + 4)) (PATCH 0x26 (len - 16)) 0 0)"
  have u: "unat (len - 32) = L - 32" "unat (len + 4) = L + 4" "unat (len - 16) = L - 16"
    using assms(3-5) by (simp_all add: unat_sub word_le_nat_alt unat_word_ariths)
  have small: "unat (len - 32) < 2 ^ 16" using u assms(5) by simp
  have w: "wire m (encap_segs port hdr desc len) = bytes m desc 32 @ ?h @ bytes m (desc + 32) (L - 32)"
    using plain_seg [OF small _ assms(1), of 32 m port "SEG_LAST OR SEG_TYPE 0"] plain_seg [OF _ _ assms(1), of 32 0 m port "SEG_FIRST OR SEG_TYPE 1"]
    by (simp add: wire_def encap_segs_def u)
  have n: "length ?h = 50" using length_seg [OF _ _ assms(2), of 50 0] by simp
  have h: "?h ! k = (if k = 38 then c8 (drop_bit 8 (len - 16)) else if k = 39 then c8 (len - 16)
      else if k = 16 then c8 (drop_bit 8 (len + 4)) else if k = 17 then c8 (len + 4) else m (hdr + of_nat k))" if "k < 50" for k
    using that unfolding seg_bytes_of [OF _ _ assms(2), of 50 0, simplified] by (simp add: patch_PATCH)
  have mid: "wire m (encap_segs port hdr desc len) ! (32 + k) = ?h ! k" if "k < 50" for k
    unfolding w using that n by (simp add: nth_append)
  show "length (wire m (encap_segs port hdr desc len)) = L + 50" unfolding w using n assms(4) by simp
  show "drop 82 (wire m (encap_segs port hdr desc len)) = bytes m (desc + 32) (L - 32)" unfolding w using n by simp
  show "word_at (wire m (encap_segs port hdr desc len)) 48 = L + 4"
    unfolding u(2) [symmetric] by (rule word_of_header) (use mid [of 16] mid [of 17] h u(2) assms(5) in simp_all)
  show "word_at (wire m (encap_segs port hdr desc len)) 70 = L - 16"
    unfolding u(3) [symmetric] by (rule word_of_header) (use mid [of 38] mid [of 39] h u(3) assms(5) in simp_all)
  show "wire m (encap_segs port hdr desc len) ! (32 + k) = m (hdr + of_nat k)" if "k < 50" "k \<notin> {16, 17, 38, 39}" for k
    using mid [OF that(1)] h [OF that(1)] that(2) by simp
qed

section \<open>Together\<close>

lemma encap_mem:
  fixes udf :: u32
  assumes "unat udf - 1 < 20" "udf \<noteq> 0" "drop_bit 28 (d32 t (desc + 4)) AND 7 \<noteq> 1" "drop_bit 28 (d32 t (desc + 4)) AND 7 \<noteq> 2"
    and "c32 (d8 t (desc + 20)) = udf" "len + 4 \<le> tunnel_encap_mtu t"
  shows "tunnel_offload_handler v dev port len desc t = Some (vxlan_encap dev port len desc udf t)"
proof -
  have "unat (udf - 1) = unat udf - 1" using assms(2) by (simp add: unat_sub word_le_nat_alt unat_gt_0 Suc_leI)
  then have "unat (c8 (udf - 1)) < 20" using assms(1) by (simp add: unat_c8_c32)
  then have "c8 (udf - 1) \<le> 39" "\<not> 19 < c8 (udf - 1)" by (simp_all add: word_le_nat_alt word_less_nat_alt)
  then show ?thesis using assms(3-6) by (simp add: tunnel_offload_handler_def tunnel_vxlan_def Let_def)
qed

text \<open>
  C36. A stored header is the one sent. After the mail that stores 50 bytes as header \<open>i\<close> (\<open>i < 20\<close>), a packet
  that asks for UDF \<open>i + 1\<close> and fits the MTU goes out as its descriptor, those 50 bytes and the packet
  unchanged, where only the outer IP and UDP lengths of the header are set, to what really follows them.
\<close>

theorem stored_header_sent:
  assumes "bridge_ready dev port" "in_alias desc" "in_alias hdr" "i < 20" "hdr = npu_bridge_addr t + of_nat i * 128"
    and "d32 t base = 0" "tn_mem t (base + 8) = of_nat i" "50 \<le> hdr - (base + 9)"
    and "apart desc L hdr 50" "32 \<le> L" "L + 4 < 2 ^ 16" "L + 4 \<le> unat (tunnel_encap_mtu t)"
    and "drop_bit 28 (d32 t (desc + 4)) AND 7 = 0" "tn_mem t (desc + 20) = of_nat (i + 1)"
  shows "\<exists>t' t'' s1 s2 s3. tunnel_mail_dispatch dev base t = Inr (1, t') \<and>
    tunnel_offload_handler v dev port (of_nat L) desc t' = Some (0, t'') \<and>
    emitted t'' = emitted t @ concat (map (seg_writes (BRIDGE_EGRESS port)) [s1, s2, s3]) \<and>
    (let w = wire (tn_mem t'') [s1, s2, s3]
     in length w = L + 50 \<and> drop 82 w = bytes (tn_mem t) (desc + 32) (L - 32) \<and>
        (\<forall>k<50. k \<notin> {16, 17, 38, 39} \<longrightarrow> w ! (32 + k) = tn_mem t (base + 9 + of_nat k)) \<and>
        word_at w 48 = length (drop 46 w) \<and> word_at w 70 = length (drop 66 w))"
proof -
  define t' where "t' = t\<lparr>tn_mem := (\<lambda>a. if a - hdr < 50 then tn_mem t (base + 9 + (a - hdr)) else tn_mem t a)\<rparr>"
  note st = header_stored [OF assms(6,7,4,5,8), of dev, folded t'_def]
  have own: "tn_mem t' (hdr + of_nat k) = tn_mem t (base + 9 + of_nat k)" if "k < 50" for k
  proof -
    have "(of_nat k :: u32) < 50" using that by (simp add: word_less_nat_alt unat_of_nat)
    then show ?thesis by (simp add: t'_def)
  qed
  have pkt: "tn_mem t' (desc + of_nat k) = tn_mem t (desc + of_nat k)" if "k < L" for k
  proof -
    have "desc + of_nat k \<noteq> hdr + of_nat j" if "j < 50" for j
      using assms(9) \<open>k < L\<close> that unfolding apart_def by blast
    from this [of "unat (desc + of_nat k - hdr)"] have "\<not> unat (desc + of_nat k - hdr) < 50" by auto
    then show ?thesis by (simp add: t'_def word_less_nat_alt)
  qed
  have L: "unat (of_nat L :: u32) = L" using assms(11) by (simp add: unat_of_nat)
  have udf: "unat (of_nat (i + 1) :: u32) = i + 1" "c32 (of_nat (i + 1) :: u8) = of_nat (i + 1)"
  proof -
    show "unat (of_nat (i + 1) :: u32) = i + 1" using assms(4) by (simp only: unat_of_nat) simp
    moreover have "unat (of_nat (i + 1) :: u8) = i + 1" using assms(4) by (simp only: unat_of_nat) simp
    ultimately show "c32 (of_nat (i + 1) :: u8) = of_nat (i + 1)"
      using assms(4) by (simp only: word_unat_eq_iff unsigned_ucast_eq) (simp add: take_bit_nat_eq_self)
  qed
  have word: "d32 t' (desc + 4) = d32 t (desc + 4)"
    using pkt [of 4] pkt [of 5] pkt [of 6] pkt [of 7] assms(10) by (simp add: rd32_def rd16_def add.assoc)
  have "unat (of_nat L + 4 :: u32) = L + 4" using L assms(11) by (simp add: unat_word_ariths)
  then have fits: "of_nat L + 4 \<le> tunnel_encap_mtu t'" using assms(12) by (simp add: word_le_nat_alt t'_def)
  have asks: "c32 (d8 t' (desc + 20)) = of_nat (i + 1)" using pkt [of 20] assms(10,14) udf(2) by simp
  let ?e = "vxlan_encap dev port (of_nat L) desc (of_nat (i + 1)) t'" and ?segs = "encap_segs port hdr desc (of_nat L)"
  have run: "tunnel_offload_handler v dev port (of_nat L) desc t' = Some ?e"
  proof (rule encap_mem)
    show "unat (of_nat (i + 1) :: u32) - 1 < 20" unfolding udf(1) using assms(4) by simp
    show "of_nat (i + 1) \<noteq> (0 :: u32)" using udf(1) by (metis add_is_0 one_neq_zero unsigned_0)
    show "drop_bit 28 (d32 t' (desc + 4)) AND 7 \<noteq> 1" "drop_bit 28 (d32 t' (desc + 4)) AND 7 \<noteq> 2"
      unfolding word assms(13) by simp_all
  qed (fact asks fits)+
  have addr: "npu_bridge_addr t' + (of_nat (i + 1) - 1) * 128 = hdr" by (simp add: assms(5) t'_def npu_bridge_addr_def)
  note e = encap_emits [OF assms(1), of "of_nat L" desc "of_nat (i + 1)" t', unfolded addr]
  have "emitted t' = emitted t" by (simp add: t'_def emitted_def)
  note sent = e(2) [unfolded this]
  let ?m = "tn_mem (snd ?e)"
  have m: "?m (hdr + of_nat k) = tn_mem t (base + 9 + of_nat k)" if "k < 50" for k
    unfolding e(3) desc_words_other [OF assms(9,10) that] by (rule own [OF that])
  have "?m (desc + 32 + of_nat k) = tn_mem t (desc + 32 + of_nat k)" if "k < L - 32" for k
    unfolding e(3) using desc_words_past [of "32 + k" port desc "of_nat (i + 1)" t'] pkt [of "32 + k"] that assms(11)
    by (simp add: add.assoc)
  then have data: "bytes ?m (desc + 32) (L - 32) = bytes (tn_mem t) (desc + 32) (L - 32)" by (rule bytes_cong)
  note w = encap_wire [OF assms(2,3) L assms(10,11), where m = ?m and port = port, unfolded data]
  obtain s1 s2 s3 where parts: "?segs = [s1, s2, s3]" by (simp add: encap_segs_def)
  have lens: "length (drop 46 (wire ?m ?segs)) = L + 4" "length (drop 66 (wire ?m ?segs)) = L - 16"
    unfolding length_drop w(1) using assms(10) by simp_all
  have "?e = (0, snd ?e)" using e(1) by (simp add: prod_eq_iff)
  then show ?thesis
    using st run sent w lens m unfolding Let_def parts by (intro exI conjI) auto
qed

definition store_demo :: tunnel where
  "store_demo = tunnel_demo\<lparr>tn_mem := (\<lambda>_. 0)(0x3E700008 := 2, 0x3E700017 := 0x45, 0x3E900014 := 3)\<rparr>"

theorem stored_header_sent_witness:
  "\<exists>t' t'' s1 s2 s3. tunnel_mail_dispatch (\<lambda>_ _. 0xFF00) 0x3E700000 store_demo = Inr (1, t') \<and>
    tunnel_offload_handler \<lparr>v_soc = AN7583, v_wifi = MT7993, v_clanker = True\<rparr> (\<lambda>_ _. 0xFF00) 0 132 0x3E900000 t' = Some (0, t'') \<and>
    emitted t'' = concat (map (seg_writes (BRIDGE_EGRESS 0)) [s1, s2, s3]) \<and>
    (let w = wire (tn_mem t'') [s1, s2, s3] in length w = 182 \<and> w ! 46 = 0x45 \<and> word_at w 48 = 136 \<and> word_at w 70 = 116)"
proof -
  let ?v = "\<lparr>v_soc = AN7583, v_wifi = MT7993, v_clanker = True\<rparr>" and ?dev = "\<lambda>_ _. 0xFF00 :: u32"
  have m: "tn_mem store_demo = (\<lambda>_. 0)(0x3E700008 := 2, 0x3E700017 := 0x45, 0x3E900014 := 3)" "npu_bridge_base store_demo = 0x3E800000"
      "tunnel_encap_mtu store_demo = 1500" "emitted store_demo = []"
    by (simp_all add: store_demo_def tunnel_demo_def emitted_def)
  have b: "bridge_ready ?dev 0" "in_alias 0x3E900000" "in_alias 0x3E810100" "(2 :: nat) < 20"
      "0x3E810100 = npu_bridge_addr store_demo + of_nat 2 * 128"
    by (simp_all add: bridge_ready_def in_alias_def npu_bridge_addr_def m)
  have mail: "d32 store_demo 0x3E700000 = 0" "tn_mem store_demo (0x3E700000 + 8) = of_nat 2" "50 \<le> 0x3E810100 - (0x3E700000 + 9 :: u32)"
    by (simp_all add: m rd32_def rd16_def)
  have far: "apart 0x3E900000 132 0x3E810100 50"
  proof (unfold apart_def, intro allI impI)
    fix i j :: nat
    assume "i < 132" "j < 50"
    then have u: "unat (0x3E900000 + of_nat i :: u32) = 0x3E900000 + i" "unat (0x3E810100 + of_nat j :: u32) = 0x3E810100 + j"
      by (simp_all add: unat_word_ariths unat_of_nat)
    have "0x3E900000 + i \<noteq> 0x3E810100 + j" using \<open>j < 50\<close> by simp
    then show "0x3E900000 + of_nat i \<noteq> (0x3E810100 + of_nat j :: u32)" unfolding u [symmetric] by (rule contrapos_nn) (rule arg_cong)
  qed
  have len: "(32 :: nat) \<le> 132" "(132 :: nat) + 4 < 2 ^ 16" "132 + 4 \<le> unat (tunnel_encap_mtu store_demo)" by (simp_all add: m)
  have pkt: "drop_bit 28 (d32 store_demo (0x3E900000 + 4)) AND 7 = 0" "tn_mem store_demo (0x3E900000 + 20) = of_nat (2 + 1)"
    by (simp_all add: m rd32_def rd16_def)
  from stored_header_sent [OF b mail far len pkt, of ?v] obtain t' t'' s1 s2 s3 where
    r: "tunnel_mail_dispatch ?dev 0x3E700000 store_demo = Inr (1, t')"
      "tunnel_offload_handler ?v ?dev 0 (of_nat 132) 0x3E900000 t' = Some (0, t'')"
      "emitted t'' = emitted store_demo @ concat (map (seg_writes (BRIDGE_EGRESS 0)) [s1, s2, s3])"
    and w: "length (wire (tn_mem t'') [s1, s2, s3]) = 132 + 50"
      "\<forall>k<50. k \<notin> {16, 17, 38, 39} \<longrightarrow> wire (tn_mem t'') [s1, s2, s3] ! (32 + k) = tn_mem store_demo (0x3E700000 + 9 + of_nat k)"
      "word_at (wire (tn_mem t'') [s1, s2, s3]) 48 = length (drop 46 (wire (tn_mem t'') [s1, s2, s3]))"
      "word_at (wire (tn_mem t'') [s1, s2, s3]) 70 = length (drop 66 (wire (tn_mem t'') [s1, s2, s3]))"
    unfolding Let_def by blast
  have "wire (tn_mem t'') [s1, s2, s3] ! 46 = 0x45" using w(2) [rule_format, of 14] by (simp add: m)
  then show ?thesis
    using r w(1,3,4) m(4) unfolding Let_def
    by (intro exI [of _ t'] exI [of _ t''] exI [of _ s1] exI [of _ s2] exI [of _ s3] conjI) simp_all
qed

end
