(* ===== verification/Hostadpt.thy ===== *)
theory Hostadpt
  imports Bufid
begin

text \<open>
  \<open>npu_hostadpt.c\<close>: the descriptor rings between the NPU and the host. The rings are memory both sides
  write, so a read of a descriptor is answered by the \<open>device\<close> and a write is an access, in order with
  those of the registers. A wait that never ends is \<open>None\<close>.
\<close>

section \<open>State and registers\<close>

record host =
  h_ids :: bufids
  h_io :: "access list"
  hostadpt_tx_ring_base :: u32
  hostadpt_rx_ring_base :: u32
  hostadpt_tx_ring_ready :: u8
  hostadpt_in_base :: "u32 \<times> u32"
  hostadpt_in_size :: "u32 \<times> u32"

definition NPU_HOSTADPT_BASE :: u32 where "NPU_HOSTADPT_BASE = 0x1EC0D100"
definition HOSTADPT_RX_DMA_IDX :: "u32 \<Rightarrow> u32" where "HOSTADPT_RX_DMA_IDX r = NPU_HOSTADPT_BASE + 0x088 + r * 0x10"
definition HOSTADPT_IN_BASE_PTR :: "u32 \<Rightarrow> u32" where "HOSTADPT_IN_BASE_PTR r = NPU_HOSTADPT_BASE - 0x060 + r * 0x10"
definition HOSTADPT_IN_MAX_CNT :: "u32 \<Rightarrow> u32" where "HOSTADPT_IN_MAX_CNT r = NPU_HOSTADPT_BASE - 0x05C + r * 0x10"
definition HOSTADPT_TX_DMA_PTR :: u32 where "HOSTADPT_TX_DMA_PTR = 0x1EC0D180"
definition HOSTADPT_RX_DMA_PTR :: u32 where "HOSTADPT_RX_DMA_PTR = 0x1EC0D190"
definition DMA_COPY_SRC :: "u32 \<Rightarrow> u32" where "DMA_COPY_SRC ch = 0x1FB30000 + ch * 16"
definition DMA_COPY_DST :: "u32 \<Rightarrow> u32" where "DMA_COPY_DST ch = 0x1FB30000 + ch * 16 + 4"
definition DMA_COPY_CTRL :: "u32 \<Rightarrow> u32" where "DMA_COPY_CTRL ch = 0x1FB30000 + ch * 16 + 8"
definition DMA_COPY_STATUS :: u32 where "DMA_COPY_STATUS = 0x1FB30000 + 0x204"

definition HOSTADPT_BUFFER_LEN :: "variant \<Rightarrow> u32" where
  "HOSTADPT_BUFFER_LEN v = (if WIFI_EAGLE v \<or> HAS_NPU_WIFI_TX v then 1792 else 3500)"

definition HOSTADPT_RING_SIZE :: u32 where "HOSTADPT_RING_SIZE = 512"

definition ha_rd :: "device \<Rightarrow> u32 \<Rightarrow> host \<Rightarrow> u32 \<times> host" where
  "ha_rd dev a h = (let (v, io) = reg_rd dev a (h_io h) in (v, h\<lparr>h_io := io\<rparr>))"

definition ha_wr :: "u32 \<Rightarrow> u32 \<Rightarrow> host \<Rightarrow> host" where
  "ha_wr a v h = h\<lparr>h_io := reg_wr a v (h_io h)\<rparr>"

section \<open>Initialisation\<close>

text \<open>\<open>while (REG32(a) == 0);\<close>\<close>

partial_function (option) ha_wait_set :: "device \<Rightarrow> u32 \<Rightarrow> host \<Rightarrow> host option" where
  "ha_wait_set dev a h = (let (v, h) = ha_rd dev a h in if v = 0 then ha_wait_set dev a h else Some h)"

definition npu_alias :: "u32 \<Rightarrow> u32" where "npu_alias a = (a AND 0x3FFFFFFF) OR 0x40000000"

definition hostadpt_in_init :: "device \<Rightarrow> host \<Rightarrow> host option" where
  "hostadpt_in_init dev h =
     map_option (\<lambda>h.
       (let (b1, h) = ha_rd dev (HOSTADPT_IN_BASE_PTR 1) h;
            (b0, h) = ha_rd dev (HOSTADPT_IN_BASE_PTR 0) h;
            (n0, h) = ha_rd dev (HOSTADPT_IN_MAX_CNT 0) h;
            (n1, h) = ha_rd dev (HOSTADPT_IN_MAX_CNT 1) h
        in h\<lparr>hostadpt_in_base := (npu_alias b0, npu_alias b1), hostadpt_in_size := (n0, n1)\<rparr>))
     (ha_wait_set dev (HOSTADPT_IN_BASE_PTR 1) h)"

definition hostadpt_init :: "variant \<Rightarrow> device \<Rightarrow> host \<Rightarrow> host option" where
  "hostadpt_init v dev h =
     Option.bind (if HAS_NPU_WIFI_TX v then hostadpt_in_init dev h else Some h) (\<lambda>h.
     map_option (\<lambda>h.
       (let (t, h) = ha_rd dev HOSTADPT_TX_DMA_PTR h;
            (r, h) = ha_rd dev HOSTADPT_RX_DMA_PTR h
        in h\<lparr>hostadpt_tx_ring_base := npu_alias t, hostadpt_rx_ring_base := npu_alias r, hostadpt_tx_ring_ready := 1\<rparr>))
     (ha_wait_set dev HOSTADPT_RX_DMA_PTR h))"

section \<open>Copies\<close>

definition copy_start :: "u32 \<Rightarrow> u32 \<Rightarrow> u32 \<Rightarrow> u32 \<Rightarrow> host \<Rightarrow> host" where
  "copy_start ch src dst len h =
     ha_wr (DMA_COPY_CTRL ch) (push_bit 16 len OR 0x23) (ha_wr (DMA_COPY_DST ch) dst (ha_wr (DMA_COPY_SRC ch) src h))"

partial_function (option) copy_wait :: "device \<Rightarrow> u32 \<Rightarrow> host \<Rightarrow> host option" where
  "copy_wait dev bits h =
     (let (v, h) = ha_rd dev DMA_COPY_STATUS h
      in if v AND bits = 0 then copy_wait dev bits h else Some (ha_wr DMA_COPY_STATUS bits h))"

definition bridge_dma_copy :: "device \<Rightarrow> u32 \<Rightarrow> u32 \<Rightarrow> u32 \<Rightarrow> u32 \<Rightarrow> host \<Rightarrow> host option" where
  "bridge_dma_copy dev ch src dst len h = copy_wait dev (push_bit (unat ch) 1) (copy_start ch src dst len h)"

definition host_out_copy :: "u32 \<Rightarrow> u32 \<Rightarrow> u32 \<Rightarrow> host \<Rightarrow> host" where
  "host_out_copy src dst len h = copy_start 3 src dst len h"

definition host_out_wait :: "device \<Rightarrow> host \<Rightarrow> host option" where
  "host_out_wait dev h = copy_wait dev 8 h"

section \<open>One descriptor at a time\<close>

text \<open>
  The counters of \<open>host_ring_submit\<close> are bumped without a look at the block's address: before the blocks
  exist that is an access near address 0.
\<close>

definition host_cnt :: "device \<Rightarrow> u32 \<Rightarrow> u32 \<Rightarrow> host \<Rightarrow> host" where
  "host_cnt dev band off h =
     (let s = h_ids h;
          (t, base) = (if band = 1 then (9, counter_base_5g s)
                       else if band = 0 then (10, counter_base_2g s)
                       else (11, counter_base_tri s))
      in if wifi_debug_flags s AND 4 = 0 then h
         else if base \<noteq> 0 then h\<lparr>h_ids := block_add t off 1 s\<rparr>
         else (let (v, h) = ha_rd dev off h in ha_wr off (v + 1) h))"

definition host_cnt_tri :: "u32 \<Rightarrow> host \<Rightarrow> host" where
  "host_cnt_tri off h = h\<lparr>h_ids := cnt_tri_add off 1 (h_ids h)\<rparr>"

definition desc_w0 :: "u16 \<Rightarrow> u16 \<Rightarrow> u8 \<Rightarrow> u32" where
  "desc_w0 orig_len pkt_len is_last =
     1 OR push_bit 1 (c32 orig_len AND 0x3FFF) OR push_bit 15 (c32 pkt_len AND 0x3FFF) OR push_bit 29 (c32 is_last AND 1)"

definition desc_w1 :: "u16 \<Rightarrow> u8 \<Rightarrow> u8 \<Rightarrow> u32" where
  "desc_w1 wcid amsdu fwd_type =
     c32 wcid OR push_bit 16 (c32 amsdu AND 0x1F) OR push_bit 26 (c32 fwd_type AND 0x3F)"

definition host_ring_write_desc ::
  "variant \<Rightarrow> device \<Rightarrow> u32 \<Rightarrow> u32 \<Rightarrow> u16 \<Rightarrow> u16 \<Rightarrow> u8 \<Rightarrow> u8 \<Rightarrow> u16 \<Rightarrow> u8 \<Rightarrow> u32 \<Rightarrow> host \<Rightarrow> host option" where
  "host_ring_write_desc v dev desc_addr buf_addr pkt_len wcid amsdu fwd_type orig_len is_last info h =
     (let (dma_len, h) =
            (if c32 pkt_len \<le> HOSTADPT_BUFFER_LEN v then (c32 pkt_len, host_cnt_tri 0x34 h)
             else (min (c32 orig_len) (HOSTADPT_BUFFER_LEN v), host_cnt_tri 0x30 h));
          (dst, h) = ha_rd dev (desc_addr + 12) h
      in map_option (\<lambda>h.
           (let h = ha_wr (desc_addr + 8) info h;
                h = ha_wr (desc_addr + 4) (desc_w1 wcid amsdu fwd_type) h;
                h = ha_wr desc_addr (desc_w0 orig_len pkt_len is_last) h
            in host_cnt_tri 0x38 h))
         (bridge_dma_copy dev 3 buf_addr dst dma_len h))"

definition next_slot :: "u32 \<Rightarrow> u32" where
  "next_slot idx = (if idx + 1 < HOSTADPT_RING_SIZE then idx + 1 else 0)"

text \<open>The ring of a band: its base, its index register, and the counter of a full ring.\<close>

definition host_ring_put ::
  "variant \<Rightarrow> device \<Rightarrow> u32 \<Rightarrow> u32 \<Rightarrow> u32 \<Rightarrow> u16 \<Rightarrow> u16 \<Rightarrow> u8 \<Rightarrow> u8 \<Rightarrow> u16 \<Rightarrow> u8 \<Rightarrow> u32 \<Rightarrow> host \<Rightarrow> (s32 \<times> host) option" where
  "host_ring_put v dev band ring_base buf_addr pkt_len wcid amsdu fwd_type orig_len is_last info h =
     (let (idx, h) = ha_rd dev (HOSTADPT_RX_DMA_IDX band) h;
          check_idx = (if 511 < idx + 2 then idx - 510 else idx + 2);
          (own, h) = ha_rd dev (ring_base + check_idx * 24) h
      in if own AND 1 \<noteq> 0 then
           (let h = host_cnt dev band 0xEC h;
                h = ha_wr (HOSTADPT_RX_DMA_IDX band) (if idx \<noteq> 0 then idx - 1 else 511) h
            in Some (- 1, ha_wr (HOSTADPT_RX_DMA_IDX band) idx h))
         else
           map_option (\<lambda>h. (0, ha_wr (HOSTADPT_RX_DMA_IDX band) (next_slot idx) h))
             (host_ring_write_desc v dev (ring_base + idx * 24) buf_addr pkt_len wcid amsdu fwd_type orig_len is_last info h))"

definition host_ring_submit ::
  "variant \<Rightarrow> device \<Rightarrow> u32 \<Rightarrow> u16 \<Rightarrow> u32 \<Rightarrow> u16 \<Rightarrow> u8 \<Rightarrow> u8 \<Rightarrow> u16 \<Rightarrow> u8 \<Rightarrow> u32 \<Rightarrow> host \<Rightarrow> (s32 \<times> host) option" where
  "host_ring_submit v dev buf_addr pkt_len band wcid amsdu fwd_type orig_len is_last info h =
     (let h = host_cnt dev band 140 h
      in if band = 0 then
           host_ring_put v dev 0 (hostadpt_tx_ring_base h) buf_addr pkt_len wcid amsdu fwd_type orig_len is_last info h
         else if band = 1 then
           host_ring_put v dev 1 (hostadpt_rx_ring_base h) buf_addr pkt_len wcid amsdu fwd_type orig_len is_last info h
         else Some (- 1, h))"

section \<open>One copy in flight\<close>

record host_out =
  o_desc :: u32
  o_dst :: u32
  o_next :: u32
  o_w0 :: u32
  o_w1 :: u32
  o_w2 :: u32

definition host_out_idx :: "device \<Rightarrow> host \<Rightarrow> u32 \<times> host" where
  "host_out_idx dev h = ha_rd dev (HOSTADPT_RX_DMA_IDX 0) h"

text \<open>The slot past \<open>n\<close> frames from \<open>idx\<close>.\<close>

definition slot_past :: "u32 \<Rightarrow> u32 \<Rightarrow> u32" where
  "slot_past idx n = (if HOSTADPT_RING_SIZE \<le> idx + n + 1 then idx + n + 1 - HOSTADPT_RING_SIZE else idx + n + 1)"

definition host_out_room :: "device \<Rightarrow> u32 \<Rightarrow> u32 \<Rightarrow> host \<Rightarrow> u32 \<times> host" where
  "host_out_room dev idx n h =
     (if wifi_debug_flags (h_ids h) AND 4 \<noteq> 0 then (0, h)
      else (let (own, h) = ha_rd dev (hostadpt_tx_ring_base h + slot_past idx n * 24) h
            in (if own AND 1 \<noteq> 0 then 0 else n, h)))"

definition host_out_finish :: "device \<Rightarrow> host_out \<Rightarrow> host \<Rightarrow> host option" where
  "host_out_finish dev o' h =
     map_option (\<lambda>h.
       ha_wr (HOSTADPT_RX_DMA_IDX 0) (o_next o')
         (ha_wr (o_desc o') (o_w0 o') (ha_wr (o_desc o' + 4) (o_w1 o') (ha_wr (o_desc o' + 8) (o_w2 o') h))))
     (host_out_wait dev h)"

definition host_out_start ::
  "variant \<Rightarrow> device \<Rightarrow> host_out option \<Rightarrow> u32 \<Rightarrow> u32 \<Rightarrow> u16 \<Rightarrow> u16 \<Rightarrow> u8 \<Rightarrow> u8 \<Rightarrow> u16 \<Rightarrow> u8 \<Rightarrow> u32 \<Rightarrow> host \<Rightarrow> (host_out \<times> host) option" where
  "host_out_start v dev prev idx buf_addr pkt_len wcid amsdu fwd_type orig_len is_last info h =
     (let d = hostadpt_tx_ring_base h + idx * 24;
          dma_len = (if HOSTADPT_BUFFER_LEN v < c32 pkt_len then min (c32 orig_len) (HOSTADPT_BUFFER_LEN v) else c32 pkt_len);
          (dst, h) = ha_rd dev (d + 12) h
      in map_option (\<lambda>h.
           (\<lparr>o_desc = d, o_dst = dst, o_next = next_slot idx, o_w0 = desc_w0 orig_len pkt_len is_last,
             o_w1 = desc_w1 wcid amsdu fwd_type, o_w2 = info\<rparr>,
            host_out_copy buf_addr dst dma_len h))
         (case prev of None \<Rightarrow> Some h | Some p \<Rightarrow> host_out_finish dev p h))"

section \<open>A chained frame\<close>

record host_seg =
  s_src :: u32
  s_info :: u32
  s_frame :: u16
  s_seg :: u16
  s_fwd_type :: u8
  s_last :: u8

text \<open>The copies of all segments, then their words from the last to the first, then the index.\<close>

fun chain_copies :: "variant \<Rightarrow> device \<Rightarrow> u32 \<Rightarrow> u32 \<Rightarrow> host_seg list \<Rightarrow> host \<Rightarrow> (u32 \<times> host) option" where
  "chain_copies v dev ring slot [] h = Some (slot, h)"
| "chain_copies v dev ring slot (s # ss) h =
     (let len = (if HOSTADPT_BUFFER_LEN v < c32 (s_seg s) then HOSTADPT_BUFFER_LEN v else c32 (s_seg s));
          (dst, h) = ha_rd dev (ring + slot * 24 + 12) h
      in Option.bind (host_out_wait dev (host_out_copy (s_src s) dst len h)) (chain_copies v dev ring (next_slot slot) ss))"

definition chain_slot :: "u32 \<Rightarrow> nat \<Rightarrow> u32" where
  "chain_slot idx i = (if HOSTADPT_RING_SIZE \<le> idx + of_nat i then idx + of_nat i - HOSTADPT_RING_SIZE else idx + of_nat i)"

definition chain_words :: "u32 \<Rightarrow> u32 \<Rightarrow> nat \<times> host_seg \<Rightarrow> host \<Rightarrow> host" where
  "chain_words ring idx q h =
     (let (i, s) = q; d = ring + chain_slot idx i * 24;
          h = ha_wr (d + 8) (s_info s) h;
          h = ha_wr (d + 4) (push_bit 26 (c32 (s_fwd_type s) AND 0x3F)) h
      in ha_wr d (1 OR push_bit 1 (c32 (s_seg s AND 0x3FFF)) OR push_bit 15 (c32 (s_frame s AND 0x3FFF)) OR
           push_bit 29 (c32 (s_last s) AND 1)) h)"

definition host_out_chain :: "variant \<Rightarrow> device \<Rightarrow> host_seg list \<Rightarrow> host \<Rightarrow> (s32 \<times> host) option" where
  "host_out_chain v dev ss h =
     (let ring = hostadpt_tx_ring_base h;
          (idx, h) = ha_rd dev (HOSTADPT_RX_DMA_IDX 0) h;
          n = of_nat (length ss)
      in if wifi_debug_flags (h_ids h) AND 4 \<noteq> 0 then Some (- 1, h)
         else
           (let (own, h) = ha_rd dev (ring + slot_past idx n * 24) h
            in if own AND 1 \<noteq> 0 then Some (- 1, h)
               else
                 map_option (\<lambda>(slot, h).
                   (0, ha_wr (HOSTADPT_RX_DMA_IDX 0) slot (fold (chain_words ring idx) (rev (enumerate 0 ss)) h)))
                 (chain_copies v dev ring idx ss h)))"

end
