(* ===== verification/Fwd.thy ===== *)
theory Fwd
  imports Hostadpt
begin

text \<open>
  \<open>npu_wifi_fwd.c\<close>: the rings between the cores that receive frames and core 3, which hands them to the
  host. Whole frames take a ring of 16-byte nodes, the segments of longer ones a ring of 12-byte nodes.
  A frame's receive words are read from the packet buffer, which the chip writes: the \<open>device\<close> answers.
  What the receiving cores do to a ring while core 3 waits on it is the argument \<open>others\<close>.
\<close>

section \<open>State\<close>

record pinode =
  p_buf :: u32
  p_wcid :: u16
  p_len :: u16
  p_orig :: u16
  p_flags :: u8
  p_amsdu :: u8
  p_cls :: u8

record rxnode =
  r_buf :: u32
  r_len :: u16
  r_orig :: u16
  r_flags :: u8

record fband =
  pinode_base :: u32
  pinodes :: "pinode list"
  pinode_widx :: u16
  pinode_ridx :: u16
  rxnode_base :: u32
  rxnodes :: "rxnode list"
  rxnode_widx :: u16
  rxnode_ridx :: u16
  stats_bytes :: "u32 list"
  stats_pkts :: "u32 list"

record fwd =
  f_2g :: fband
  f_5g :: fband
  f_host :: host
  f_pkt_buf_addr :: u32
  f_retry_limit :: u16
  queue_mutex_2g :: u32

definition PINODE_RING_SIZE :: "u32 \<Rightarrow> nat" where "PINODE_RING_SIZE band = (if band \<noteq> 0 then 512 else 256)"
definition RXNODE_RING_SIZE :: nat where "RXNODE_RING_SIZE = 128"

definition get_band :: "u32 \<Rightarrow> fwd \<Rightarrow> fband" where "get_band band f = (if band \<noteq> 0 then f_5g f else f_2g f)"

definition upd_band :: "u32 \<Rightarrow> (fband \<Rightarrow> fband) \<Rightarrow> fwd \<Rightarrow> fwd" where
  "upd_band band g f = (if band \<noteq> 0 then f\<lparr>f_5g := g (f_5g f)\<rparr> else f\<lparr>f_2g := g (f_2g f)\<rparr>)"

definition upd_ids :: "(bufids \<Rightarrow> bufids) \<Rightarrow> fwd \<Rightarrow> fwd" where
  "upd_ids g f = f\<lparr>f_host := (f_host f)\<lparr>h_ids := g (h_ids (f_host f))\<rparr>\<rparr>"

definition fwd_cnt :: "u32 \<Rightarrow> u32 \<Rightarrow> fwd \<Rightarrow> fwd" where
  "fwd_cnt band off f =
     (if wifi_debug_flags (h_ids (f_host f)) AND 4 = 0 then f else upd_ids (wifi_cnt_add band off) f)"

definition fwd_rd :: "device \<Rightarrow> u32 \<Rightarrow> fwd \<Rightarrow> u32 \<times> fwd" where
  "fwd_rd dev a f = (let (v, h) = ha_rd dev a (f_host f) in (v, f\<lparr>f_host := h\<rparr>))"

definition fwd_buf_free :: "variant \<Rightarrow> u32 \<Rightarrow> u32 \<Rightarrow> fwd \<Rightarrow> fwd" where
  "fwd_buf_free v band buf_id f =
     (let h = f_host f; (ids, io) = buf_id_free v 0 band buf_id (h_ids h, h_io h)
      in f\<lparr>f_host := h\<lparr>h_ids := ids, h_io := io\<rparr>\<rparr>)"

definition fwd_pkt_va :: "u32 \<Rightarrow> fwd \<Rightarrow> u32" where
  "fwd_pkt_va buf_id f = ((f_pkt_buf_addr f AND 0x3FFFFFFF) OR 0x40000000) + push_bit 12 buf_id"

definition wifi_pkt_dma :: "u32 \<Rightarrow> fwd \<Rightarrow> u32" where
  "wifi_pkt_dma buf_id f = ((push_bit 12 buf_id + f_pkt_buf_addr f) AND 0x3FFFFFFF) OR 0x80000000"

text \<open>A 64-bit counter of a list of words, low word first.\<close>

definition u64_add :: "nat \<Rightarrow> u32 \<Rightarrow> u32 list \<Rightarrow> u32 list" where
  "u64_add k n c =
     (let lo = c ! k; c = c[k := lo + n]
      in if c ! k < lo then c[k + 1 := c ! (k + 1) + 1] else c)"

section \<open>Initialisation\<close>

definition pinode_clear :: "pinode \<Rightarrow> pinode" where
  "pinode_clear n = n\<lparr>p_buf := 0xFFFFFFFF, p_wcid := 0, p_len := 0, p_orig := 0, p_amsdu := 0, p_flags := 0\<rparr>"

definition rxnode_clear :: "rxnode \<Rightarrow> rxnode" where
  "rxnode_clear n = n\<lparr>r_buf := 0xFFFFFFFF, r_len := 0, r_orig := 0, r_flags := 0\<rparr>"

definition wifi_pkt_queue_init :: "variant \<Rightarrow> u32 \<Rightarrow> sram \<times> fwd \<Rightarrow> sram_fault + (sram \<times> fwd)" where
  "wifi_pkt_queue_init v band q =
     (if band \<noteq> 0 \<and> band \<noteq> 1 then Inr q
      else
        (let (s, f) = q
         in case sram_buf_alloc v (if band \<noteq> 0 then 2 else 3) s of
              Inl e \<Rightarrow> Inl e
            | Inr (pa, s) \<Rightarrow>
                (case sram_buf_alloc v (if band \<noteq> 0 then 14 else 15) s of
                   Inl e \<Rightarrow> Inl e
                 | Inr (ra, s) \<Rightarrow>
                     Inr (s, upd_band band (\<lambda>b. b\<lparr>pinode_widx := 0, pinode_ridx := 0, pinode_base := pa,
                       rxnode_widx := 0, rxnode_ridx := 0, rxnode_base := ra,
                       pinodes := map pinode_clear (pinodes b), rxnodes := map rxnode_clear (rxnodes b)\<rparr>) f))))"

section \<open>Forwarding\<close>

definition ring_inc :: "nat \<Rightarrow> u16 \<Rightarrow> u16" where "ring_inc n i = (if i + 1 = of_nat n then 0 else i + 1)"

text \<open>A segment; 1 when the ring is full.\<close>

definition forward_segment :: "u32 \<Rightarrow> u32 \<Rightarrow> u32 \<Rightarrow> u8 \<Rightarrow> u32 \<Rightarrow> fwd \<Rightarrow> s32 \<times> fwd" where
  "forward_segment buf_id pkt_len band fwd_type orig_len f =
     (let b = get_band band f; w = rxnode_widx b
      in if r_flags (rxnodes b ! unat w) AND 1 \<noteq> 0 then (1, f)
         else
           (let f = upd_band band (\<lambda>b. b\<lparr>rxnodes := (rxnodes b)[unat w :=
                      (rxnodes b ! unat w)\<lparr>r_len := c16 pkt_len, r_orig := c16 orig_len, r_buf := buf_id, r_flags := fwd_type OR 1\<rparr>]\<rparr>) f;
                f = fwd_cnt band 148 f
            in (0, upd_band band (\<lambda>b. b\<lparr>rxnode_widx := ring_inc RXNODE_RING_SIZE w\<rparr>) f)))"

text \<open>A whole frame, under the mutex.\<close>

definition whole_node :: "u32 \<Rightarrow> u32 \<Rightarrow> u16 \<Rightarrow> u8 \<Rightarrow> u8 \<Rightarrow> u32 \<Rightarrow> s32 \<Rightarrow> pinode" where
  "whole_node buf_id pkt_len wcid amsdu fwd_type orig_len classify_result =
     \<lparr>p_buf = buf_id, p_wcid = wcid, p_len = c16 pkt_len, p_orig = c16 orig_len, p_flags = fwd_type OR 1, p_amsdu = amsdu,
      p_cls = (if classify_result = - 2 then 1 else 0)\<rparr>"

definition forward_whole :: "variant \<Rightarrow> u32 \<Rightarrow> pinode \<Rightarrow> fwd \<Rightarrow> s32 \<times> fwd" where
  "forward_whole v band n f =
     (let f = upd_ids (id_lock v (queue_mutex_2g f)) f; b = get_band band f; w = pinode_widx b
      in if p_flags (pinodes b ! unat w) AND 1 \<noteq> 0
         then (1, fwd_cnt band 28 (upd_ids (id_unlock v (queue_mutex_2g f)) f))
         else
           (let f = upd_band band (\<lambda>b. b\<lparr>pinodes := (pinodes b)[unat w := n]\<rparr>) f;
                f = fwd_cnt band 24 f;
                f = upd_band band (\<lambda>b. b\<lparr>pinode_widx := ring_inc (PINODE_RING_SIZE band) w\<rparr>) f
            in (0, upd_ids (id_unlock v (queue_mutex_2g f)) f)))"

text \<open>The bytes and frames of a queue; the second band is 1 only here.\<close>

definition queue_stats :: "device \<Rightarrow> u32 \<Rightarrow> u32 \<Rightarrow> u32 \<Rightarrow> u8 \<Rightarrow> fwd \<Rightarrow> fwd" where
  "queue_stats dev buf_id band orig_len tunnel f =
     (let (info, f) = fwd_rd dev (fwd_pkt_va buf_id f + 0x88) f;
          q = info AND 0x3F;
          q = (if info AND 0x30 \<noteq> 0 then c32 (c8 (q - 16)) else q)
      in if info AND 0x32000000 \<noteq> 0 then f
         else if 15 < q \<or> tunnel \<noteq> 0 then f
         else upd_band (if band = 1 then 1 else 0)
                (\<lambda>b. b\<lparr>stats_bytes := u64_add (unat (q * 2)) ((orig_len - 98) AND 0xFFFF) (stats_bytes b),
                      stats_pkts := u64_add (unat (q * 2)) 1 (stats_pkts b)\<rparr>) f)"

definition pkt_forward ::
  "variant \<Rightarrow> device \<Rightarrow> u32 \<Rightarrow> u32 \<Rightarrow> u16 \<Rightarrow> u8 \<Rightarrow> u32 \<Rightarrow> u8 \<Rightarrow> u32 \<Rightarrow> s32 \<Rightarrow> u8 \<Rightarrow> fwd \<Rightarrow> s32 \<times> fwd" where
  "pkt_forward v dev buf_id pkt_len wcid amsdu band fwd_type orig_len classify_result tunnel f =
     (let (r, f) =
            (if orig_len \<noteq> pkt_len then forward_segment buf_id pkt_len band fwd_type orig_len f
             else forward_whole v band (whole_node buf_id pkt_len wcid amsdu fwd_type orig_len classify_result) f)
      in if r \<noteq> 0 then (r, f) else (0, queue_stats dev buf_id band orig_len tunnel f))"

text \<open>A frame the BME returned; its length and channel are in the buffer.\<close>

definition pkt_forward_bme :: "variant \<Rightarrow> device \<Rightarrow> s32 \<Rightarrow> u32 \<Rightarrow> u32 \<Rightarrow> fwd \<Rightarrow> s32 \<times> fwd" where
  "pkt_forward_bme v dev buf_id wcid info f =
     (let buf = fwd_pkt_va buf_id f;
          (len, f) = fwd_rd dev buf f; len = c32 (c16 len);
          (ch, f) = fwd_rd dev (buf + 13) f
      in pkt_forward v dev buf_id len (c16 wcid) (c8 info) (bit_of (36 \<le> c8 ch)) 2 len 0 1 f)"

section \<open>Whole frames to the host\<close>

definition pinode_drain :: "variant \<Rightarrow> device \<Rightarrow> u32 \<Rightarrow> fwd \<Rightarrow> fwd option" where
  "pinode_drain v dev band f =
     (let b = get_band band f; i = pinode_ridx b; e = pinodes b ! unat i; cb = bit_of (band = 1)
      in if p_flags e AND 1 = 0 then Some (fwd_cnt cb 20 f)
         else
           (let f = fwd_cnt cb 36 f;
                done' = (\<lambda>f.
                  (let f = upd_band band (\<lambda>b. b\<lparr>pinodes := (pinodes b)[unat i := pinode_clear e]\<rparr>) f;
                       f = upd_band band (\<lambda>b. b\<lparr>pinode_ridx := ring_inc (PINODE_RING_SIZE band) i\<rparr>) f
                   in fwd_cnt cb 20 f))
            in if p_buf e <s 0 then Some (done' (fwd_cnt cb 40 f))
               else if p_len e = 0 then Some (done' (fwd_cnt cb 44 f))
               else
                 map_option (\<lambda>(r, h).
                   (let f = fwd_cnt cb (if r \<noteq> 0 then 108 else 48) (f\<lparr>f_host := h\<rparr>)
                    in done' (fwd_buf_free v band (c32 (c16 (p_buf e))) f)))
                 (host_ring_submit v dev (wifi_pkt_dma (p_buf e) f) (p_len e) band (p_wcid e) (p_amsdu e)
                    (drop_bit 2 (p_flags e)) (p_orig e) (drop_bit 1 (p_flags e) AND 1) (c32 (p_cls e)) (f_host f))))"

section \<open>Segments to the host\<close>

definition rxnode_submit :: "variant \<Rightarrow> device \<Rightarrow> rxnode \<Rightarrow> u32 \<Rightarrow> fwd \<Rightarrow> (s32 \<times> fwd) option" where
  "rxnode_submit v dev n band f =
     map_option (\<lambda>(r, h). (r, f\<lparr>f_host := h\<rparr>))
       (host_ring_submit v dev (wifi_pkt_dma (r_buf n) f) (r_len n) band 0 0 (drop_bit 2 (r_flags n)) (r_orig n)
          (if r_flags n AND 2 \<noteq> 0 then 1 else 0) 0 (f_host f))"

text \<open>
  How many segments make the frame at the read index: how many, and whether it is complete. \<open>others t\<close> is
  what the receiving cores have put into the ring by try \<open>t\<close>.
\<close>

function rxnode_scan ::
  "(nat \<Rightarrow> rxnode list \<Rightarrow> rxnode list) \<Rightarrow> u32 \<Rightarrow> u32 \<Rightarrow> nat \<Rightarrow> u16 \<Rightarrow> nat \<Rightarrow> nat \<Rightarrow> fwd \<Rightarrow> (nat \<times> bool) \<times> fwd" where
  "rxnode_scan others band cb lim scan tries segs f =
     (let f = fwd_cnt cb 156 f; flags = r_flags (rxnodes (get_band band f) ! unat scan)
      in if flags AND 1 = 0 then
           (if lim < tries + 1 then ((segs, False), fwd_cnt cb 184 f)
            else rxnode_scan others band cb lim scan (tries + 1) segs
                   (upd_band band (\<lambda>b. b\<lparr>rxnodes := others (tries + 1) (rxnodes b)\<rparr>) f))
         else
           (let f = fwd_cnt cb 160 f; total = unat (drop_bit 5 flags); seg = unat (drop_bit 2 flags AND 7); nxt = segs + 1
            in if flags AND 2 \<noteq> 0 then
                 (let f = fwd_cnt cb 168 f
                  in if total = nxt \<and> seg = nxt then ((nxt, True), fwd_cnt cb 164 f)
                     else if total = nxt then ((nxt, False), fwd_cnt cb 172 f)
                     else if total = seg then ((nxt, False), fwd_cnt cb 176 f)
                     else ((nxt, False), fwd_cnt cb 176 (fwd_cnt cb 172 f)))
               else if total \<le> nxt then ((segs, False), fwd_cnt cb 180 f)
               else if lim < tries then ((nxt, False), fwd_cnt cb 184 f)
               else rxnode_scan others band cb lim (ring_inc RXNODE_RING_SIZE scan) tries nxt f))"
  by pat_completeness auto
termination
proof (relation "measure (\<lambda>(others, band, cb, lim, scan, tries, segs, f). (lim + 1 - tries) + (8 - segs))", goal_cases)
  case (3 others band cb lim scan tries segs f f' flags f'' total seg nxt)
  have "unat (drop_bit 5 flags) < 8" using unat_lt8 [of flags] by (simp add: unat_drop_bit)
  then show ?case using 3 by auto
qed auto

declare rxnode_scan.simps [simp del]

text \<open>\<open>for (retry = wifi_retry_limit; retry; retry--)\<close>\<close>

fun rxnode_retry :: "variant \<Rightarrow> device \<Rightarrow> nat \<Rightarrow> rxnode \<Rightarrow> u32 \<Rightarrow> u32 \<Rightarrow> fwd \<Rightarrow> fwd option" where
  "rxnode_retry v dev 0 n band cb f = Some f"
| "rxnode_retry v dev (Suc k) n band cb f =
     Option.bind (rxnode_submit v dev n band f) (\<lambda>(r, f).
       if r = 0 then Some (fwd_cnt cb 188 f) else rxnode_retry v dev k n band cb f)"

definition rxnode_hand :: "variant \<Rightarrow> device \<Rightarrow> rxnode \<Rightarrow> u32 \<Rightarrow> u32 \<Rightarrow> fwd \<Rightarrow> fwd option" where
  "rxnode_hand v dev n band cb f =
     Option.bind (rxnode_submit v dev n band f) (\<lambda>(r, f).
       if r \<noteq> 0 then rxnode_retry v dev (unat (f_retry_limit f)) n band cb (fwd_cnt cb 136 f) else Some (fwd_cnt cb 0xBC f))"

text \<open>The frame to the host, or its segments dropped.\<close>

fun rxnode_process :: "variant \<Rightarrow> device \<Rightarrow> bool \<Rightarrow> u32 \<Rightarrow> u32 \<Rightarrow> nat \<Rightarrow> u16 \<Rightarrow> fwd \<Rightarrow> (u16 \<times> fwd) option" where
  "rxnode_process v dev submit band cb 0 i f = Some (i, f)"
| "rxnode_process v dev submit band cb (Suc segs) i f =
     (let n = rxnodes (get_band band f) ! unat i
      in Option.bind (if submit then rxnode_hand v dev n band cb f else Some f) (\<lambda>f.
           (let f = fwd_buf_free v band (r_buf n) f;
                f = upd_band band (\<lambda>b. b\<lparr>rxnodes := (rxnodes b)[unat i := rxnode_clear n]\<rparr>) f
            in rxnode_process v dev submit band cb segs (ring_inc RXNODE_RING_SIZE i) (fwd_cnt cb 192 f))))"

definition rxnode_drain :: "variant \<Rightarrow> device \<Rightarrow> (nat \<Rightarrow> rxnode list \<Rightarrow> rxnode list) \<Rightarrow> u32 \<Rightarrow> fwd \<Rightarrow> fwd option" where
  "rxnode_drain v dev others band f =
     (let b = get_band band f; i = rxnode_ridx b; cb = bit_of (band = 1)
      in if r_flags (rxnodes b ! unat i) AND 1 = 0 then Some (fwd_cnt cb 152 f)
         else
           (let ((segs, submit), f) = rxnode_scan others band cb (unat (f_retry_limit f)) i 0 0 f
            in map_option (\<lambda>(i, f). upd_band band (\<lambda>b. b\<lparr>rxnode_ridx := i\<rparr>) f)
                 (rxnode_process v dev submit band cb segs i f)))"

end
