(* ===== verification/Host_Chain.thy ===== *)
theory Host_Chain
  imports Hostadpt Bufid_Pool
begin

text \<open>
  A frame chained over several slots of the out ring: the host, which looks at the ring while the NPU
  writes it, never finds the first slot ready before all of the frame is there.
\<close>

section \<open>Copies end\<close>

text \<open>The accesses after \<open>k\<close> reads of the status of the copy engine.\<close>

fun polled :: "device \<Rightarrow> nat \<Rightarrow> access list \<Rightarrow> access list" where
  "polled dev 0 tr = tr"
| "polled dev (Suc k) tr = polled dev k (tr @ [Rd DMA_COPY_STATUS (dev tr DMA_COPY_STATUS)])"

text \<open>A copy engine that comes to report channel 3, however long it takes.\<close>

definition copies_end :: "device \<Rightarrow> bool" where
  "copies_end dev \<longleftrightarrow> (\<forall>tr. \<exists>k. dev (polled dev k tr) DMA_COPY_STATUS AND 8 \<noteq> 0)"

definition io_only :: "host \<Rightarrow> host \<Rightarrow> (u32 \<times> u32) list \<Rightarrow> bool" where
  "io_only h h' ws \<longleftrightarrow> h' = h\<lparr>h_io := h_io h'\<rparr> \<and> writes (h_io h') = writes (h_io h) @ ws"

lemma io_only_trans: "io_only h h' ws \<Longrightarrow> io_only h' h'' ws' \<Longrightarrow> io_only h h'' (ws @ ws')"
  unfolding io_only_def by (metis append_assoc host.surjective host.update_convs(2))

lemma io_only_wr: "io_only h (ha_wr a v h) [(a, v)]"
  by (simp add: io_only_def ha_wr_def reg_wr_def)

lemma io_only_rd: "io_only h (snd (ha_rd dev a h)) []"
  by (simp add: io_only_def ha_rd_def reg_rd_def Let_def)

lemma ha_rd_eq: "ha_rd dev a h = (dev (h_io h) a, snd (ha_rd dev a h))"
  by (simp add: ha_rd_def reg_rd_def Let_def)

lemma io_only_ring: "io_only h h' ws \<Longrightarrow> hostadpt_tx_ring_base h' = hostadpt_tx_ring_base h"
  unfolding io_only_def by (metis host.select_convs(3) host.surjective host.update_convs(2))

lemma copy_wait_ends:
  assumes "dev (polled dev k (h_io h)) DMA_COPY_STATUS AND 8 \<noteq> 0"
  shows "\<exists>h'. copy_wait dev 8 h = Some h' \<and> io_only h h' [(DMA_COPY_STATUS, 8)]"
  using assms
proof (induction k arbitrary: h)
  case 0
  let ?h = "snd (ha_rd dev DMA_COPY_STATUS h)"
  have "copy_wait dev 8 h = Some (ha_wr DMA_COPY_STATUS 8 ?h)"
    using 0 by (subst copy_wait.simps) (simp add: ha_rd_def reg_rd_def Let_def)
  then show ?case using io_only_trans [OF io_only_rd io_only_wr] by simp
next
  case (Suc k)
  let ?h = "snd (ha_rd dev DMA_COPY_STATUS h)"
  have io: "h_io ?h = h_io h @ [Rd DMA_COPY_STATUS (dev (h_io h) DMA_COPY_STATUS)]"
    by (simp add: ha_rd_def reg_rd_def Let_def)
  show ?case
  proof (cases "dev (h_io h) DMA_COPY_STATUS AND 8 = 0")
    case True
    from Suc.IH [of ?h] Suc.prems io obtain h' where "copy_wait dev 8 ?h = Some h'" "io_only ?h h' [(DMA_COPY_STATUS, 8)]" by auto
    moreover have "copy_wait dev 8 h = copy_wait dev 8 ?h"
      using True by (subst copy_wait.simps) (simp add: ha_rd_def reg_rd_def Let_def)
    ultimately show ?thesis using io_only_trans [OF io_only_rd] by fastforce
  next
    case False
    then have "copy_wait dev 8 h = Some (ha_wr DMA_COPY_STATUS 8 ?h)"
      by (subst copy_wait.simps) (simp add: ha_rd_def reg_rd_def Let_def)
    then show ?thesis using io_only_trans [OF io_only_rd io_only_wr] by simp
  qed
qed

section \<open>Slots\<close>

definition in_ring :: "u32 \<Rightarrow> nat \<Rightarrow> u32" where "in_ring ring k = ring + of_nat (k mod 512) * 24"

lemma next_slot_mod: "i < 512 \<Longrightarrow> next_slot (of_nat i) = of_nat (Suc i mod 512)"
proof -
  assume i: "i < 512"
  then have u: "unat (of_nat i :: u32) = i" "unat (of_nat i + 1 :: u32) = Suc i" by (simp_all add: unat_of_nat unat_word_ariths)
  show ?thesis
  proof (cases "i = 511")
    case False
    then have "Suc i mod 512 = Suc i" using i by simp
    moreover have "of_nat i + 1 < HOSTADPT_RING_SIZE" using False i u by (simp add: HOSTADPT_RING_SIZE_def word_less_nat_alt)
    ultimately show ?thesis by (simp add: next_slot_def add.commute)
  qed (simp add: next_slot_def HOSTADPT_RING_SIZE_def)
qed

lemma chain_slot_mod:
  assumes "i < 512" "j < 512"
  shows "chain_slot (of_nat i) j = of_nat ((i + j) mod 512)"
proof -
  have u: "unat (of_nat i + of_nat j :: u32) = i + j" using assms by (simp add: unat_of_nat unat_word_ariths)
  show ?thesis
  proof (cases "512 \<le> i + j")
    case True
    then have "HOSTADPT_RING_SIZE \<le> of_nat i + (of_nat j :: u32)" using u by (simp add: HOSTADPT_RING_SIZE_def word_le_nat_alt)
    moreover have "(i + j) mod 512 = i + j - 512" using assms True by (simp add: le_mod_geq)
    ultimately show ?thesis using True by (simp add: chain_slot_def HOSTADPT_RING_SIZE_def of_nat_diff)
  next
    case False
    then have "\<not> HOSTADPT_RING_SIZE \<le> of_nat i + (of_nat j :: u32)" using u by (simp add: HOSTADPT_RING_SIZE_def word_le_nat_alt)
    then show ?thesis using False by (simp add: chain_slot_def)
  qed
qed

section \<open>The accesses of a chained frame\<close>

text \<open>The words of one segment at its descriptor, in the order they are stored.\<close>

definition seg_words :: "u32 \<Rightarrow> host_seg \<Rightarrow> (u32 \<times> u32) list" where
  "seg_words d s =
     [(d + 8, s_info s), (d + 4, push_bit 26 (c32 (s_fwd_type s) AND 0x3F)),
      (d, 1 OR push_bit 1 (c32 (s_seg s AND 0x3FFF)) OR push_bit 15 (c32 (s_frame s AND 0x3FFF)) OR push_bit 29 (c32 (s_last s) AND 1))]"

lemma chain_words_io: "io_only h (chain_words ring idx (j, s) h) (seg_words (ring + chain_slot idx j * 24) s)"
  by (simp add: io_only_def chain_words_def seg_words_def ha_wr_def reg_wr_def Let_def)

lemma chain_words_all:
  "io_only h (fold (chain_words ring idx) qs h) (concat (map (\<lambda>(j, s). seg_words (ring + chain_slot idx j * 24) s) qs))"
proof (induction qs arbitrary: h)
  case Nil
  then show ?case by (simp add: io_only_def)
next
  case (Cons q qs)
  obtain j s where "q = (j, s)" by force
  then show ?case using io_only_trans [OF chain_words_io Cons.IH] by simp
qed

definition copy_regs :: "u32 set" where
  "copy_regs = {DMA_COPY_SRC 3, DMA_COPY_DST 3, DMA_COPY_CTRL 3, DMA_COPY_STATUS}"

definition waits :: "(u32 \<times> u32) list \<Rightarrow> nat" where
  "waits ws = length (filter (\<lambda>w. w = (DMA_COPY_STATUS, 8)) ws)"

lemma waits_append [simp]: "waits (ws @ ws') = waits ws + waits ws'"
  by (simp add: waits_def)

lemma one_copy:
  assumes "copies_end dev"
  shows "\<exists>h' ws. host_out_wait dev (host_out_copy src dst len h) = Some h' \<and> io_only h h' ws \<and> fst ` set ws \<subseteq> copy_regs \<and> waits ws = 1"
proof -
  let ?h = "host_out_copy src dst len h"
  let ?ws = "[(DMA_COPY_SRC 3, src), (DMA_COPY_DST 3, dst), (DMA_COPY_CTRL 3, push_bit 16 len OR 0x23)]"
  have c: "io_only h ?h ?ws"
    by (simp add: io_only_def host_out_copy_def copy_start_def ha_wr_def reg_wr_def)
  obtain k where "dev (polled dev k (h_io ?h)) DMA_COPY_STATUS AND 8 \<noteq> 0" using assms by (auto simp: copies_end_def)
  from copy_wait_ends [where h = ?h and k = k and dev = dev, OF this] obtain h' where "host_out_wait dev ?h = Some h'" "io_only ?h h' [(DMA_COPY_STATUS, 8)]"
    by (auto simp: host_out_wait_def)
  moreover have "waits (?ws @ [(DMA_COPY_STATUS, 8)]) = 1"
    by (simp add: waits_def DMA_COPY_SRC_def DMA_COPY_DST_def DMA_COPY_CTRL_def DMA_COPY_STATUS_def)
  ultimately show ?thesis using io_only_trans [OF c] by (intro exI [of _ h'] exI [of _ "?ws @ [(DMA_COPY_STATUS, 8)]"]) (auto simp: copy_regs_def)
qed

lemma chain_copies_end:
  assumes "copies_end dev" "i < 512"
  shows "\<exists>h' ws. chain_copies v dev ring (of_nat i) ss h = Some (of_nat ((i + length ss) mod 512), h') \<and>
    io_only h h' ws \<and> fst ` set ws \<subseteq> copy_regs \<and> waits ws = length ss"
  using assms(2)
proof (induction ss arbitrary: i h)
  case Nil
  then show ?case by (intro exI [of _ h] exI [of _ "[]"]) (simp add: io_only_def waits_def)
next
  case (Cons s ss)
  let ?a = "ring + of_nat i * 24 + 12"
  let ?len = "if HOSTADPT_BUFFER_LEN v < c32 (s_seg s) then HOSTADPT_BUFFER_LEN v else c32 (s_seg s)"
  obtain h0 where rd: "ha_rd dev ?a h = (dev (h_io h) ?a, h0)" "io_only h h0 []" using ha_rd_eq io_only_rd by blast
  from one_copy [OF assms(1), of "s_src s" "dev (h_io h) ?a" ?len h0] obtain h1 ws1 where
    1: "host_out_wait dev (host_out_copy (s_src s) (dev (h_io h) ?a) ?len h0) = Some h1" "io_only h0 h1 ws1"
      "fst ` set ws1 \<subseteq> copy_regs" "waits ws1 = 1" by blast
  from Cons.IH [of "Suc i mod 512" h1] obtain h' ws2 where
    2: "chain_copies v dev ring (of_nat (Suc i mod 512)) ss h1 = Some (of_nat ((Suc i mod 512 + length ss) mod 512), h')"
      "io_only h1 h' ws2" "fst ` set ws2 \<subseteq> copy_regs" "waits ws2 = length ss" by auto
  have "chain_copies v dev ring (of_nat i) (s # ss) h = Some (of_nat ((i + length (s # ss)) mod 512), h')"
    using 1(1) 2(1) by (simp add: rd(1) Let_def next_slot_mod [OF Cons.prems] mod_add_left_eq)
  moreover have "io_only h h' (ws1 @ ws2)"
    using io_only_trans [OF rd(2) io_only_trans [OF 1(2) 2(2)]] by simp
  ultimately show ?case using 1(3,4) 2(3,4) by (intro exI [of _ h'] exI [of _ "ws1 @ ws2"]) auto
qed

section \<open>Addresses\<close>

lemma npu_alias_range: "2 ^ 30 \<le> unat (npu_alias b)" "unat (npu_alias b) < 2 ^ 31"
proof -
  have m: "(0x3FFFFFFF :: u32) = mask 30" "(0x40000000 :: u32) = push_bit 30 1"
    by (simp_all add: mask_eq_exp_minus_1 push_bit_eq_mult)
  have "npu_alias b = push_bit 30 1 OR take_bit 30 b"
    unfolding npu_alias_def m by (rule bit_word_eqI) (auto simp: bit_simps simp del: mask_numeral push_bit_numeral)
  also have "\<dots> = push_bit 30 1 + take_bit 30 b"
  proof (rule disjunctive_add [symmetric])
    fix n
    show "\<not> bit (push_bit 30 (1 :: u32)) n \<or> \<not> bit (take_bit 30 b) n"
      by (simp only: bit_push_bit_iff bit_take_bit_iff bit_1_iff) auto
  qed
  finally have e: "npu_alias b = 0x40000000 + take_bit 30 b" by (simp add: push_bit_eq_mult)
  have t: "unat (take_bit 30 b) < 2 ^ 30" using take_bit_nat_less_exp [of 30 "unat b"] by (simp add: unsigned_take_bit_eq)
  then have "unat (npu_alias b) = 0x40000000 + unat (take_bit 30 b)" unfolding e by (simp add: unat_word_ariths)
  with t show "2 ^ 30 \<le> unat (npu_alias b)" "unat (npu_alias b) < 2 ^ 31" by simp_all
qed

lemma unat_slot:
  assumes "unat ring < 2 ^ 31" "c < 24"
  shows "unat (in_ring ring k + of_nat c) = unat ring + k mod 512 * 24 + c"
proof -
  have "k mod 512 < 512" by simp
  then have "unat ring + k mod 512 * 24 + c < 2 ^ 32" using assms by simp
  moreover have e: "in_ring ring k + of_nat c = of_nat (unat ring + k mod 512 * 24 + c)" by (simp add: in_ring_def)
  ultimately show ?thesis unfolding e unat_of_nat by (simp only: take_bit_nat_eq_self mod_less len_of_numeral_defs) simp
qed

lemma next_slots_apart:
  fixes i j :: nat
  assumes "(i + j) mod 512 = i mod 512" "j < 512"
  shows "j = 0"
proof (rule ccontr)
  assume "j \<noteq> 0"
  moreover have "i mod 512 < 512" by simp
  moreover have "(i mod 512 + j) mod 512 = i mod 512" using assms(1) by (simp add: mod_add_left_eq)
  ultimately show False
    using assms(2) le_mod_geq [of 512 "i mod 512 + j"] by (cases "i mod 512 + j < 512") simp_all
qed

text \<open>The first word of a slot is no register and no other word of a nearby slot.\<close>

lemma slot_apart:
  assumes "2 ^ 30 \<le> unat ring" "unat ring < 2 ^ 31" "j < 512" "c < 24" "0 < j \<or> 0 < c"
  shows "in_ring ring (i + j) + of_nat c \<noteq> in_ring ring i" "in_ring ring k \<notin> copy_regs" "in_ring ring k \<noteq> HOSTADPT_RX_DMA_IDX 0"
    "in_ring ring k + of_nat c \<noteq> DMA_COPY_STATUS"
proof -
  note u = unat_slot [OF assms(2)]
  have z: "unat (in_ring ring n) = unat ring + n mod 512 * 24" for n using u [of 0 n] by simp
  show "in_ring ring (i + j) + of_nat c \<noteq> in_ring ring i"
  proof
    assume "in_ring ring (i + j) + of_nat c = in_ring ring i"
    then have e: "(i + j) mod 512 * 24 + c = i mod 512 * 24" using u [OF assms(4), of "i + j"] z [of i] by simp
    then have "c = 24 * (i mod 512) - 24 * ((i + j) mod 512)" by linarith
    then have "24 dvd c" by (simp add: diff_mult_distrib2 [symmetric])
    then have c: "c = 0" using assms(4) by (metis dvd_imp_le neq0_conv not_le)
    then have "(i + j) mod 512 = i mod 512" using e by simp
    then show False using next_slots_apart assms(3,5) c by blast
  qed
  have "2 ^ 30 \<le> unat (in_ring ring k)" "2 ^ 30 \<le> unat (in_ring ring k + of_nat c)" using z [of k] u [OF assms(4), of k] assms(1) by simp_all
  then show "in_ring ring k \<notin> copy_regs" "in_ring ring k \<noteq> HOSTADPT_RX_DMA_IDX 0" "in_ring ring k + of_nat c \<noteq> DMA_COPY_STATUS"
    by (auto simp: copy_regs_def DMA_COPY_SRC_def DMA_COPY_DST_def DMA_COPY_CTRL_def DMA_COPY_STATUS_def HOSTADPT_RX_DMA_IDX_def
        NPU_HOSTADPT_BASE_def)
qed

lemma take_past:
  assumes "a \<notin> fst ` set pre" "a \<noteq> fst z" "(a, x) \<in> set (take k (pre @ [(a, w), z]))"
  shows "\<exists>m. take k (pre @ [(a, w), z]) = pre @ (a, w) # take m [z]"
proof -
  have "length pre < k"
  proof (rule ccontr)
    assume "\<not> length pre < k"
    then have "(a, x) \<in> set pre" using assms(3) by (auto dest: in_set_takeD)
    then show False using assms(1) by force
  qed
  then have "k - length pre = Suc (k - length pre - 1)" by simp
  then show ?thesis by (metis append_Nil2 take_Suc_Cons take_all_iff take_append less_or_eq_imp_le \<open>length pre < k\<close>)
qed

section \<open>The first slot comes last\<close>

lemma seg_words_waits:
  assumes "\<And>c. c < 24 \<Longrightarrow> d + of_nat c \<noteq> DMA_COPY_STATUS"
  shows "waits (seg_words d s) = 0"
  using assms [of 0] assms [of 4] assms [of 8] by (simp add: waits_def seg_words_def)

lemma waits_concat: "(\<And>ws. ws \<in> set wss \<Longrightarrow> waits ws = 0) \<Longrightarrow> waits (concat wss) = 0"
  by (induction wss) (auto simp: waits_def)

text \<open>The words of a frame but the very first one, in the order they are stored, and that first one.\<close>

definition chain_rest :: "u32 \<Rightarrow> nat \<Rightarrow> host_seg list \<Rightarrow> (u32 \<times> u32) list" where
  "chain_rest ring i ss =
     concat (map (\<lambda>(j, s). seg_words (in_ring ring (i + j)) s) (rev (enumerate (Suc 0) (tl ss)))) @
     take 2 (seg_words (in_ring ring i) (hd ss))"

definition chain_first :: "u32 \<Rightarrow> nat \<Rightarrow> host_seg list \<Rightarrow> u32 \<times> u32" where
  "chain_first ring i ss = (in_ring ring i, snd (seg_words (in_ring ring i) (hd ss) ! 2))"

lemma seg_words_cut: "seg_words (in_ring ring i) (hd ss) = take 2 (seg_words (in_ring ring i) (hd ss)) @ [chain_first ring i ss]"
  by (simp add: seg_words_def chain_first_def)

lemma chain_words_cut:
  assumes "i < 512" "ss \<noteq> []" "length ss \<le> 510"
  shows "io_only h (fold (chain_words ring (of_nat i)) (rev (enumerate 0 ss)) h) (chain_rest ring i ss @ [chain_first ring i ss])"
proof -
  obtain s0 ss' where ss: "ss = s0 # ss'" using assms(2) by (cases ss) auto
  have slot: "ring + chain_slot (of_nat i) j * 24 = in_ring ring (i + j)" if "j < 512" for j
    using chain_slot_mod [OF assms(1) that] by (simp add: in_ring_def)
  have e: "map (\<lambda>(j, s). seg_words (ring + chain_slot (of_nat i) j * 24) s) (rev (enumerate (Suc 0) ss')) =
      map (\<lambda>(j, s). seg_words (in_ring ring (i + j)) s) (rev (enumerate (Suc 0) ss'))"
    using assms(3) ss slot by (intro map_cong) (auto simp: in_set_enumerate_eq)
  have "concat (map (\<lambda>(j, s). seg_words (ring + chain_slot (of_nat i) j * 24) s) (rev (enumerate 0 ss))) =
      chain_rest ring i ss @ [chain_first ring i ss]"
    using slot [of 0] seg_words_cut [of ring i ss] by (simp add: ss chain_rest_def e)
  then show ?thesis using chain_words_all [of h ring "of_nat i" "rev (enumerate 0 ss)"] by simp
qed

text \<open>Every word of every segment is among them.\<close>

lemma chain_rest_set:
  assumes "ss \<noteq> []"
  shows "set (chain_rest ring i ss) = (\<Union>j\<in>{1..<length ss}. set (seg_words (in_ring ring (i + j)) (ss ! j))) \<union>
    set (take 2 (seg_words (in_ring ring i) (hd ss)))"
proof -
  obtain s0 ss' where ss: "ss = s0 # ss'" using assms by (cases ss) auto
  have "set (enumerate (Suc 0) ss') = (\<lambda>j. (j, ss ! j)) ` {1..<length ss}"
    by (auto simp: in_set_enumerate_eq ss nth_Cons' image_iff)
  then have "set (map (\<lambda>(j, s). seg_words (in_ring ring (i + j)) s) (rev (enumerate (Suc 0) ss'))) =
      (\<lambda>j. seg_words (in_ring ring (i + j)) (ss ! j)) ` {1..<length ss}"
    by (simp add: image_image)
  then show ?thesis by (simp add: chain_rest_def ss del: set_map)
qed

lemma chain_all_words:
  assumes "j < length ss"
  shows "set (seg_words (in_ring ring (i + j)) (ss ! j)) \<subseteq> set (chain_rest ring i ss @ [chain_first ring i ss])"
proof (cases "j = 0")
  case True
  then have "ss ! j = hd ss" using assms by (cases ss) auto
  then show ?thesis using seg_words_cut [of ring i ss] True by (auto simp: chain_rest_def)
next
  case False
  then have "ss \<noteq> []" "j \<in> {1..<length ss}" using assms by auto
  then show ?thesis by (auto simp: chain_rest_set)
qed

lemma seg_words_apart:
  "d \<noteq> a \<Longrightarrow> d + 4 \<noteq> a \<Longrightarrow> d + 8 \<noteq> a \<Longrightarrow> a \<notin> fst ` set (seg_words d s)"
  by (auto simp: seg_words_def)

lemma chain_rest_apart:
  assumes "2 ^ 30 \<le> unat ring" "unat ring < 2 ^ 31" "ss \<noteq> []" "length ss \<le> 510"
  shows "in_ring ring i \<notin> fst ` set (chain_rest ring i ss)" "waits (chain_rest ring i ss) = 0"
proof -
  note away = slot_apart [OF assms(1,2)]
  have "in_ring ring i \<notin> fst ` set (seg_words (in_ring ring (i + j)) s)" if "j \<in> {1..<length ss}" for j s
    by (rule seg_words_apart)
      (use that assms(4) away(1) [of j 0 i] away(1) [of j 4 i] away(1) [of j 8 i] in simp_all)
  moreover have "in_ring ring i \<notin> fst ` set (take 2 (seg_words (in_ring ring i) (hd ss)))"
    using away(1) [of 0 4 i] away(1) [of 0 8 i] by (auto simp: seg_words_def)
  ultimately show "in_ring ring i \<notin> fst ` set (chain_rest ring i ss)"
    unfolding chain_rest_set [OF assms(3)] by (simp add: image_Un image_UN)
  have "(DMA_COPY_STATUS, 8) \<notin> set (seg_words (in_ring ring k) s)" for k s
    using away(4) [of 1 0 k] away(4) [of 1 4 k] away(4) [of 1 8 k] by (auto simp: seg_words_def)
  then have "(DMA_COPY_STATUS, 8) \<notin> set (chain_rest ring i ss)"
    unfolding chain_rest_set [OF assms(3)] by (auto dest: in_set_takeD)
  then show "waits (chain_rest ring i ss) = 0" by (auto simp: waits_def filter_empty_conv)
qed

lemma slot_past_mod: "i < 512 \<Longrightarrow> n \<le> 510 \<Longrightarrow> ring + slot_past (of_nat i) (of_nat n) * 24 = in_ring ring (i + Suc n)"
proof -
  assume "i < 512" "n \<le> 510"
  then have "chain_slot (of_nat i) (Suc n) = of_nat ((i + Suc n) mod 512)" by (intro chain_slot_mod) simp_all
  moreover have "slot_past (of_nat i) (of_nat n) = chain_slot (of_nat i) (Suc n)" by (simp add: slot_past_def chain_slot_def add_ac)
  ultimately show "ring + slot_past (of_nat i) (of_nat n) * 24 = in_ring ring (i + Suc n)" by (simp only: in_ring_def)
qed

text \<open>What a chained frame writes: everything but the first word, the first word, the index.\<close>

lemma chain_writes:
  assumes "copies_end dev" "hostadpt_tx_ring_base h = npu_alias b" "dev (h_io h) (HOSTADPT_RX_DMA_IDX 0) = of_nat i" "i < 512"
    and "ss \<noteq> []" "length ss \<le> 510"
  defines "ring \<equiv> npu_alias b"
  shows "\<exists>r h'. host_out_chain v dev ss h = Some (r, h') \<and>
    (r = - 1 \<and> writes (h_io h') = writes (h_io h) \<and>
       (wifi_debug_flags (h_ids h) AND 4 \<noteq> 0 \<or> (\<exists>tr. dev tr (in_ring ring (i + Suc (length ss))) AND 1 \<noteq> 0)) \<or>
     r = 0 \<and> (\<exists>ws1. writes (h_io h') = writes (h_io h) @ (ws1 @ chain_rest ring i ss) @
          [chain_first ring i ss, (HOSTADPT_RX_DMA_IDX 0, of_nat ((i + length ss) mod 512))] \<and>
        fst ` set ws1 \<subseteq> copy_regs \<and> waits ws1 = length ss))"
proof -
  obtain h0 where rd: "ha_rd dev (HOSTADPT_RX_DMA_IDX 0) h = (of_nat i, h0)" "io_only h h0 []"
    using ha_rd_eq [of dev _ h] io_only_rd assms(3) by metis
  let ?a = "ring + slot_past (of_nat i) (of_nat (length ss)) * 24"
  obtain h1 where own: "ha_rd dev ?a h0 = (dev (h_io h0) ?a, h1)" "io_only h0 h1 []" using ha_rd_eq io_only_rd by metis
  have base: "hostadpt_tx_ring_base h = ring" by (simp add: assms(2) ring_def)
  have quiet: "writes (h_io h0) = writes (h_io h)" "writes (h_io h1) = writes (h_io h)"
    using rd(2) own(2) by (simp_all add: io_only_def)
  from chain_copies_end [OF assms(1,4), of v ring ss h1] obtain h2 ws1 where
    c: "chain_copies v dev ring (of_nat i) ss h1 = Some (of_nat ((i + length ss) mod 512), h2)" "io_only h1 h2 ws1"
      "fst ` set ws1 \<subseteq> copy_regs" "waits ws1 = length ss" by blast
  let ?f = "fold (chain_words ring (of_nat i)) (rev (enumerate 0 ss)) h2"
  show ?thesis
  proof (cases "wifi_debug_flags (h_ids h0) AND 4 \<noteq> 0 \<or> dev (h_io h0) ?a AND 1 \<noteq> 0")
    case True
    then have "host_out_chain v dev ss h = Some (- 1, h0) \<or> host_out_chain v dev ss h = Some (- 1, h1)"
      by (auto simp: host_out_chain_def Let_def rd(1) own(1) base)
    moreover have "h_ids h0 = h_ids h" using rd(2) unfolding io_only_def by (metis host.select_convs(1) host.surjective host.update_convs(2))
    ultimately show ?thesis using quiet True slot_past_mod [OF assms(4,6), of ring] by auto
  next
    case False
    then have "host_out_chain v dev ss h = Some (0, ha_wr (HOSTADPT_RX_DMA_IDX 0) (of_nat ((i + length ss) mod 512)) ?f)"
      by (simp add: host_out_chain_def Let_def rd(1) own(1) base c(1))
    moreover have "writes (h_io (ha_wr (HOSTADPT_RX_DMA_IDX 0) (of_nat ((i + length ss) mod 512)) ?f)) =
        writes (h_io h) @ (ws1 @ chain_rest ring i ss) @
          [chain_first ring i ss, (HOSTADPT_RX_DMA_IDX 0, of_nat ((i + length ss) mod 512))]"
      using chain_words_cut [OF assms(4-6), of h2 ring] c(2) quiet(2) by (simp add: io_only_def ha_wr_def reg_wr_def)
    ultimately show ?thesis using c(3,4) by blast
  qed
qed

text \<open>
  C37. The host never sees half a frame. \<open>host_out_chain\<close> returns whatever the copy engine's pace, and either refuses
  the frame without a write, which needs counters on or the slot one past the frame taken, or writes it so that at every moment the first slot's word (which carries the
  ready bit) is in the ring, the words of all other slots are too and the copies of all segments have
  ended; the index register follows last, past the last slot of the frame.
\<close>

theorem chain_first_slot_last:
  assumes "copies_end dev" "hostadpt_tx_ring_base h = npu_alias b" "dev (h_io h) (HOSTADPT_RX_DMA_IDX 0) = of_nat i" "i < 512"
    and "ss \<noteq> []" "length ss \<le> 510"
  shows "\<exists>r h' ws. host_out_chain v dev ss h = Some (r, h') \<and> writes (h_io h') = writes (h_io h) @ ws \<and>
    (if r \<noteq> 0 then r = - 1 \<and> ws = [] \<and>
       (wifi_debug_flags (h_ids h) AND 4 \<noteq> 0 \<or> (\<exists>tr. dev tr (in_ring (npu_alias b) (i + Suc (length ss))) AND 1 \<noteq> 0))
     else last ws = (HOSTADPT_RX_DMA_IDX 0, of_nat ((i + length ss) mod 512)) \<and>
       (\<forall>k x. (in_ring (npu_alias b) i, x) \<in> set (take k ws) \<longrightarrow>
          (\<forall>j<length ss. set (seg_words (in_ring (npu_alias b) (i + j)) (ss ! j)) \<subseteq> set (take k ws)) \<and>
          waits (take k ws) = length ss))"
proof -
  let ?ring = "npu_alias b" and ?idx = "(HOSTADPT_RX_DMA_IDX 0, of_nat ((i + length ss) mod 512))"
  note range = npu_alias_range [of b]
  note rest = chain_rest_apart [OF range assms(5,6), of i]
  from chain_writes [OF assms, of v] obtain r h' where run: "host_out_chain v dev ss h = Some (r, h')"
    and d: "r = - 1 \<and> writes (h_io h') = writes (h_io h) \<and>
        (wifi_debug_flags (h_ids h) AND 4 \<noteq> 0 \<or> (\<exists>tr. dev tr (in_ring ?ring (i + Suc (length ss))) AND 1 \<noteq> 0)) \<or> r = 0 \<and> (\<exists>ws1. writes (h_io h') = writes (h_io h) @
        (ws1 @ chain_rest ?ring i ss) @ [chain_first ?ring i ss, ?idx] \<and> fst ` set ws1 \<subseteq> copy_regs \<and> waits ws1 = length ss)" by blast
  show ?thesis
  proof (cases "r = 0")
    case False
    then show ?thesis using run d by (intro exI [of _ r] exI [of _ h'] exI [of _ "[]"]) simp
  next
    case True
    then obtain ws1 where w: "r = 0" "writes (h_io h') = writes (h_io h) @ (ws1 @ chain_rest ?ring i ss) @ [chain_first ?ring i ss, ?idx]"
      "fst ` set ws1 \<subseteq> copy_regs" "waits ws1 = length ss" using d by auto
    let ?pre = "ws1 @ chain_rest ?ring i ss"
    have pre: "in_ring ?ring i \<notin> fst ` set ?pre"
      using rest(1) w(3) slot_apart(2) [OF range, of 1 0 i] by auto
    have idx: "in_ring ?ring i \<noteq> fst ?idx" using slot_apart(3) [OF range, of 1 0 i] by simp
    have "(\<forall>j<length ss. set (seg_words (in_ring ?ring (i + j)) (ss ! j)) \<subseteq> set (take k (?pre @ [chain_first ?ring i ss, ?idx]))) \<and>
        waits (take k (?pre @ [chain_first ?ring i ss, ?idx])) = length ss"
      if at: "(in_ring ?ring i, x) \<in> set (take k (?pre @ [chain_first ?ring i ss, ?idx]))" for k x
    proof -
      from take_past [OF pre idx at [unfolded chain_first_def]] obtain n where
        t: "take k (?pre @ [chain_first ?ring i ss, ?idx]) = ?pre @ chain_first ?ring i ss # take n [?idx]"
        by (auto simp: chain_first_def)
      have "waits (chain_first ?ring i ss # take n [?idx]) = 0"
        using slot_apart(4) [OF range, of 1 0 i] by (cases n) (auto simp: waits_def chain_first_def HOSTADPT_RX_DMA_IDX_def NPU_HOSTADPT_BASE_def DMA_COPY_STATUS_def)
      then show ?thesis unfolding t using chain_all_words [of _ ss ?ring i] rest(2) w(4) by fastforce
    qed
    then show ?thesis using run w(1,2)
      by (intro exI [of _ r] exI [of _ h'] exI [of _ "?pre @ [chain_first ?ring i ss, ?idx]"]) simp
  qed
qed

definition host_reset :: "bufids \<Rightarrow> host" where
  "host_reset ids = \<lparr>h_ids = ids\<lparr>wifi_debug_flags := 0\<rparr>, h_io = [], hostadpt_tx_ring_base = npu_alias 0x80001000,
     hostadpt_rx_ring_base = npu_alias 0x80004000, hostadpt_tx_ring_ready = 1, hostadpt_in_base = (0, 0), hostadpt_in_size = (0, 0)\<rparr>"

text \<open>Two segments from slot 511 on, the ring empty and the engine done at once.\<close>

definition ring_dev :: device where
  "ring_dev tr a = (if a = HOSTADPT_RX_DMA_IDX 0 then 511 else if a = DMA_COPY_STATUS then 8 else 0)"

theorem chain_first_slot_last_witness:
  "\<exists>h' ws. host_out_chain \<lparr>v_soc = AN7583, v_wifi = MT7993, v_clanker = True\<rparr> ring_dev
      [\<lparr>s_src = 0x80010000, s_info = 0, s_frame = 3000, s_seg = 1792, s_fwd_type = 9, s_last = 0\<rparr>,
       \<lparr>s_src = 0x80010700, s_info = 0, s_frame = 3000, s_seg = 1208, s_fwd_type = 10, s_last = 1\<rparr>] (host_reset bufids_reset) = Some (0, h') \<and>
    writes (h_io h') = ws \<and> last ws = (HOSTADPT_RX_DMA_IDX 0, 1) \<and>
    (\<forall>k x. (in_ring (npu_alias 0x80001000) 511, x) \<in> set (take k ws) \<longrightarrow> waits (take k ws) = 2)"
proof -
  let ?ss = "[\<lparr>s_src = 0x80010000, s_info = 0, s_frame = 3000, s_seg = 1792, s_fwd_type = 9, s_last = 0\<rparr>,
       \<lparr>s_src = 0x80010700, s_info = 0, s_frame = 3000, s_seg = 1208, s_fwd_type = 10, s_last = 1\<rparr>]"
    and ?v = "\<lparr>v_soc = AN7583, v_wifi = MT7993, v_clanker = True\<rparr>" and ?h = "host_reset bufids_reset"
  have "copies_end ring_dev" unfolding copies_end_def
    by (intro allI exI [of _ 0]) (simp add: ring_dev_def HOSTADPT_RX_DMA_IDX_def NPU_HOSTADPT_BASE_def DMA_COPY_STATUS_def)
  moreover have "hostadpt_tx_ring_base ?h = npu_alias 0x80001000" "ring_dev (h_io ?h) (HOSTADPT_RX_DMA_IDX 0) = of_nat 511"
    by (simp_all add: host_reset_def ring_dev_def)
  moreover have "(511 :: nat) < 512" "?ss \<noteq> []" "length ?ss \<le> 510" by simp_all
  ultimately obtain r h' ws where c: "host_out_chain ?v ring_dev ?ss ?h = Some (r, h')" "writes (h_io h') = writes (h_io ?h) @ ws"
    "if r \<noteq> 0 then r = - 1 \<and> ws = [] \<and>
       (wifi_debug_flags (h_ids ?h) AND 4 \<noteq> 0 \<or> (\<exists>tr. ring_dev tr (in_ring (npu_alias 0x80001000) (511 + Suc (length ?ss))) AND 1 \<noteq> 0))
     else last ws = (HOSTADPT_RX_DMA_IDX 0, of_nat ((511 + length ?ss) mod 512)) \<and>
       (\<forall>k x. (in_ring (npu_alias 0x80001000) 511, x) \<in> set (take k ws) \<longrightarrow>
          (\<forall>j<length ?ss. set (seg_words (in_ring (npu_alias 0x80001000) (511 + j)) (?ss ! j)) \<subseteq> set (take k ws)) \<and>
          waits (take k ws) = length ?ss)"
    using chain_first_slot_last [of ring_dev ?h "0x80001000" 511 ?ss ?v] by blast
  have free: "ring_dev tr (in_ring (npu_alias 0x80001000) k) AND 1 = 0" for tr k
    using slot_apart(3) [OF npu_alias_range, where j = 1 and c = 0 and k = k] slot_apart(4) [OF npu_alias_range, where j = 1 and c = 0 and k = k]
    by (simp add: ring_dev_def)
  have "wifi_debug_flags (h_ids ?h) AND 4 = 0" "writes (h_io ?h) = []" by (simp_all add: host_reset_def)
  then show ?thesis using c free by (intro exI [of _ h'] exI [of _ ws]) (auto split: if_splits)
qed

end
