(* ===== verification/Fwd_Fifo.thy ===== *)
theory Fwd_Fifo
  imports Fwd Host_Chain
begin

text \<open>
  The ring of whole frames of \<open>npu_wifi_fwd.c\<close> is a queue: whatever the cores do to the two bands, frames
  leave it in the order they entered, none is lost or doubled, and it refuses one only when full.
\<close>

section \<open>The ring as a list\<close>

definition pin_view :: "fband \<Rightarrow> pinode list \<times> u16 \<times> u16" where
  "pin_view b = (pinodes b, pinode_widx b, pinode_ridx b)"

definition pin_ready :: "pinode \<Rightarrow> bool" where "pin_ready n \<longleftrightarrow> p_flags n AND 1 \<noteq> 0"

text \<open>A ring of \<open>n\<close> slots that holds the frames \<open>q\<close>, the oldest at the read index.\<close>

definition pin_held :: "nat \<Rightarrow> fband \<Rightarrow> pinode list \<Rightarrow> bool" where
  "pin_held n b q \<longleftrightarrow>
     (let (ns, w, r) = pin_view b
      in length ns = n \<and> unat r < n \<and> length q \<le> n \<and> unat w = (unat r + length q) mod n \<and>
         (\<forall>j<n. if j < length q then ns ! ((unat r + j) mod n) = q ! j \<and> pin_ready (q ! j)
                else \<not> pin_ready (ns ! ((unat r + j) mod n))))"

lemma pin_held_cong: "pin_view b = pin_view b' \<Longrightarrow> pin_held n b q = pin_held n b' q"
  by (simp add: pin_held_def)

lemma pin_view_sel: "pin_view b = pin_view b' \<longleftrightarrow>
    pinodes b = pinodes b' \<and> pinode_widx b = pinode_widx b' \<and> pinode_ridx b = pinode_ridx b'"
  by (simp add: pin_view_def)

lemma unat_ring_inc:
  assumes "unat i < n" "n \<le> 512"
  shows "unat (ring_inc n i) = (unat i + 1) mod n"
proof -
  have u: "unat (i + 1) = unat i + 1" "unat (of_nat n :: u16) = n"
    using assms by (simp_all add: unat_word_ariths unat_of_nat)
  then have "i + 1 = of_nat n \<longleftrightarrow> unat i + 1 = n" by (simp add: word_unat_eq_iff)
  then show ?thesis using assms u by (auto simp: ring_inc_def)
qed

lemma slot_eq_iff:
  assumes "j < n" "k < n"
  shows "(r + j) mod n = (r + k) mod n \<longleftrightarrow> j = (k :: nat)"
proof
  assume e: "(r + j) mod n = (r + k) mod n"
  show "j = k"
  proof (cases "j \<le> k")
    case True
    then have "n dvd k - j" using e mod_eq_dvd_iff_nat [of "r + j" "r + k" n] by simp
    then show ?thesis using True assms by (auto dest: dvd_imp_le)
  next
    case False
    then have "n dvd j - k" using e mod_eq_dvd_iff_nat [of "r + k" "r + j" n] by simp
    then show ?thesis using False assms by (auto dest: dvd_imp_le)
  qed
qed simp

lemma pin_full:
  assumes "pin_held n b q" "0 < n"
  shows "pin_ready (pinodes b ! unat (pinode_widx b)) \<longleftrightarrow> length q = n"
proof -
  note h = assms(1) [unfolded pin_held_def pin_view_def Let_def prod.case]
  show ?thesis
  proof (cases "length q = n")
    case True
    then have "unat (pinode_widx b) = (unat (pinode_ridx b) + 0) mod n" using h by simp
    then show ?thesis using h True assms(2) by (metis gr0_conv_Suc zero_less_Suc)
  next
    case False
    then have "length q < n" using h by simp
    then show ?thesis using h False by fastforce
  qed
qed

lemma pin_put:
  assumes "pin_held n b q" "n \<le> 512" "length q < n" "pin_ready x"
    and "pin_view b' = ((pinodes b)[unat (pinode_widx b) := x], ring_inc n (pinode_widx b), pinode_ridx b)"
  shows "pin_held n b' (q @ [x])"
proof -
  note h = assms(1) [unfolded pin_held_def pin_view_def Let_def prod.case]
  let ?r = "unat (pinode_ridx b)"
  have w: "unat (pinode_widx b) = (?r + length q) mod n" "unat (pinode_widx b) < n" using h assms(3) by auto
  have "unat (ring_inc n (pinode_widx b)) = (?r + length (q @ [x])) mod n"
    using unat_ring_inc [OF w(2) assms(2)] w(1) by (simp add: mod_Suc_eq)
  moreover have "(pinodes b)[unat (pinode_widx b) := x] ! ((?r + j) mod n) = (if j = length q then x else pinodes b ! ((?r + j) mod n))"
    if "j < n" for j
    using slot_eq_iff [OF that assms(3), of ?r] w h by (auto simp: nth_list_update)
  ultimately show ?thesis
    using h assms(3,4) unfolding pin_held_def assms(5) Let_def prod.case by (auto simp: nth_append)
qed

lemma pin_take:
  assumes "pin_held n b (x # q)" "n \<le> 512" "\<not> pin_ready y"
    and "pin_view b' = ((pinodes b)[unat (pinode_ridx b) := y], pinode_widx b, ring_inc n (pinode_ridx b))"
  shows "pin_held n b' q"
proof -
  note h = assms(1) [unfolded pin_held_def pin_view_def Let_def prod.case]
  let ?r = "unat (pinode_ridx b)"
  have r: "?r < n" "length q < n" using h by auto
  have inc: "unat (ring_inc n (pinode_ridx b)) = (?r + 1) mod n" by (rule unat_ring_inc [OF r(1) assms(2)])
  have slot: "((?r + 1) mod n + j) mod n = (?r + Suc j) mod n" for j by (simp add: mod_add_left_eq)
  have all: "if j < length q then (pinodes b)[?r := y] ! ((?r + Suc j) mod n) = q ! j \<and> pin_ready (q ! j)
      else \<not> pin_ready ((pinodes b)[?r := y] ! ((?r + Suc j) mod n))" if j: "j < n" for j
  proof (cases "Suc j = n")
    case True
    then have "(?r + Suc j) mod n = ?r" using r(1) by simp
    then show ?thesis using h r True assms(3) by auto
  next
    case False
    then have "(?r + Suc j) mod n \<noteq> ?r" using slot_eq_iff [of "Suc j" n 0 ?r] j r(1) by simp
    then show ?thesis using h False j by (auto dest: spec [of _ "Suc j"])
  qed
  have w: "unat (pinode_widx b) = ((?r + 1) mod n + length q) mod n" using h slot by simp
  show ?thesis
    unfolding pin_held_def assms(4) Let_def prod.case inc slot
  proof (intro conjI allI impI)
    show "if j < length q then (pinodes b)[?r := y] ! ((?r + Suc j) mod n) = q ! j \<and> pin_ready (q ! j)
      else \<not> pin_ready ((pinodes b)[?r := y] ! ((?r + Suc j) mod n))" if "j < n" for j by (rule all [OF that])
  qed (use h r w in simp_all)
qed

section \<open>What leaves the ring alone\<close>

definition pins :: "u32 \<Rightarrow> fwd \<Rightarrow> pinode list \<times> u16 \<times> u16" where "pins band f = pin_view (get_band band f)"

lemma pins_simps [simp]:
  "pins band (f\<lparr>f_host := h\<rparr>) = pins band f" "pins band (upd_ids g f) = pins band f" "pins band (fwd_cnt a off f) = pins band f"
  "pins band (fwd_buf_free v a i f) = pins band f" "pins band (snd (fwd_rd dev a f)) = pins band f"
  by (simp_all add: pins_def get_band_def upd_ids_def fwd_cnt_def fwd_buf_free_def fwd_rd_def Let_def split: prod.split)

lemma pins_upd: "pins band (upd_band a g f) =
    (if (a = 0) = (band = 0) then pin_view (g (get_band a f)) else pins band f)"
  by (auto simp: pins_def upd_band_def get_band_def)

lemma pins_upd_same: "(\<And>b. pin_view (g b) = pin_view b) \<Longrightarrow> pins band (upd_band a g f) = pins band f"
  by (auto simp: pins_def upd_band_def get_band_def)

lemma pins_rd: "fwd_rd dev a f = (x, f') \<Longrightarrow> pins band f' = pins band f"
  using pins_simps(5) [of band dev a f] by simp

lemma pins_stats: "pins band (queue_stats dev buf a len tun f) = pins band f"
proof -
  obtain x f' where "fwd_rd dev (fwd_pkt_va buf f + 0x88) f = (x, f')" by force
  then show ?thesis using pins_rd [of dev "fwd_pkt_va buf f + 0x88" f x f' band]
    by (simp add: queue_stats_def Let_def pins_upd_same pin_view_def)
qed

lemma pins_segment: "pins band (snd (forward_segment buf len a t orig f)) = pins band f"
  by (simp add: forward_segment_def Let_def pins_upd_same pin_view_def)

lemma pins_submit: "rxnode_submit v dev n a f = Some (r, f') \<Longrightarrow> pins band f' = pins band f"
  by (auto simp: rxnode_submit_def)

lemma pins_retry: "rxnode_retry v dev k n a cb f = Some f' \<Longrightarrow> pins band f' = pins band f"
proof (induction k arbitrary: f)
  case (Suc k)
  then obtain r f1 where s: "rxnode_submit v dev n a f = Some (r, f1)"
    and t: "(if r = 0 then Some (fwd_cnt cb 188 f1) else rxnode_retry v dev k n a cb f1) = Some f'"
    by (auto simp: Option.bind_eq_Some_conv)
  have "pins band f' = pins band f1" using t Suc.IH [of f1] by (cases "r = 0") auto
  then show ?case using pins_submit [OF s, of band] by simp
qed simp

lemma pins_hand: "rxnode_hand v dev n a cb f = Some f' \<Longrightarrow> pins band f' = pins band f"
proof -
  assume "rxnode_hand v dev n a cb f = Some f'"
  then obtain r f1 where s: "rxnode_submit v dev n a f = Some (r, f1)"
    and t: "(if r \<noteq> 0 then rxnode_retry v dev (unat (f_retry_limit f1)) n a cb (fwd_cnt cb 136 f1) else Some (fwd_cnt cb 0xBC f1)) = Some f'"
    by (auto simp: rxnode_hand_def Option.bind_eq_Some_conv)
  have "pins band f' = pins band f1"
    using t pins_retry [of v dev _ n a cb "fwd_cnt cb 136 f1" f' band] by (cases "r = 0") auto
  then show ?thesis using pins_submit [OF s, of band] by simp
qed

lemma pins_process: "rxnode_process v dev s a cb k i f = Some (i', f') \<Longrightarrow> pins band f' = pins band f"
proof (induction k arbitrary: i f)
  case (Suc k)
  let ?n = "rxnodes (get_band a f) ! unat i"
  from Suc.prems obtain f1 where
    h: "(if s then rxnode_hand v dev ?n a cb f else Some f) = Some f1"
    and r: "rxnode_process v dev s a cb k (ring_inc RXNODE_RING_SIZE i) (fwd_cnt cb 192
       (upd_band a (\<lambda>b. b\<lparr>rxnodes := (rxnodes b)[unat i := rxnode_clear ?n]\<rparr>) (fwd_buf_free v a (r_buf ?n) f1))) = Some (i', f')"
    by (auto simp: Let_def Option.bind_eq_Some_conv)
  have "pins band f1 = pins band f" using h pins_hand [where band = band] by (auto split: if_splits)
  then show ?case using Suc.IH [OF r] by (simp add: pins_upd_same pin_view_def)
qed simp

lemma pins_scan: "pins band (snd (rxnode_scan others a cb lim scan tries segs f)) = pins band f"
proof (induction others a cb lim scan tries segs f rule: rxnode_scan.induct)
  case (1 others a cb lim scan tries segs f)
  show ?case
    using 1 by (subst rxnode_scan.simps) (auto simp: Let_def pins_upd_same pin_view_def)
qed

lemma pins_rx_drain: "rxnode_drain v dev others a f = Some f' \<Longrightarrow> pins band f' = pins band f"
proof -
  assume r: "rxnode_drain v dev others a f = Some f'"
  let ?sc = "rxnode_scan others a (bit_of (a = 1)) (unat (f_retry_limit f)) (rxnode_ridx (get_band a f)) 0 0 f"
  obtain k s f1 where sc: "?sc = ((k, s), f1)" by (metis surj_pair)
  have "pins band f1 = pins band f" using pins_scan [of band others a "bit_of (a = 1)" "unat (f_retry_limit f)" _ 0 0 f] sc by (metis snd_conv)
  then show ?thesis
    using r sc by (auto simp: rxnode_drain_def Let_def pins_upd_same pin_view_def dest!: pins_process [where band = band] split: if_splits)
qed

section \<open>Entering and leaving\<close>

lemma whole_node_ready: "pin_ready (whole_node buf len wcid amsdu ty orig cls)"
proof -
  have "bit ((ty OR 1) AND 1) 0" for ty :: u8 by (simp add: bit_simps)
  then show ?thesis by (auto simp: pin_ready_def whole_node_def)
qed

lemma cleared_not_ready: "\<not> pin_ready (pinode_clear n)"
  by (simp add: pin_ready_def pinode_clear_def)

lemma forward_whole_cases:
  assumes "forward_whole v a n f = (r, f')"
  shows "if pin_ready (pinodes (get_band a f) ! unat (pinode_widx (get_band a f))) then r = 1 \<and> pins band f' = pins band f
    else r = 0 \<and> pins band f' = (if (a = 0) = (band = 0)
      then ((pinodes (get_band a f))[unat (pinode_widx (get_band a f)) := n],
            ring_inc (PINODE_RING_SIZE a) (pinode_widx (get_band a f)), pinode_ridx (get_band a f))
      else pins band f)"
  using assms
  by (auto simp: forward_whole_def Let_def pin_ready_def pins_def pin_view_def upd_ids_def get_band_def upd_band_def fwd_cnt_def
      split: if_splits)

lemma forward_pins:
  assumes "pkt_forward v dev buf len wcid amsdu a ty orig cls tun f = (r, f')"
  shows "if orig = len
    then (if pin_ready (pinodes (get_band a f) ! unat (pinode_widx (get_band a f))) then r = 1 \<and> pins band f' = pins band f
      else r = 0 \<and> pins band f' = (if (a = 0) = (band = 0)
        then ((pinodes (get_band a f))[unat (pinode_widx (get_band a f)) := whole_node buf len wcid amsdu ty orig cls],
              ring_inc (PINODE_RING_SIZE a) (pinode_widx (get_band a f)), pinode_ridx (get_band a f))
        else pins band f))
    else pins band f' = pins band f"
proof (cases "orig = len")
  case True
  obtain r1 f1 where w: "forward_whole v a (whole_node buf len wcid amsdu ty orig cls) f = (r1, f1)" by force
  then have "r = (if r1 \<noteq> 0 then r1 else 0)" "f' = (if r1 \<noteq> 0 then f1 else queue_stats dev buf a orig tun f1)"
    using assms True by (auto simp: pkt_forward_def split: if_splits)
  then show ?thesis using forward_whole_cases [OF w, of band] True by (auto simp: pins_stats split: if_splits)
next
  case False
  obtain r1 f1 where w: "forward_segment buf len a ty orig f = (r1, f1)" by force
  then have "f' = (if r1 \<noteq> 0 then f1 else queue_stats dev buf a orig tun f1)"
    using assms False by (auto simp: pkt_forward_def split: if_splits)
  then show ?thesis using pins_segment [of band buf len a ty orig f] False w by (auto simp: pins_stats)
qed

lemma drain_pins:
  assumes "pinode_drain v dev a f = Some f'"
  shows "pins band f' = (if (a = 0) = (band = 0) \<and> pin_ready (pinodes (get_band a f) ! unat (pinode_ridx (get_band a f)))
    then ((pinodes (get_band a f))[unat (pinode_ridx (get_band a f)) := pinode_clear (pinodes (get_band a f) ! unat (pinode_ridx (get_band a f)))],
          pinode_widx (get_band a f), ring_inc (PINODE_RING_SIZE a) (pinode_ridx (get_band a f)))
    else pins band f)"
proof -
  let ?b = "get_band a f"
  let ?e = "pinodes ?b ! unat (pinode_ridx ?b)"
  define fin where "fin f = fwd_cnt (bit_of (a = 1)) 20 (upd_band a (\<lambda>b. b\<lparr>pinode_ridx := ring_inc (PINODE_RING_SIZE a) (pinode_ridx ?b)\<rparr>)
      (upd_band a (\<lambda>b. b\<lparr>pinodes := (pinodes b)[unat (pinode_ridx ?b) := pinode_clear ?e]\<rparr>) f))" for f
  have fin: "pins band (fin f1) = (if (a = 0) = (band = 0) then ((pinodes ?b)[unat (pinode_ridx ?b) := pinode_clear ?e], pinode_widx ?b,
      ring_inc (PINODE_RING_SIZE a) (pinode_ridx ?b)) else pins band f)" if "\<And>c. pins c f1 = pins c f" for f1
    using that [of a] that [of band] by (auto simp: fin_def pins_upd) (auto simp: pins_def pin_view_def get_band_def upd_band_def)
  show ?thesis
  proof (cases "pin_ready ?e")
    case False
    then show ?thesis using assms by (auto simp: pinode_drain_def Let_def pin_ready_def)
  next
    case True
    then have "\<exists>f1. f' = fin f1 \<and> (\<forall>c. pins c f1 = pins c f)"
      using assms by (auto simp: pinode_drain_def Let_def pin_ready_def fin_def split: if_splits)
    then show ?thesis using fin True by auto
  qed
qed

section \<open>A drain returns\<close>

lemma ring_submit_ends:
  assumes "copies_end dev"
  shows "\<exists>r h'. host_ring_submit v dev buf len a wcid amsdu ty orig lst info h = Some (r, h')"
proof -
  have copy: "\<exists>h'. bridge_dma_copy dev 3 src dst n h1 = Some h'" for src dst n h1
  proof -
    obtain k where "dev (polled dev k (h_io (copy_start 3 src dst n h1))) DMA_COPY_STATUS AND 8 \<noteq> 0"
      using assms by (auto simp: copies_end_def)
    from copy_wait_ends [where h = "copy_start 3 src dst n h1" and k = k and dev = dev, OF this]
    show ?thesis by (auto simp: bridge_dma_copy_def)
  qed
  have "\<exists>h'. host_ring_write_desc v dev d buf len wcid amsdu ty orig lst info h1 = Some h'" for d h1
    using copy by (auto simp: host_ring_write_desc_def Let_def split: prod.split)
  then have "\<exists>r h'. host_ring_put v dev c base buf len wcid amsdu ty orig lst info h1 = Some (r, h')" for c base h1
    by (auto simp: host_ring_put_def Let_def split: prod.split)
  then show ?thesis by (auto simp: host_ring_submit_def Let_def)
qed

lemma drain_ends: "copies_end dev \<Longrightarrow> \<exists>f'. pinode_drain v dev a f = Some f'"
proof -
  assume "copies_end dev"
  let ?b = "get_band a f"
  let ?e = "pinodes ?b ! unat (pinode_ridx ?b)" and ?f = "fwd_cnt (bit_of (a = 1)) 36 f"
  obtain r h where "host_ring_submit v dev (wifi_pkt_dma (p_buf ?e) ?f) (p_len ?e) a (p_wcid ?e) (p_amsdu ?e)
      (drop_bit 2 (p_flags ?e)) (p_orig ?e) (drop_bit 1 (p_flags ?e) AND 1) (c32 (p_cls ?e)) (f_host ?f) = Some (r, h)"
    using ring_submit_ends [OF \<open>copies_end dev\<close>] by blast
  then show ?thesis by (simp add: pinode_drain_def Let_def)
qed

section \<open>The queue\<close>

text \<open>What a step of the receiving cores or of core 3 does to the whole frames of a band.\<close>

datatype pin_event = Entered pinode | Left pinode | Other

fun entered :: "pin_event list \<Rightarrow> pinode list" where
  "entered [] = []"
| "entered (Entered n # es) = n # entered es"
| "entered (_ # es) = entered es"

fun left_ring :: "pin_event list \<Rightarrow> pinode list" where
  "left_ring [] = []"
| "left_ring (Left n # es) = n # left_ring es"
| "left_ring (_ # es) = left_ring es"

definition head_of :: "u32 \<Rightarrow> fwd \<Rightarrow> pinode" where
  "head_of band f = pinodes (get_band band f) ! unat (pinode_ridx (get_band band f))"

inductive fwd_step :: "variant \<Rightarrow> device \<Rightarrow> u32 \<Rightarrow> fwd \<Rightarrow> pin_event \<Rightarrow> fwd \<Rightarrow> bool" for v dev band where
  forward: "pkt_forward v dev buf len wcid amsdu a ty orig cls tun f = (r, f') \<Longrightarrow>
    fwd_step v dev band f
      (if (a = 0) = (band = 0) \<and> orig = len \<and> r = 0 then Entered (whole_node buf len wcid amsdu ty orig cls) else Other) f'"
| drain: "pinode_drain v dev a f = Some f' \<Longrightarrow>
    fwd_step v dev band f (if (a = 0) = (band = 0) \<and> pin_ready (head_of band f) then Left (head_of band f) else Other) f'"
| segments: "rxnode_drain v dev others a f = Some f' \<Longrightarrow> fwd_step v dev band f Other f'"

inductive fwd_steps :: "variant \<Rightarrow> device \<Rightarrow> u32 \<Rightarrow> fwd \<Rightarrow> pin_event list \<Rightarrow> fwd \<Rightarrow> bool" for v dev band where
  none: "fwd_steps v dev band f [] f"
| more: "fwd_step v dev band f e f1 \<Longrightarrow> fwd_steps v dev band f1 es f' \<Longrightarrow> fwd_steps v dev band f (e # es) f'"

lemma band_size: "(a = 0) = (band = 0) \<Longrightarrow> PINODE_RING_SIZE a = PINODE_RING_SIZE band \<and> get_band a f = get_band band f"
  by (auto simp: PINODE_RING_SIZE_def get_band_def)

lemma ring_size: "0 < PINODE_RING_SIZE band" "PINODE_RING_SIZE band \<le> 512"
  by (simp_all add: PINODE_RING_SIZE_def)

lemma held_pins: "pins band f' = pins band f \<Longrightarrow> pin_held n (get_band band f') q = pin_held n (get_band band f) q"
  by (simp add: pins_def pin_held_def)

lemma held_head: "pin_held n (get_band band f) q \<Longrightarrow> 0 < n \<Longrightarrow> if q = [] then \<not> pin_ready (head_of band f) else pin_ready (head_of band f) \<and> head_of band f = hd q"
proof -
  assume h: "pin_held n (get_band band f) q" "0 < n"
  then have "if 0 < length q then pinodes (get_band band f) ! ((unat (pinode_ridx (get_band band f)) + 0) mod n) = q ! 0 \<and> pin_ready (q ! 0)
      else \<not> pin_ready (pinodes (get_band band f) ! ((unat (pinode_ridx (get_band band f)) + 0) mod n))"
    unfolding pin_held_def pin_view_def Let_def prod.case by blast
  moreover have "unat (pinode_ridx (get_band band f)) < n" using h by (simp add: pin_held_def pin_view_def)
  ultimately show ?thesis by (cases q) (simp_all add: head_of_def)
qed

lemma fwd_step_queue:
  assumes "fwd_step v dev band f e f'" "pin_held (PINODE_RING_SIZE band) (get_band band f) q"
  shows "\<exists>q'. pin_held (PINODE_RING_SIZE band) (get_band band f') q' \<and> q @ entered [e] = left_ring [e] @ q'"
  using assms(1)
proof cases
  case (forward buf len wcid amsdu a ty orig cls tun r)
  note fp = forward_pins [OF forward(2), of band]
  let ?n = "whole_node buf len wcid amsdu ty orig cls"
  show ?thesis
  proof (cases "(a = 0) = (band = 0) \<and> orig = len \<and> r = 0")
    case True
    then have b: "PINODE_RING_SIZE a = PINODE_RING_SIZE band" "get_band a f = get_band band f" using band_size [of a band f] True by blast+
    from fp True have free: "\<not> pin_ready (pinodes (get_band band f) ! unat (pinode_widx (get_band band f)))"
      and v: "pin_view (get_band band f') = ((pinodes (get_band band f))[unat (pinode_widx (get_band band f)) := ?n],
        ring_inc (PINODE_RING_SIZE band) (pinode_widx (get_band band f)), pinode_ridx (get_band band f))"
      unfolding b by (auto simp: pins_def split: if_splits)
    have "length q \<noteq> PINODE_RING_SIZE band" using pin_full [OF assms(2) ring_size(1)] free by simp
    then have "length q < PINODE_RING_SIZE band" using assms(2) by (simp add: pin_held_def pin_view_def)
    from pin_put [OF assms(2) ring_size(2) this whole_node_ready v] show ?thesis using forward(1) True by auto
  next
    case False
    then have "pins band f' = pins band f" using fp by (auto split: if_splits)
    then show ?thesis using held_pins [of band f' f] assms(2) forward(1) False by (intro exI [of _ q]) simp
  qed
next
  case (drain a)
  note d = drain_pins [OF drain(2), of band] and h = held_head [OF assms(2) ring_size(1)]
  show ?thesis
  proof (cases "(a = 0) = (band = 0) \<and> pin_ready (head_of band f)")
    case True
    then have b: "PINODE_RING_SIZE a = PINODE_RING_SIZE band" "get_band a f = get_band band f" using band_size [of a band f] True by blast+
    obtain q' where q: "q = head_of band f # q'" using h True by (cases q) (auto split: if_splits)
    have "pin_view (get_band band f') = ((pinodes (get_band band f))[unat (pinode_ridx (get_band band f)) := pinode_clear (head_of band f)],
        pinode_widx (get_band band f), ring_inc (PINODE_RING_SIZE band) (pinode_ridx (get_band band f)))"
      using d True unfolding b by (simp add: pins_def head_of_def)
    from pin_take [OF assms(2) [unfolded q] ring_size(2) cleared_not_ready this] show ?thesis using drain(1) True q by auto
  next
    case False
    then have "pins band f' = pins band f" using d band_size [of a band f] by (auto simp: head_of_def split: if_splits)
    then show ?thesis using held_pins [of band f' f] assms(2) drain(1) False by (intro exI [of _ q]) simp
  qed
next
  case (segments others a)
  then show ?thesis using held_pins [OF pins_rx_drain [OF segments(2), of band]] assms(2) by (intro exI [of _ q]) simp
qed

text \<open>
  C38. Whole frames leave in the order they entered. Whatever the cores forward and drain on the two bands, in any
  order, with segments between: the frames a band's ring held, then those it accepted, are those
  that left it, in that order, then those it holds; it refuses a whole frame exactly when it holds as many as it has
  slots; and a drain returns whatever the copy engine's pace.
\<close>

theorem whole_frames_fifo:
  assumes "fwd_steps v dev band f es f'" "pin_held (PINODE_RING_SIZE band) (get_band band f) q" "copies_end dev"
  shows "\<exists>q'. pin_held (PINODE_RING_SIZE band) (get_band band f') q' \<and> q @ entered es = left_ring es @ q' \<and>
    (\<forall>buf len wcid amsdu ty cls tun. fst (pkt_forward v dev buf len wcid amsdu band ty len cls tun f') =
       (if length q' = PINODE_RING_SIZE band then 1 else 0)) \<and>
    (\<exists>f''. pinode_drain v dev band f' = Some f'')"
proof -
  have "\<exists>q'. pin_held (PINODE_RING_SIZE band) (get_band band f') q' \<and> q @ entered es = left_ring es @ q'"
    using assms(1,2)
  proof (induction arbitrary: q)
    case (more f e f1 es f')
    from fwd_step_queue [OF more.hyps(1) more.prems] obtain q1 where
      1: "pin_held (PINODE_RING_SIZE band) (get_band band f1) q1" "q @ entered [e] = left_ring [e] @ q1" by blast
    from more.IH [OF 1(1)] obtain q' where "pin_held (PINODE_RING_SIZE band) (get_band band f') q'" "q1 @ entered es = left_ring es @ q'" by blast
    moreover have "entered (e # es) = entered [e] @ entered es" "left_ring (e # es) = left_ring [e] @ left_ring es"
      by (cases e; simp)+
    ultimately show ?case using 1(2) by (metis append.assoc)
  qed auto
  then obtain q' where q': "pin_held (PINODE_RING_SIZE band) (get_band band f') q'" "q @ entered es = left_ring es @ q'" by blast
  have "fst (pkt_forward v dev buf len wcid amsdu band ty len cls tun f') = (if length q' = PINODE_RING_SIZE band then 1 else 0)"
    for buf len wcid amsdu ty cls tun
    using forward_pins [OF prod.collapse [symmetric], where orig = len and band = band and a = band and f = f' and v = v and dev = dev and buf = buf and
        len = len and wcid = wcid and amsdu = amsdu and ty = ty and cls = cls and tun = tun] pin_full [OF q'(1) ring_size(1)]
    by (auto split: if_splits)
  then show ?thesis using q' drain_ends [OF assms(3), of v band f'] by blast
qed

text \<open>Empty rings, and one frame through the 2.4 GHz one.\<close>

definition fband_reset :: "nat \<Rightarrow> fband" where
  "fband_reset n = \<lparr>pinode_base = 0, pinodes = replicate n \<lparr>p_buf = 0xFFFFFFFF, p_wcid = 0, p_len = 0, p_orig = 0, p_flags = 0, p_amsdu = 0, p_cls = 0\<rparr>,
     pinode_widx = 0, pinode_ridx = 0, rxnode_base = 0,
     rxnodes = replicate 128 \<lparr>r_buf = 0xFFFFFFFF, r_len = 0, r_orig = 0, r_flags = 0\<rparr>, rxnode_widx = 0, rxnode_ridx = 0,
     stats_bytes = replicate 32 0, stats_pkts = replicate 32 0\<rparr>"

definition fwd_reset :: fwd where
  "fwd_reset = \<lparr>f_2g = fband_reset 256, f_5g = fband_reset 512, f_host = host_reset bufids_reset, f_pkt_buf_addr = 0x90000000,
     f_retry_limit = 3, queue_mutex_2g = 10\<rparr>"

lemma fwd_reset_held: "pin_held (PINODE_RING_SIZE 0) (get_band 0 fwd_reset) []"
  by (simp add: pin_held_def pin_view_def get_band_def fwd_reset_def fband_reset_def PINODE_RING_SIZE_def pin_ready_def)

theorem whole_frames_fifo_witness:
  "\<exists>f1 f2. let n = whole_node 7 1500 3 0 2 1500 0 in
     fwd_steps \<lparr>v_soc = AN7583, v_wifi = MT7996, v_clanker = True\<rparr> ring_dev 0 fwd_reset [Entered n] f1 \<and>
     pin_held 256 (get_band 0 f1) [n] \<and>
     fwd_steps \<lparr>v_soc = AN7583, v_wifi = MT7996, v_clanker = True\<rparr> ring_dev 0 fwd_reset [Entered n, Left n] f2 \<and>
     pin_held 256 (get_band 0 f2) []"
proof -
  let ?v = "\<lparr>v_soc = AN7583, v_wifi = MT7996, v_clanker = True\<rparr>" and ?n = "whole_node 7 1500 3 0 2 1500 0"
  have N: "PINODE_RING_SIZE 0 = 256" by (simp add: PINODE_RING_SIZE_def)
  have c: "copies_end ring_dev" unfolding copies_end_def
    by (intro allI exI [of _ 0]) (simp add: ring_dev_def HOSTADPT_RX_DMA_IDX_def NPU_HOSTADPT_BASE_def DMA_COPY_STATUS_def)
  obtain r f1 where f1: "pkt_forward ?v ring_dev 7 1500 3 0 0 2 1500 0 0 fwd_reset = (r, f1)" by force
  from whole_frames_fifo [OF fwd_steps.none fwd_reset_held c, of ?v]
  have "fst (pkt_forward ?v ring_dev 7 1500 3 0 0 2 1500 0 0 fwd_reset) = 0" by (auto simp: N)
  then have "r = 0" using f1 by simp
  then have s1: "fwd_step ?v ring_dev 0 fwd_reset (Entered ?n) f1" using fwd_step.forward [OF f1, of 0] by simp
  have t1: "fwd_steps ?v ring_dev 0 fwd_reset [Entered ?n] f1" by (rule fwd_steps.more [OF s1 fwd_steps.none])
  from whole_frames_fifo [OF t1 fwd_reset_held c] obtain f2 where h1: "pin_held 256 (get_band 0 f1) [?n]"
    and d: "pinode_drain ?v ring_dev 0 f1 = Some f2" by (auto simp: N)
  have "pin_ready (head_of 0 f1) \<and> head_of 0 f1 = ?n" using held_head [OF h1] by (simp add: whole_node_ready)
  then have s2: "fwd_step ?v ring_dev 0 f1 (Left ?n) f2" using fwd_step.drain [OF d, of 0] by (simp add: whole_node_ready)
  have t2: "fwd_steps ?v ring_dev 0 fwd_reset [Entered ?n, Left ?n] f2"
    by (rule fwd_steps.more [OF s1 fwd_steps.more [OF s2 fwd_steps.none]])
  from whole_frames_fifo [OF t2 fwd_reset_held c] have "pin_held 256 (get_band 0 f2) []" by (auto simp: N)
  then show ?thesis using t1 t2 h1 unfolding Let_def by blast
qed

end
