(* ===== verification/Printf.thy ===== *)
theory Printf
  imports Util Mutex
begin

text \<open>
  \<open>npu_printf.c\<close>: the formatter, the two consoles and the command line of the boot console. Characters are
  bytes, the format and \<open>%s\<close> arguments are read from memory; a string without an end, or a console that never
  gets ready, is \<open>None\<close>, more text than \<open>printf_buf\<close> holds a fault. Interrupts are off around a print and
  back on after it, which is left out.
\<close>

section \<open>Numbers\<close>

text \<open>The digits of a number, the last one first, as \<open>tmp\<close> holds them.\<close>

fun dec_digits :: "nat \<Rightarrow> u8 list" where
  "dec_digits n = of_nat (48 + n mod 10) # (if n div 10 = 0 then [] else dec_digits (n div 10))"

definition hex_char :: "bool \<Rightarrow> nat \<Rightarrow> u8" where
  "hex_char upper d = of_nat (if d < 10 then 48 + d else (if upper then 55 else 87) + d)"

fun hex_digits :: "bool \<Rightarrow> nat \<Rightarrow> u8 list" where
  "hex_digits upper n = hex_char upper (n mod 16) # (if n div 16 = 0 then [] else hex_digits upper (n div 16))"

declare dec_digits.simps [simp del] hex_digits.simps [simp del]

record fmt_spec =
  sp_left :: bool
  sp_zero :: bool
  sp_width :: int
  sp_ll :: bool

definition put_digits :: "bool \<Rightarrow> bool \<Rightarrow> int \<Rightarrow> u8 list \<Rightarrow> u8 list" where
  "put_digits left zero width tmp =
     (let pad = nat (width - int (length tmp))
      in (if left then [] else replicate pad (if zero then 0x30 else 0x20)) @ rev tmp @ (if left then replicate pad 0x20 else []))"

text \<open>The sign goes in front of zero padding.\<close>

definition put_signed :: "fmt_spec \<Rightarrow> bool \<Rightarrow> nat \<Rightarrow> u8 list" where
  "put_signed sp neg n =
     (let tmp = dec_digits n @ (if neg then [0x2D] else [])
      in if sp_zero sp \<and> \<not> sp_left sp \<and> last tmp = 0x2D
         then 0x2D # put_digits False True (sp_width sp - 1) (butlast tmp)
         else put_digits (sp_left sp) (sp_zero sp) (sp_width sp) tmp)"

definition arg64 :: "(nat \<Rightarrow> u32) \<Rightarrow> nat \<Rightarrow> u64" where
  "arg64 args i = ucast (args i) OR push_bit 32 (ucast (args (i + 1)))"

section \<open>Conversions\<close>

partial_function (option) str_bytes :: "mem \<Rightarrow> u32 \<Rightarrow> u8 list option" where
  "str_bytes m s = (if m s = 0 then Some [] else Option.bind (str_bytes m (s + 1)) (\<lambda>bs. Some (m s # bs)))"

partial_function (option) spec_width :: "mem \<Rightarrow> u32 \<Rightarrow> int \<Rightarrow> (u32 \<times> int) option" where
  "spec_width m f w = (if 0x30 \<le> m f \<and> m f \<le> 0x39 then spec_width m (f + 1) (w * 10 + (uint (m f) - 48)) else Some (f, w))"

definition spec_parse :: "mem \<Rightarrow> u32 \<Rightarrow> (fmt_spec \<times> u32) option" where
  "spec_parse m f =
     (let left = (m f = 0x2D); f = (if left then f + 1 else f);
          zero = (m f = 0x30); f = (if zero then f + 1 else f)
      in map_option (\<lambda>(f, w).
           (let ll = (m f = 0x6C \<and> m (f + 1) = 0x6C);
                f = (if m f = 0x6C then (if m (f + 1) = 0x6C then f + 2 else f + 1) else if m f = 0x7A then f + 1 else f)
            in (\<lparr>sp_left = left, sp_zero = zero, sp_width = w, sp_ll = ll\<rparr>, f)))
         (spec_width m f 0))"

definition conv_d :: "fmt_spec \<Rightarrow> (nat \<Rightarrow> u32) \<Rightarrow> nat \<Rightarrow> u8 list \<times> nat" where
  "conv_d sp args i =
     (if sp_ll sp
      then (let v = arg64 args i in (put_signed sp (v <s 0) (unat (if v <s 0 then 0 - v else v)), i + 2))
      else (let v = args i in (put_signed sp (v <s 0) (unat (if v <s 0 then 0 - v else v)), i + 1)))"

definition conv_u :: "fmt_spec \<Rightarrow> (nat \<Rightarrow> u32) \<Rightarrow> nat \<Rightarrow> u8 list \<times> nat" where
  "conv_u sp args i =
     (if sp_ll sp then (put_digits (sp_left sp) (sp_zero sp) (sp_width sp) (dec_digits (unat (arg64 args i))), i + 2)
      else (put_digits (sp_left sp) (sp_zero sp) (sp_width sp) (dec_digits (unat (args i))), i + 1))"

definition conv_x :: "bool \<Rightarrow> fmt_spec \<Rightarrow> (nat \<Rightarrow> u32) \<Rightarrow> nat \<Rightarrow> u8 list \<times> nat" where
  "conv_x upper sp args i =
     (if sp_ll sp then (put_digits (sp_left sp) (sp_zero sp) (sp_width sp) (hex_digits upper (unat (arg64 args i))), i + 2)
      else (put_digits (sp_left sp) (sp_zero sp) (sp_width sp) (hex_digits upper (unat (args i))), i + 1))"

definition null_text :: "u8 list" where "null_text = [0x28, 0x6E, 0x75, 0x6C, 0x6C, 0x29]"

definition conv_s :: "mem \<Rightarrow> fmt_spec \<Rightarrow> (nat \<Rightarrow> u32) \<Rightarrow> nat \<Rightarrow> (u8 list \<times> nat) option" where
  "conv_s m sp args i =
     map_option (\<lambda>s. (put_digits (sp_left sp) False (sp_width sp) (rev s), i + 1))
       (if args i = 0 then Some null_text else str_bytes m (args i))"

definition conv_p :: "(nat \<Rightarrow> u32) \<Rightarrow> nat \<Rightarrow> u8 list \<times> nat" where
  "conv_p args i =
     ([0x30, 0x78] @ map (\<lambda>k. hex_char False (unat (drop_bit (k * 4) (args i) AND 0xF))) (rev [0..<8]), i + 1)"

definition conv :: "mem \<Rightarrow> fmt_spec \<Rightarrow> u8 \<Rightarrow> (nat \<Rightarrow> u32) \<Rightarrow> nat \<Rightarrow> (u8 list \<times> nat) option" where
  "conv m sp c args i =
     (if c = 0x64 then Some (conv_d sp args i)
      else if c = 0x75 then Some (conv_u sp args i)
      else if c = 0x78 \<or> c = 0x58 then Some (conv_x (c = 0x58) sp args i)
      else if c = 0x73 then conv_s m sp args i
      else if c = 0x63 then Some ([c8 (args i)], i + 1)
      else if c = 0x70 then Some (conv_p args i)
      else if c = 0x25 then Some ([0x25], i)
      else Some ([0x25, c], i))"

text \<open>The bytes in front of the final zero.\<close>

partial_function (option) npu_vsprintf :: "mem \<Rightarrow> u32 \<Rightarrow> (nat \<Rightarrow> u32) \<Rightarrow> nat \<Rightarrow> u8 list \<Rightarrow> u8 list option" where
  "npu_vsprintf m f args i out =
     (if m f = 0 then Some out
      else if m f \<noteq> 0x25 then npu_vsprintf m (f + 1) args i (out @ [m f])
      else Option.bind (spec_parse m (f + 1)) (\<lambda>(sp, f).
           Option.bind (conv m sp (m f) args i) (\<lambda>(bs, i). npu_vsprintf m (f + 1) args i (out @ bs))))"

section \<open>The consoles\<close>

record console =
  con_io :: "access list"
  npu_printf_prefix :: u32
  printf_mutex_desc :: "u32 \<times> u32"
  uart_cmd_idx :: u32
  uart_cmd_buf :: "u8 list"

datatype printf_fault = Printf_buf_overflow

definition UART_TX_DATA :: u32 where "UART_TX_DATA = 0x1FBF0000"
definition UART_TX_STATUS :: u32 where "UART_TX_STATUS = 0x1FBF0000 + 0x014"
definition UART_TX_READY_BIT :: u32 where "UART_TX_READY_BIT = 0x20"
definition BOOT_UART_TX :: u32 where "BOOT_UART_TX = 0x1EC10000"
definition BOOT_UART_STATUS :: u32 where "BOOT_UART_STATUS = 0x1EC10000 + 0x014"
definition NPU_MIB :: "u32 \<Rightarrow> u32" where "NPU_MIB n = 0x1EC0C000 + 0x140 + push_bit 2 n"

definition con_rd :: "device \<Rightarrow> u32 \<Rightarrow> console \<Rightarrow> u32 \<times> console" where
  "con_rd dev a c = (let (v, io) = reg_rd dev a (con_io c) in (v, c\<lparr>con_io := io\<rparr>))"

definition con_wr :: "u32 \<Rightarrow> u32 \<Rightarrow> console \<Rightarrow> console" where
  "con_wr a v c = c\<lparr>con_io := reg_wr a v (con_io c)\<rparr>"

text \<open>A byte is given up after 200000 reads of the status.\<close>

fun uart_try :: "device \<Rightarrow> nat \<Rightarrow> u8 \<Rightarrow> console \<Rightarrow> console" where
  "uart_try dev 0 b c = c"
| "uart_try dev (Suc n) b c =
     (let (v, c) = con_rd dev UART_TX_STATUS c
      in if v AND UART_TX_READY_BIT = 0 then uart_try dev n b c else con_wr UART_TX_DATA (c32 b) c)"

definition uart_putc :: "device \<Rightarrow> u8 \<Rightarrow> console \<Rightarrow> console" where
  "uart_putc dev b c = uart_try dev 200000 b c"

fun uart_puts_raw :: "device \<Rightarrow> u8 list \<Rightarrow> console \<Rightarrow> console" where
  "uart_puts_raw dev [] c = c"
| "uart_puts_raw dev (b # bs) c =
     (if b = 0 then c
      else (let c = uart_putc dev b c; c = (if b = 0x0A then uart_putc dev 0x0D c else c) in uart_puts_raw dev bs c))"

definition printf_enable :: "bool \<Rightarrow> console \<Rightarrow> console" where
  "printf_enable on c = c\<lparr>npu_printf_prefix := bit_of on\<rparr>"

definition con_lock :: "variant \<Rightarrow> device \<Rightarrow> u32 \<Rightarrow> console \<Rightarrow> console" where
  "con_lock v dev hart c =
     c\<lparr>con_io := snd (hw_mutex_lock_pri v dev hart (fst (printf_mutex_desc c)) (snd (printf_mutex_desc c)) (con_io c))\<rparr>"

definition con_unlock :: "variant \<Rightarrow> u32 \<Rightarrow> console \<Rightarrow> console" where
  "con_unlock v hart c =
     c\<lparr>con_io := snd (hw_mutex_unlock_pri v hart (fst (printf_mutex_desc c)) (con_io c))\<rparr>"

definition printf_head :: "device \<Rightarrow> u32 \<Rightarrow> console \<Rightarrow> console" where
  "printf_head dev hart c =
     (if npu_printf_prefix c = 0 then c\<lparr>npu_printf_prefix := 1\<rparr>
      else uart_putc dev 0x5D (uart_putc dev (of_char (get_core_char hart)) (uart_putc dev 0x43 (uart_putc dev 0x5B c))))"

definition npu_printf :: "variant \<Rightarrow> device \<Rightarrow> u32 \<Rightarrow> mem \<Rightarrow> u32 \<Rightarrow> (nat \<Rightarrow> u32) \<Rightarrow> console \<Rightarrow> (printf_fault + (nat \<times> console)) option" where
  "npu_printf v dev hart m fmt args c =
     (let (off, c) = con_rd dev (NPU_MIB 21) c
      in if off \<noteq> 0 then Some (Inr (0, c))
         else map_option (\<lambda>bs.
           if 1024 \<le> length bs then Inl Printf_buf_overflow
           else Inr (length bs, con_unlock v hart (uart_puts_raw dev bs (printf_head dev hart (con_lock v dev hart c)))))
         (npu_vsprintf m fmt args 0 []))"

partial_function (option) boot_putc :: "device \<Rightarrow> u8 \<Rightarrow> console \<Rightarrow> console option" where
  "boot_putc dev b c =
     (let (v, c) = con_rd dev BOOT_UART_STATUS c
      in if v AND UART_TX_READY_BIT = 0 then boot_putc dev b c else Some (con_wr BOOT_UART_TX (c32 b) c))"

fun boot_puts :: "device \<Rightarrow> u8 list \<Rightarrow> console \<Rightarrow> console option" where
  "boot_puts dev [] c = Some c"
| "boot_puts dev (b # bs) c =
     (if b = 0 then Some c
      else Option.bind (if b = 0x0A then boot_putc dev 0x0D c else Some c) (\<lambda>c.
           Option.bind (boot_putc dev b c) (boot_puts dev bs)))"

definition boot_printf :: "variant \<Rightarrow> device \<Rightarrow> u32 \<Rightarrow> mem \<Rightarrow> u32 \<Rightarrow> (nat \<Rightarrow> u32) \<Rightarrow> console \<Rightarrow> (printf_fault + (nat \<times> console)) option" where
  "boot_printf v dev hart m fmt args c =
     Option.bind (npu_vsprintf m fmt args 0 []) (\<lambda>bs.
       if 1024 \<le> length bs then Some (Inl Printf_buf_overflow)
       else Option.bind (boot_puts dev ([0x5B, 0x43, of_char (get_core_char hart), 0x5D] @ bs) (con_lock v dev hart c)) (\<lambda>c.
            Some (Inr (length bs, con_unlock v hart c))))"

section \<open>The command line\<close>

definition hex_digit :: "u8 \<Rightarrow> u32 option" where
  "hex_digit b =
     (if 0x30 \<le> b \<and> b \<le> 0x39 then Some (c32 (b - 0x30))
      else if 0x41 \<le> b \<and> b \<le> 0x46 then Some (c32 (b - 0x41) + 10)
      else if 0x61 \<le> b \<and> b \<le> 0x66 then Some (c32 (b - 0x61) + 10)
      else None)"

text \<open>The digits at columns \<open>3..10\<close> (the address) and \<open>12..19\<close> (the value).\<close>

fun cmd_digits :: "u8 list \<Rightarrow> nat list \<Rightarrow> u32 \<times> u32 \<Rightarrow> (u32 \<times> u32) option" where
  "cmd_digits buf [] r = Some r"
| "cmd_digits buf (pos # ps) (addr, val) =
     (if pos = 11 then cmd_digits buf ps (addr, val)
      else (case hex_digit (buf ! pos) of
              None \<Rightarrow> None
            | Some d \<Rightarrow>
                if pos \<le> 10 then cmd_digits buf ps (addr OR push_bit (4 * (10 - pos)) d, val)
                else cmd_digits buf ps (addr, val OR push_bit (4 * (19 - pos)) d)))"

text \<open>One character; what it prints is left out, the read of the register is not.\<close>

definition uart_debug_cmd :: "device \<Rightarrow> u8 \<Rightarrow> console \<Rightarrow> console" where
  "uart_debug_cmd dev ch c =
     (let idx = uart_cmd_idx c
      in if 31 < idx then c\<lparr>uart_cmd_idx := 0\<rparr>
         else
           (let c = c\<lparr>uart_cmd_buf := (uart_cmd_buf c)[unat idx := ch]\<rparr>
            in if ch \<noteq> 0x0D then c\<lparr>uart_cmd_idx := idx + 1\<rparr>
               else
                 (let buf = uart_cmd_buf c; wr = (buf ! 0 = 0x77)
                  in if buf ! 1 \<noteq> (if wr then 0x74 else 0x64) \<or> \<not> wr \<and> buf ! 0 \<noteq> 0x72
                     then c\<lparr>uart_cmd_buf := buf[unat idx := 0], uart_cmd_idx := 0\<rparr>
                     else (case cmd_digits buf [3..<(if wr then 20 else 11)] (0, 0) of
                             None \<Rightarrow> c\<lparr>uart_cmd_buf := buf[unat idx := 0], uart_cmd_idx := 0\<rparr>
                           | Some (addr, val) \<Rightarrow>
                               (let c = (if wr then con_wr addr val c else c); (x, c) = con_rd dev addr c
                                in c\<lparr>uart_cmd_idx := 0\<rparr>)))))"

partial_function (option) uart_rx_last :: "device \<Rightarrow> u8 \<Rightarrow> console \<Rightarrow> (u8 \<times> console) option" where
  "uart_rx_last dev b c =
     (let (v, c) = con_rd dev BOOT_UART_STATUS c
      in if v AND 1 = 0 then Some (b, c)
         else (let (x, c) = con_rd dev BOOT_UART_TX c in uart_rx_last dev (c8 x) c))"

definition uart_rx_isr :: "device \<Rightarrow> console \<Rightarrow> console option" where
  "uart_rx_isr dev c =
     Option.bind (uart_rx_last dev 0 c) (\<lambda>(b, c). map_option (uart_debug_cmd dev b) (boot_putc dev b c))"

definition boot_uart_init :: "console \<Rightarrow> console" where
  "boot_uart_init c =
     (fold (\<lambda>(a, v). con_wr (0x1EC10000 + a) v)
        [(0x008, 15), (0x010, 0), (0x024, 0), (0x004, 1), (0x00C, 0x80), (0x02C, 0xEA00FDE8), (0x000, 1), (0x004, 0), (0x00C, 3)] c)
     \<lparr>printf_mutex_desc := (15, 0)\<rparr>"

end
