(* ===== verification/Printf_Read.thy ===== *)
theory Printf_Read
  imports Printf
begin

text \<open>
  The formatter and the command line against a reader: \<open>read_text\<close> takes the blanks off both ends of a
  text and reads the digits between them with the console's own \<open>hex_digit\<close>.
\<close>

section \<open>A reader of numbers\<close>

fun read_num :: "nat \<Rightarrow> nat \<Rightarrow> u8 list \<Rightarrow> nat option" where
  "read_num base acc [] = Some acc"
| "read_num base acc (b # bs) =
     (case hex_digit b of
        None \<Rightarrow> None
      | Some d \<Rightarrow> if unat d < base then read_num base (acc * base + unat d) bs else None)"

definition trim :: "u8 list \<Rightarrow> u8 list" where
  "trim bs = rev (dropWhile (\<lambda>b. b = 0x20) (rev (dropWhile (\<lambda>b. b = 0x20) bs)))"

definition read_nat :: "nat \<Rightarrow> u8 list \<Rightarrow> int option" where
  "read_nat base t = (if t = [] then None else map_option int (read_num base 0 t))"

definition read_text :: "nat \<Rightarrow> u8 list \<Rightarrow> int option" where
  "read_text base bs =
     (case trim bs of
        [] \<Rightarrow> None
      | b # t \<Rightarrow> if b = 0x2D then map_option uminus (read_nat base t) else read_nat base (b # t))"

lemma read_num_append:
  "read_num base acc (xs @ ys) = Option.bind (read_num base acc xs) (\<lambda>acc. read_num base acc ys)"
  by (induction xs arbitrary: acc) (auto split: option.splits)

lemma read_num_zeros [simp]: "1 < base \<Longrightarrow> read_num base 0 (replicate k 0x30) = Some 0"
  by (induction k) (auto simp: hex_digit_def)

lemma hex_char_table:
  "list_all (\<lambda>(u, d). hex_digit (hex_char u d) = Some (of_nat d) \<and> hex_char u d \<noteq> 0x20 \<and> hex_char u d \<noteq> 0x2D \<and> hex_char u d \<noteq> 0x0D)
     (List.product [True, False] [0..<16])"
  by code_simp

lemma hex_char_ok:
  "d < 16 \<Longrightarrow> hex_digit (hex_char upper d) = Some (of_nat d) \<and> hex_char upper d \<noteq> 0x20 \<and> hex_char upper d \<noteq> 0x2D \<and> hex_char upper d \<noteq> 0x0D"
  using hex_char_table by (cases upper) (auto simp: list_all_iff simp del: upt_rec_numeral)

lemma hex_digit_char [simp]: "d < 16 \<Longrightarrow> hex_digit (hex_char upper d) = Some (of_nat d)"
  by (simp add: hex_char_ok)

lemma hex_char_plain [simp]: "d < 16 \<Longrightarrow> hex_char upper d \<noteq> 0x20 \<and> hex_char upper d \<noteq> 0x2D \<and> hex_char upper d \<noteq> 0x0D"
  by (simp add: hex_char_ok)

lemma dec_char: "d < 10 \<Longrightarrow> (of_nat (48 + d) :: u8) = hex_char False d"
  by (simp add: hex_char_def)

lemma unat_small [simp]: "d < 16 \<Longrightarrow> unat (of_nat d :: u32) = d"
  by (simp add: unat_of_nat take_bit_nat_eq_self)

lemma read_dec_digits: "read_num 10 0 (rev (dec_digits n)) = Some n"
proof (induction n rule: dec_digits.induct)
  case (1 n)
  have d: "n mod 10 < 10" by simp
  show ?case
  proof (cases "n div 10 = 0")
    case True
    then show ?thesis using d by (subst dec_digits.simps) (simp add: dec_char del: of_nat_add)
  next
    case False
    then show ?thesis using d 1 by (subst dec_digits.simps) (simp add: dec_char read_num_append del: of_nat_add)
  qed
qed

lemma read_hex_digits: "read_num 16 0 (rev (hex_digits upper n)) = Some n"
proof (induction upper n rule: hex_digits.induct)
  case (1 upper n)
  show ?case
  proof (cases "n div 16 = 0")
    case True
    then show ?thesis by (subst hex_digits.simps) simp
  next
    case False
    then show ?thesis using 1 by (subst hex_digits.simps) (simp add: read_num_append)
  qed
qed

lemma dec_digits_plain: "\<forall>b\<in>set (dec_digits n). b \<noteq> 0x20 \<and> b \<noteq> 0x2D"
  by (induction n rule: dec_digits.induct) (subst dec_digits.simps, auto simp: dec_char simp del: of_nat_add)

lemma hex_digits_plain: "\<forall>b\<in>set (hex_digits upper n). b \<noteq> 0x20 \<and> b \<noteq> 0x2D"
  by (induction upper n rule: hex_digits.induct) (subst hex_digits.simps, auto)

lemma digits_nonempty [simp]: "dec_digits n \<noteq> []" "hex_digits upper n \<noteq> []"
  by (subst dec_digits.simps, simp, subst hex_digits.simps, simp)

section \<open>What the formatter writes is read back\<close>

lemma trim_padded:
  assumes "t \<noteq> []" "hd t \<noteq> 0x20" "last t \<noteq> 0x20"
  shows "trim (replicate i 0x20 @ t @ replicate j 0x20) = t"
proof -
  have l: "dropWhile (\<lambda>b. b = (0x20::u8)) (replicate i 0x20 @ t') = t'" if "t' \<noteq> []" "hd t' \<noteq> 0x20" for i t'
    using that by (induction i) (auto simp: dropWhile_eq_self_iff)
  have "hd (rev t) \<noteq> 0x20" using assms by (simp add: hd_rev)
  then show ?thesis
    using assms by (simp add: trim_def l hd_append)
qed

lemma last_rev_in: "tmp \<noteq> [] \<Longrightarrow> last (rev tmp) \<in> set tmp" "tmp \<noteq> [] \<Longrightarrow> hd (rev tmp) \<in> set tmp"
  by (simp_all add: last_rev hd_rev)

lemma put_digits_cases:
  obtains (blank) i j where "put_digits left zero width tmp = replicate i 0x20 @ rev tmp @ replicate j 0x20"
  | (zeros) "put_digits left zero width tmp = replicate (Suc (nat (width - int (length tmp)) - 1)) 0x30 @ rev tmp"
proof -
  let ?pad = "nat (width - int (length tmp))"
  show thesis
  proof (cases "left \<or> \<not> zero \<or> ?pad = 0")
    case True
    then have "put_digits left zero width tmp
        = replicate (if left then 0 else ?pad) 0x20 @ rev tmp @ replicate (if left then ?pad else 0) 0x20"
      by (auto simp: put_digits_def Let_def)
    then show thesis by (rule blank)
  next
    case False
    then have "Suc (?pad - 1) = ?pad" by simp
    with False show thesis by (intro zeros) (simp add: put_digits_def Let_def del: replicate_Suc)
  qed
qed

lemma read_put_digits:
  assumes tmp: "tmp \<noteq> []" "\<forall>b\<in>set tmp. b \<noteq> 0x20 \<and> b \<noteq> 0x2D" and rd: "read_num base 0 (rev tmp) = Some n" "1 < base"
  shows "read_text base (put_digits left zero width tmp) = Some (int n)"
proof -
  define pad where "pad = nat (width - int (length tmp))"
  have ne: "rev tmp \<noteq> []" "hd (rev tmp) \<noteq> 0x20" "last (rev tmp) \<noteq> 0x20" "hd (rev tmp) \<noteq> 0x2D"
    using tmp last_rev_in [of tmp] by auto
  consider i j where "put_digits left zero width tmp = replicate i 0x20 @ rev tmp @ replicate j 0x20"
    | "put_digits left zero width tmp = replicate (Suc (pad - 1)) 0x30 @ rev tmp"
    by (rule put_digits_cases [of left zero width tmp]) (auto simp: pad_def)
  then show ?thesis
  proof cases
    case 1
    then have "trim (put_digits left zero width tmp) = rev tmp" using ne by (simp add: trim_padded)
    then show ?thesis using ne rd by (cases "rev tmp") (simp_all add: read_text_def read_nat_def)
  next
    case 2
    have "trim (put_digits left zero width tmp) = replicate (Suc (pad - 1)) 0x30 @ rev tmp"
      using ne trim_padded [of "replicate (Suc (pad - 1)) 0x30 @ rev tmp" 0 0] by (simp add: 2)
    then show ?thesis using rd
      by (simp add: read_text_def read_nat_def hex_digit_def read_num_append)
  qed
qed

lemma length_put_digits: "width \<le> int (length (put_digits left zero width tmp))"
  by (auto simp: put_digits_def Let_def)

lemma read_put_signed:
  "read_text 10 (put_signed sp neg n) = Some (if neg then - int n else int n)"
proof (cases neg)
  case False
  have "last (dec_digits n) \<noteq> 0x2D" using dec_digits_plain [of n] digits_nonempty(1) last_in_set by blast
  then show ?thesis using False
    by (simp add: put_signed_def read_put_digits dec_digits_plain read_dec_digits)
next
  case True
  have r: "read_nat 10 (rev (dec_digits n)) = Some (int n)"
    by (simp add: read_nat_def read_dec_digits)
  have pl: "last (0x2D # rev (dec_digits n)) \<noteq> 0x20"
    using last_rev_in(1) [OF digits_nonempty(1) [of n]] dec_digits_plain [of n] by simp
  show ?thesis
  proof (cases "sp_zero sp \<and> \<not> sp_left sp")
    case zero: True
    let ?z = "replicate (nat (sp_width sp - 1 - int (length (dec_digits n)))) 0x30"
    have "trim (0x2D # ?z @ rev (dec_digits n)) = 0x2D # ?z @ rev (dec_digits n)"
      using pl trim_padded [of "0x2D # ?z @ rev (dec_digits n)" 0 0] by simp
    then show ?thesis using True zero
      by (simp add: put_signed_def put_digits_def read_text_def read_nat_def read_num_append read_dec_digits)
  next
    case sp: False
    obtain i j where "put_signed sp neg n = replicate i 0x20 @ (0x2D # rev (dec_digits n)) @ replicate j 0x20"
    proof -
      let ?p = "nat (sp_width sp - int (length (dec_digits n @ [0x2D])))"
      have "put_signed sp neg n = replicate (if sp_left sp then 0 else ?p) 0x20 @ (0x2D # rev (dec_digits n)) @ replicate (if sp_left sp then ?p else 0) 0x20"
        using True sp by (auto simp: put_signed_def put_digits_def Let_def)
      then show thesis by (rule that)
    qed
    then have "trim (put_signed sp neg n) = 0x2D # rev (dec_digits n)"
      using pl trim_padded [of "0x2D # rev (dec_digits n)" i j] by simp
    then show ?thesis using True r by (simp add: read_text_def)
  qed
qed

lemma length_put_signed: "sp_width sp \<le> int (length (put_signed sp neg n))"
proof (cases "sp_zero sp \<and> \<not> sp_left sp \<and> last (dec_digits n @ (if neg then [0x2D] else [])) = 0x2D")
  case True
  have "sp_width sp \<le> 1 + int (length (put_digits False True (sp_width sp - 1) tmp))" for tmp
    using length_put_digits [of "sp_width sp - 1" False True tmp] by simp
  then show ?thesis using True by (auto simp: put_signed_def Let_def)
next
  case False
  then show ?thesis using length_put_digits [of "sp_width sp"] by (auto simp: put_signed_def Let_def)
qed

lemma signed_magnitude:
  fixes v :: "'a::len word"
  shows "(if v <s 0 then - int (unat (0 - v)) else int (unat v)) = sint v"
proof (cases "v <s 0")
  case False
  then have p: "0 \<le> sint v" by (simp add: word_sless_alt)
  have "sint v < 2 ^ LENGTH('a)" using sint_lt [of v] by (rule less_le_trans) simp
  with p have "uint v = sint v" by (simp add: uint_sint take_bit_int_eq_self)
  with False show ?thesis by simp
next
  case True
  then have n: "sint v < 0" by (simp add: word_sless_alt)
  have "(2::int) ^ (LENGTH('a) - 1) < 2 ^ LENGTH('a)" by simp
  then have l: "- sint v < 2 ^ LENGTH('a)" using sint_ge [of v] by linarith
  have "- v = word_of_int (- sint v)" by simp
  then have "uint (- v) = take_bit LENGTH('a) (- sint v)" by (simp only: uint_word_of_int take_bit_eq_mod)
  also have "\<dots> = - sint v" using n l by (simp add: take_bit_int_eq_self)
  finally show ?thesis using True by simp
qed

lemma read_signed_word: "read_text 10 (put_signed sp (v <s 0) (unat (if v <s 0 then 0 - v else v))) = Some (sint v)"
  using signed_magnitude [of v] by (cases "v <s 0") (simp_all add: read_put_signed)

text \<open>
  C39. What the formatter writes for \<open>%d\<close>, \<open>%u\<close>, \<open>%x\<close> and \<open>%X\<close>, with any flags, any width and at 32 or 64 bits,
  is at least as wide as asked for and reads back as the argument: signed for \<open>%d\<close> (the least number
  included, and zero padding between the sign and the digits), unsigned for the others.
\<close>

theorem formatted_number_read_back:
  "read_text 10 (fst (conv_d sp args i)) = Some (if sp_ll sp then sint (arg64 args i) else sint (args i)) \<and>
   read_text 10 (fst (conv_u sp args i)) = Some (if sp_ll sp then uint (arg64 args i) else uint (args i)) \<and>
   read_text 16 (fst (conv_x upper sp args i)) = Some (if sp_ll sp then uint (arg64 args i) else uint (args i)) \<and>
   sp_width sp \<le> int (length (fst (conv_d sp args i))) \<and>
   sp_width sp \<le> int (length (fst (conv_u sp args i))) \<and>
   sp_width sp \<le> int (length (fst (conv_x upper sp args i)))"
proof -
  have d: "read_text 10 (fst (conv_d sp args i)) = Some (if sp_ll sp then sint (arg64 args i) else sint (args i))"
    by (cases "sp_ll sp") (simp_all only: conv_d_def Let_def fst_conv if_True if_False read_signed_word)
  have u: "read_text 10 (fst (conv_u sp args i)) = Some (if sp_ll sp then uint (arg64 args i) else uint (args i))"
    by (simp add: conv_u_def read_put_digits dec_digits_plain read_dec_digits)
  have x: "read_text 16 (fst (conv_x upper sp args i)) = Some (if sp_ll sp then uint (arg64 args i) else uint (args i))"
    by (simp add: conv_x_def read_put_digits hex_digits_plain read_hex_digits)
  show ?thesis using d u x length_put_digits length_put_signed
    by (auto simp: conv_d_def conv_u_def conv_x_def Let_def)
qed

section \<open>The command line\<close>

definition hex8 :: "u32 \<Rightarrow> u8 list" where
  "hex8 a = drop 2 (fst (conv_p (\<lambda>_. a) 0))"

definition wt_line :: "u32 \<Rightarrow> u32 \<Rightarrow> u8 list" where
  "wt_line a v = [0x77, 0x74, 0x20] @ hex8 a @ [0x20] @ hex8 v @ [0x0D]"

lemma nibble_step: "(a AND NOT (mask (4 * k + 4))) OR push_bit (4 * k) (drop_bit (k * 4) a AND 0xF) = a AND NOT (mask (4 * k) :: u32)"
proof -
  have m: "(0xF :: u32) = mask 4" by (simp add: mask_eq_exp_minus_1)
  show ?thesis unfolding m by (rule bit_eqI) (auto simp: bit_simps algebra_simps)
qed

definition nib :: "u32 \<Rightarrow> nat \<Rightarrow> u32" where "nib a k = drop_bit (k * 4) a AND 0xF"

lemma hex8_nibbles:
  "((((((((0 OR push_bit 28 (nib a 7)) OR push_bit 24 (nib a 6)) OR push_bit 20 (nib a 5)) OR push_bit 16 (nib a 4))
     OR push_bit 12 (nib a 3)) OR push_bit 8 (nib a 2)) OR push_bit 4 (nib a 1)) OR push_bit 0 (nib a 0)) = a"
proof -
  have z: "a AND NOT (mask 32) = 0" by (rule bit_eqI) (simp add: bit_simps)
  show ?thesis
    using nibble_step [of a 7] nibble_step [of a 6] nibble_step [of a 5] nibble_step [of a 4]
      nibble_step [of a 3] nibble_step [of a 2] nibble_step [of a 1] nibble_step [of a 0]
    unfolding nib_def by (simp add: z del: push_bit_and)
qed

lemma nib_less: "unat (nib a k) < 16"
proof -
  have "nib a k \<le> 15" unfolding nib_def by (rule word_and_le1)
  then show ?thesis by (simp add: word_le_nat_alt)
qed

lemma hex_digit_nib: "hex_digit (hex_char False (unat (nib a k))) = Some (nib a k)"
  by (simp add: nib_less)

lemma hex8_nibs:
  "hex8 a = map (\<lambda>k. hex_char False (unat (nib a k))) [7, 6, 5, 4, 3, 2, 1, 0]"
proof -
  have "rev [0..<8] = [7, 6, 5, 4, 3, 2, 1, 0 :: nat]" by code_simp
  then show ?thesis by (simp only: hex8_def conv_p_def nib_def fst_conv append_Cons append_Nil drop_Suc_Cons numeral_2_eq_2 drop_0)
qed

lemma type_chars:
  assumes "uart_cmd_idx c = of_nat i" "length (uart_cmd_buf c) = 32" "i + length cs \<le> 32" "0x0D \<notin> set cs"
  shows "fold (uart_debug_cmd dev) cs c
    = c\<lparr>uart_cmd_idx := of_nat (i + length cs),
        uart_cmd_buf := take i (uart_cmd_buf c) @ cs @ drop (i + length cs) (uart_cmd_buf c)\<rparr>"
  using assms
proof (induction cs arbitrary: c i)
  case Nil
  then show ?case by simp
next
  case (Cons x cs)
  have i: "i < 32" using Cons.prems by simp
  then have u: "unat (of_nat i :: u32) = i" by (simp add: unat_of_nat take_bit_nat_eq_self)
  have l: "\<not> 31 < (of_nat i :: u32)" using i u by (simp add: word_less_nat_alt)
  let ?c = "c\<lparr>uart_cmd_buf := (uart_cmd_buf c)[i := x], uart_cmd_idx := of_nat (Suc i)\<rparr>"
  have s: "uart_debug_cmd dev x c = ?c"
    using Cons.prems l u by (simp add: uart_debug_cmd_def Let_def)
  have "fold (uart_debug_cmd dev) cs ?c
    = ?c\<lparr>uart_cmd_idx := of_nat (Suc i + length cs),
        uart_cmd_buf := take (Suc i) (uart_cmd_buf ?c) @ cs @ drop (Suc i + length cs) (uart_cmd_buf ?c)\<rparr>"
    using Cons.prems i by (intro Cons.IH) auto
  then show ?case using s i Cons.prems(2) by (simp add: take_Suc_conv_app_nth)
qed

lemma parse_wt:
  "cmd_digits ([c0, c1, c2] @ hex8 a @ [c3] @ hex8 v @ rest) [3..<20] (0, 0) = Some (a, v)"
proof -
  have r: "[3..<20] = [3, 4, 5, 6, 7, 8, 9, 10, 11, 12, 13, 14, 15, 16, 17, 18, 19 :: nat]" by code_simp
  show ?thesis
    unfolding r by (simp add: hex8_nibs hex_digit_nib hex8_nibbles [simplified])
qed

lemma cr_after_wt:
  assumes buf: "uart_cmd_buf c = [0x77, 0x74, x] @ hex8 a @ [y] @ hex8 v @ rest"
    and idx: "uart_cmd_idx c = of_nat i" "i = 2 \<or> i = 20" "rest \<noteq> []"
  shows "uart_debug_cmd dev 0x0D c
    = c\<lparr>con_io := con_io c @ [Wr a v, Rd a (dev (con_io c @ [Wr a v]) a)],
        uart_cmd_buf := (uart_cmd_buf c)[i := 0x0D], uart_cmd_idx := 0\<rparr>"
proof -
  have l: "length (hex8 a) = 8" "length (hex8 v) = 8" by (simp_all add: hex8_nibs)
  have b: "\<exists>x' rest'. (uart_cmd_buf c)[i := 0x0D] = [0x77, 0x74, x'] @ hex8 a @ [y] @ hex8 v @ rest'"
  proof (cases "i = 2")
    case True
    then show ?thesis by (intro exI [of _ "0x0D"] exI [of _ rest]) (simp add: buf)
  next
    case False
    then have "i = 20" using idx by simp
    then show ?thesis
      by (intro exI [of _ x] exI [of _ "rest[0 := 0x0D]"]) (simp add: buf list_update_append l)
  qed
  then obtain x' rest' where b: "(uart_cmd_buf c)[i := 0x0D] = [0x77, 0x74, x'] @ hex8 a @ [y] @ hex8 v @ rest'" by blast
  have p: "cmd_digits ((uart_cmd_buf c)[i := 0x0D]) [3..<20] (0, 0) = Some (a, v)" by (simp only: b parse_wt)
  have w: "(uart_cmd_buf c)[i := 0x0D] ! 0 = 0x77" "(uart_cmd_buf c)[i := 0x0D] ! Suc 0 = 0x74" by (simp_all add: b)
  have i: "unat (uart_cmd_idx c) = i" "\<not> 31 < uart_cmd_idx c" using idx by auto
  show ?thesis
    using p w i by (simp add: uart_debug_cmd_def Let_def con_wr_def con_rd_def reg_wr_def reg_rd_def del: upt_rec_numeral)
qed

lemma hex8_plain: "0x0D \<notin> set (hex8 a)"
proof -
  have "hex_char False (unat (nib a k)) \<noteq> 0x0D" for k by (simp add: nib_less)
  then show ?thesis unfolding hex8_nibs by (metis ex_map_conv)
qed

lemma type_wt_line:
  assumes "length (uart_cmd_buf c) = 32" "uart_cmd_idx c = 0"
  shows "fold (uart_debug_cmd dev) (wt_line a v) c
    = c\<lparr>con_io := con_io c @ [Wr a v, Rd a (dev (con_io c @ [Wr a v]) a)],
        uart_cmd_buf := wt_line a v @ drop 21 (uart_cmd_buf c), uart_cmd_idx := 0\<rparr>"
proof -
  let ?cs = "[0x77, 0x74, 0x20] @ hex8 a @ [0x20] @ hex8 v"
  have l: "length (hex8 a) = 8" "length (hex8 v) = 8" by (simp_all add: hex8_nibs)
  have t: "fold (uart_debug_cmd dev) ?cs c
    = c\<lparr>uart_cmd_idx := of_nat 20, uart_cmd_buf := ?cs @ drop 20 (uart_cmd_buf c)\<rparr>"
    using assms hex8_plain by (subst type_chars [where i = 0]) (auto simp: l)
  have d: "drop 20 (uart_cmd_buf c) = uart_cmd_buf c ! 20 # drop 21 (uart_cmd_buf c)"
    using assms by (simp add: Cons_nth_drop_Suc [symmetric])
  have "uart_debug_cmd dev 0x0D (fold (uart_debug_cmd dev) ?cs c)
    = c\<lparr>con_io := con_io c @ [Wr a v, Rd a (dev (con_io c @ [Wr a v]) a)],
        uart_cmd_buf := wt_line a v @ drop 21 (uart_cmd_buf c), uart_cmd_idx := 0\<rparr>"
    unfolding t by (subst cr_after_wt [where i = 20 and x = "0x20" and a = a and y = "0x20" and v = v and rest = "drop 20 (uart_cmd_buf c)"])
      (simp_all add: d wt_line_def list_update_append l)
  then show ?thesis by (simp add: wt_line_def)
qed

text \<open>
  C40. A line "wt A V" with the address and the value printed as \<open>%p\<close> prints them writes V to A and reads A
  back, whatever the command buffer held, for every address and value; the short line "wt" after it does the
  same again, since the parser reads fixed columns and never compares them with the length of the line.
\<close>

theorem short_line_repeats_command:
  assumes "length (uart_cmd_buf c) = 32" "uart_cmd_idx c = 0"
    and "c1 = fold (uart_debug_cmd dev) (wt_line a v) c"
    and "c2 = fold (uart_debug_cmd dev) [0x77, 0x74, 0x0D] c1"
  shows "con_io c1 = con_io c @ [Wr a v, Rd a (dev (con_io c @ [Wr a v]) a)] \<and>
    con_io c2 = con_io c1 @ [Wr a v, Rd a (dev (con_io c1 @ [Wr a v]) a)]"
proof -
  have c1: "c1 = c\<lparr>con_io := con_io c @ [Wr a v, Rd a (dev (con_io c @ [Wr a v]) a)],
        uart_cmd_buf := wt_line a v @ drop 21 (uart_cmd_buf c), uart_cmd_idx := 0\<rparr>"
    using assms type_wt_line by simp
  have l: "length (hex8 a) = 8" "length (hex8 v) = 8" by (simp_all add: hex8_nibs)
  have "fold (uart_debug_cmd dev) [0x77, 0x74] c1
      = c1\<lparr>uart_cmd_idx := of_nat 2, uart_cmd_buf := [0x77, 0x74] @ drop 2 (uart_cmd_buf c1)\<rparr>"
    using assms(1) by (subst type_chars [where i = 0]) (auto simp: c1 wt_line_def l)
  then have "c2 = uart_debug_cmd dev 0x0D (c1\<lparr>uart_cmd_idx := 2, uart_cmd_buf := [0x77, 0x74] @ drop 2 (uart_cmd_buf c1)\<rparr>)"
    using assms(4) by simp
  also have "\<dots> = c1\<lparr>con_io := con_io c1 @ [Wr a v, Rd a (dev (con_io c1 @ [Wr a v]) a)],
        uart_cmd_buf := ([0x77, 0x74] @ drop 2 (uart_cmd_buf c1))[2 := 0x0D], uart_cmd_idx := 0\<rparr>"
    by (subst cr_after_wt [where i = 2 and x = "0x20" and a = a and y = "0x20" and v = v and rest = "0x0D # drop 21 (uart_cmd_buf c)"])
      (simp_all add: c1 wt_line_def)
  finally show ?thesis using c1 by simp
qed

theorem short_line_repeats_command_witness:
  "let c = \<lparr>con_io = [], npu_printf_prefix = 1, printf_mutex_desc = (15, 0), uart_cmd_idx = 0, uart_cmd_buf = replicate 32 0\<rparr>;
       c1 = fold (uart_debug_cmd (\<lambda>_ _. 7)) (wt_line 0x1EC0C194 1) c
   in con_io c1 = [Wr 0x1EC0C194 1, Rd 0x1EC0C194 7] \<and>
      con_io (fold (uart_debug_cmd (\<lambda>_ _. 7)) [0x77, 0x74, 0x0D] c1)
        = [Wr 0x1EC0C194 1, Rd 0x1EC0C194 7, Wr 0x1EC0C194 1, Rd 0x1EC0C194 7]"
  using short_line_repeats_command [where dev = "\<lambda>_ _. 7" and a = "0x1EC0C194" and v = 1
      and c = "\<lparr>con_io = [], npu_printf_prefix = 1, printf_mutex_desc = (15, 0), uart_cmd_idx = 0, uart_cmd_buf = replicate 32 0\<rparr>",
      OF _ _ refl refl]
  by (simp add: Let_def)

end
