(* ===== verification/Spec2Isabelle.thy ===== *)
theory Spec2Isabelle
  imports Sram Bufid_Pool Staq_Limit Reorder_Window Reorder_Rx Dba_Frame Dba_Table Dba_Adapt Dba_Budget Dba_Safe Dba_Map Timer Mbox_Mail Tunnel_Reasm Tunnel_Csum Tunnel_Store Fwd_Fifo Printf_Read
begin

text \<open>
  A verification development for the firmware of the AN75xx network processor: six or eight RISC-V
  harts that move frames between a WiFi chip, the wired side and the host. The sources are C files
  under \<open>src/\<close>, built for one of three SoCs and one WiFi chip; \<open>Config\<close> makes that choice a value, the
  \<open>variant\<close>, which the definitions take where the code has an \<open>#if\<close>.

  How the program is modelled. Globals of a file are the fields of a record; a function is a
  definition that takes and returns that record. Machine integers are words of their width, so that
  arithmetic wraps as in C; signed comparisons are written with \<open><s\<close> and \<open><=s\<close>. A register access is
  appended to a list of accesses, and what a read gives is decided by a \<open>device\<close>, an arbitrary function
  of the accesses so far and the address (\<open>Prelude\<close>): theorems hold for every answer of the hardware
  unless they say otherwise. An access outside a table is a value of a fault type, never a default. A
  loop whose end depends on memory or hardware is a \<open>partial_function\<close>, \<open>None\<close> when it does not end.
  Prints made by other parts, debug counters nothing reads, and the trace rings are left out.

  The parts, the theories and the code.

  \<^item> \<open>Util\<close>: \<open>npu_util.c\<close>, memory and string helpers and the integer square root. \<open>Mutex\<close>: \<open>npu_mutex.c\<close>, the
    hardware mutex block, as the accesses made and a table of holders. \<open>Contracts\<close>: the locales other
    parts rely on (an allocator that gives the same block for the same type, a pool of ids, and
    so on), each interpreted in the theory of the component that provides it.
  \<^item> \<open>Sram\<close>: \<open>npu_sram.c\<close>, the bump allocator every other part takes its tables from. Shown: any sequence
    of allocations gives disjoint aligned blocks and no overrun; which builds fit their SRAM, and the one
    that does not.
  \<^item> \<open>Bufid\<close>, \<open>Bufid_Pool\<close>: \<open>npu_wifi_bufid.c\<close> and the software id pool of \<open>npu_tdma.c\<close>, rx buffer ids and tx
    tokens as rings. Shown: ids are conserved, batches equal single steps, jumbo tokens stay paired, and a
    forced reset rebuilds exactly the free tokens. Single producer and consumer, or the mutex, make an
    operation one step.
  \<^item> \<open>Staq\<close>, \<open>Staq_Limit\<close>: \<open>npu_sta_q.c\<close> and its hooks, the frames a station has in the chip, and when a frame
    is dropped. Shown: counts are exact in every reachable state, what the two limits do, and the window
    in which the standing-queue test is blind.
  \<^item> \<open>Reorder\<close>, \<open>Reorder_Lists\<close>, \<open>Reorder_Rx\<close>, \<open>Reorder_Window\<close>: \<open>npu_wifi_ba.c\<close> with the window classifier of
    \<open>npu_wifi_rx.c\<close> and the set-up of \<open>npu_wifi_init.c\<close>, the block ack windows of the kite chips as linked
    lists of nodes. \<open>Reorder_Lists\<close> reads an entry as a list of MPDUs; shown: a flush, a release up to a
    number and a scan take exactly the frames they should and end, and the list stays ordered.
  \<^item> \<open>Dba\<close> to \<open>Dba_Safe\<close>: \<open>npu_dba.c\<close>, the upstream scheduler of core 5. \<open>Dba\<close> holds the state, the tables and
    the mails of the host, \<open>Dba_Report\<close> the report ring, \<open>Dba_Grant\<close> the budget, the state machine of an alloc
    id and the fit of requests, \<open>Dba_Bwmap\<close> and \<open>Dba_New\<close> the two map writers, \<open>Dba_Frame\<close> the frame handler.
    \<open>Dba_Table\<close>, \<open>Dba_Adapt\<close>, \<open>Dba_Fit\<close>, \<open>Dba_Budget\<close>, \<open>Dba_Map\<close> and \<open>Dba_Safe\<close> show: the alloc id layout is one to
    one, grants keep their contract and the budget, windows of a map never overlap, and core 5 can
    fail in two known ways only.
  \<^item> \<open>Plic\<close>: \<open>npu_plic.c\<close>; \<open>Mbox\<close>, \<open>Mbox_Mail\<close>: \<open>npu_mbox.c\<close>; \<open>Timer\<close>: \<open>npu_timer.c\<close>. Shown: which interrupts are
    delivered and to whom, what a mail stores, calls and overwrites, the time of day, and that a delay
    ends, not early and at most one read late.
  \<^item> \<open>Bridge\<close>, \<open>Tunnel\<close>, \<open>L4s\<close>, \<open>Tunnel_Mail\<close>: \<open>npu_bridge.c\<close>, \<open>npu_tunnel.c\<close>, \<open>npu_l4s.c\<close> and the loop of the offload
    core in \<open>npu_main.c\<close>. Packets are bytes in memory; what is sent is a list of segments with patches.
    \<open>Tunnel_Wire\<close> gives segments their bytes on the wire, \<open>Tunnel_Frag\<close>, \<open>Tunnel_Reasm\<close>, \<open>Tunnel_Csum\<close> and
    \<open>Tunnel_Store\<close> show: the fragments of a packet carry its payload with right lengths and offsets,
    reassembly undoes fragmentation, when the updated header checksum is right, and that a header the host
    stores is the one sent.
  \<^item> \<open>Hostadpt\<close>, \<open>Host_Chain\<close>: \<open>npu_hostadpt.c\<close> and the copy engine of \<open>npu_tdma.c\<close>, the descriptor rings to the
    host. A descriptor is memory the host writes too, so reads of it are answered by the \<open>device\<close> and writes
    are accesses. Shown: a frame chained over several slots is visible to the host only when all of it
    is there, whatever the pace of the engine.
  \<^item> \<open>Fwd\<close>, \<open>Fwd_Fifo\<close>: \<open>npu_wifi_fwd.c\<close>, the rings of nodes between the receiving cores and core 3 on the kite
    chips. Shown: the ring of whole frames is a bounded first-in first-out queue under every interleaving of
    forwards and drains.
  \<^item> \<open>Printf\<close>, \<open>Printf_Read\<close>: \<open>npu_printf.c\<close>, the formatter, the consoles and the command line. Shown: a
    printed number reads back as its argument for all flags and widths, and what a command line writes, a
    stale line included.

  How they meet. \<open>Fwd\<close> hands frames to \<open>Hostadpt\<close> and returns their ids to \<open>Bufid\<close>. \<open>Bridge\<close>, \<open>Bufid\<close> and \<open>Reorder\<close> take their memory from \<open>Sram\<close>; \<open>Sram\<close>, \<open>Bufid\<close> and \<open>Reorder\<close> lock
  through \<open>Mutex\<close>; the drop law of \<open>Staq\<close> takes its root from \<open>Util\<close>; mails reach \<open>Dba\<close> and \<open>Tunnel_Mail\<close>
  through \<open>Mbox\<close>, whose handlers are an argument there.

  Bounds. No fuel is used: loops over counters recurse on the count, and loops over lists or
  registers are partial functions whose ending is proved where a property needs it (the report
  drain stops after 80 pairs, the window loop of the classifier moves the window in every turn). A byte
  on the console is given up after the 200000 polls of the code.
  Preconditions on sizes state the range of the code's own fields (packets below 64 KB, 128 alloc ids).

  Not modelled, and why. The datapath loops of the WiFi chips (\<open>npu_wifi_eagle_dp.c\<close>, the ring drain of
  \<open>npu_wifi_rx.c\<close>) and the rings of \<open>npu_tdma.c\<close>: descriptors shared with the chip, whose end the repository
  does not hold. Set-up lists of register writes
  without state (\<open>npu_ppe.c\<close>, most of \<open>npu_wifi_init.c\<close>, \<open>npu_wifi_eagle.c\<close>, \<open>npu_wifi_kite.c\<close>), the hex
  dump of \<open>npu_printf.c\<close>, the debug window (\<open>npu_dbg.c\<close>), boot and traps (\<open>npu_main.c\<close>, \<open>crt0.S\<close>).
\<close>

end
